(* ===== verification/Prelude.thy ===== *)
theory Prelude
  imports Main "HOL-Library.Word"
begin

text \<open>
  Shared vocabulary of the development: the machine integers of the source as words, the
  collections of simplification facts the component theories use, the lemmas on single
  bits, on bounded counters and on lists that they share, and the sequencing of fallible
  steps (Rust's \<^verbatim>\<open>?\<close> operator) as a bind on sums.

  Integers. \<^verbatim>\<open>u8\<close>, \<^verbatim>\<open>u16\<close>, \<^verbatim>\<open>u32\<close>, \<^verbatim>\<open>u64\<close> and \<^verbatim>\<open>u128\<close> are words of that width, so
  \<open>+\<close>, \<open>-\<close> and \<open>*\<close> wrap as a release build does. \<^verbatim>\<open>usize\<close> is a natural number where it only
  indexes or counts the elements of an array; a checked or saturating operation is written
  out with its bound.
\<close>

unbundle bit_operations_syntax

type_synonym u8 = "8 word"
type_synonym u16 = "16 word"
type_synonym u32 = "32 word"
type_synonym u64 = "64 word"
type_synonym u128 = "128 word"
type_synonym bytes = "u8 list"

named_theorems bits \<open>reading single bits of masks, shifts and updates\<close>
named_theorems snap \<open>facts that drive a snapshot reader or writer forward\<close>

section \<open>Fallible steps\<close>

text \<open>A fallible call of type \<^verbatim>\<open>Result<A, E>\<close> is a value of \<open>'e + 'a\<close>; \<open>attempt\<close> is \<^verbatim>\<open>?\<close>.\<close>

definition attempt :: "'e + 'a \<Rightarrow> ('a \<Rightarrow> 'e + 'b) \<Rightarrow> 'e + 'b" where
  "attempt m f = (case m of Inl e \<Rightarrow> Inl e | Inr x \<Rightarrow> f x)"

lemma attempt_simps [simp]:
  "attempt (Inl e) f = Inl e"
  "attempt (Inr x) f = f x"
  by (simp_all add: attempt_def)

lemma attempt_Inr_iff:
  "attempt m f = Inr y \<longleftrightarrow> (\<exists>x. m = Inr x \<and> f x = Inr y)"
  by (cases m) auto

section \<open>Single bits\<close>

text \<open>
  The source tests, sets and clears a bit with \<^verbatim>\<open>x & (1 << n)\<close>, \<^verbatim>\<open>x |= 1 << n\<close> and
  \<^verbatim>\<open>x &= !(1 << n)\<close>. The mask is \<open>bitm n\<close>; the collection \<open>bits\<close> turns these into statements
  about \<^const>\<open>bit\<close>.
\<close>

definition bitm :: "nat \<Rightarrow> 'a::len word" where
  "bitm n = push_bit n 1"

lemma bit_bitm [bits]: "bit (bitm n :: 'a::len word) m \<longleftrightarrow> m = n \<and> n < LENGTH('a)"
  by (auto simp: bitm_def bit_simps)

lemma and_bitm_eq_0 [bits]: "x AND bitm n = 0 \<longleftrightarrow> \<not> bit x n"
  for x :: "'a::len word"
  by (simp add: bitm_def bit_iff_and_push_bit_not_eq_0 del: push_bit_of_1)

lemma bit_or_bitm [bits]:
  "bit (x OR bitm n) m \<longleftrightarrow> bit x m \<or> (m = n \<and> n < LENGTH('a))"
  for x :: "'a::len word"
  by (auto simp: bit_simps bits)

lemma bit_and_not_bitm [bits]:
  "bit (x AND NOT (bitm n)) m \<longleftrightarrow> bit x m \<and> m \<noteq> n"
  for x :: "'a::len word"
  by (auto simp: bit_simps bits dest: bit_imp_le_length)

lemma bit_and_not_word [bits]:
  "bit (x AND NOT y) m \<longleftrightarrow> bit x m \<and> \<not> bit y m"
  for x y :: "'a::len word"
  by (auto simp: bit_simps dest: bit_imp_le_length)

lemma word_nonzero_bit:
  "x \<noteq> 0 \<longleftrightarrow> (\<exists>n < LENGTH('a). bit x n)" for x :: "'a::len word"
  by (auto simp: bit_eq_iff intro: bit_imp_le_length)

lemma word_zero_bit:
  "x = 0 \<longleftrightarrow> (\<forall>n < LENGTH('a). \<not> bit x n)" for x :: "'a::len word"
  using word_nonzero_bit [of x] by blast

section \<open>Words as numbers\<close>

lemma unat_of_nat_small:
  "n < 2 ^ LENGTH('a) \<Longrightarrow> unat (of_nat n :: 'a::len word) = n"
  by (simp add: unsigned_of_nat take_bit_nat_eq_self)

lemma unat_bound: "unat w < 2 ^ LENGTH('a)" for w :: "'a::len word"
  by (rule unsigned_less)

lemma word_unat_eqI: "unat a = unat b \<Longrightarrow> a = b" for a b :: "'a::len word"
  by (simp add: word_unat_eq_iff)

section \<open>Lists as arrays\<close>

lemma nth_list_update_if:
  "i < length xs \<Longrightarrow> xs[j := v] ! i = (if i = j then v else xs ! i)"
  by simp

section \<open>Slots of a ring\<close>

lemma mod_slot_inj:
  assumes "i < n" "j < n" "(h + i) mod n = (h + j) mod (n::nat)"
  shows "i = j"
proof -
  have "j' = i'" if "i' \<le> j'" "j' < n" "(h + i') mod n = (h + j') mod n" for i' j'
  proof -
    from that have "n dvd j' - i'"
      using mod_eq_dvd_iff_nat [of "h + i'" "h + j'" n] by simp
    with that(1,2) show ?thesis by (auto dest: dvd_imp_le)
  qed
  from this [of i j] this [of j i] assms show ?thesis by (metis nle_le)
qed

section \<open>Words as numbers\<close>

lemma unat_ucast_up: "LENGTH('a) \<le> LENGTH('b) \<Longrightarrow> unat (ucast w :: 'b::len word) = unat w"
  for w :: "'a::len word"
proof -
  assume "LENGTH('a) \<le> LENGTH('b)"
  then have "unat w < 2 ^ LENGTH('b)"
    by (intro order.strict_trans2 [OF unat_bound power_increasing]) simp_all
  then show ?thesis by (simp add: unsigned_ucast_eq take_bit_nat_eq_self)
qed

lemma unat_push_bit: "unat (push_bit n w) = 2 ^ n * (unat w mod 2 ^ (LENGTH('a) - n))"
  if "n \<le> LENGTH('a)" for w :: "'a::len word"
proof -
  have "unat (push_bit n w) = 2 ^ n * unat w mod 2 ^ LENGTH('a)"
    unfolding unsigned_push_bit_eq by (simp add: take_bit_eq_mod push_bit_eq_mult mult.commute)
  also have "(2 :: nat) ^ LENGTH('a) = 2 ^ n * 2 ^ (LENGTH('a) - n)" using that by (simp flip: power_add)
  finally show ?thesis by (simp only: mod_mult_mult1)
qed

lemma unat_xor: "unat (v XOR w) = unat v XOR unat w" for v w :: "'a::len word"
  by (simp add: unsigned_xor_eq)

lemma ucast_up_down: "LENGTH('a) \<le> LENGTH('b) \<Longrightarrow> ucast (ucast r :: 'b::len word) = r"
  for r :: "'a::len word"
  by (rule bit_word_eqI) (simp add: bit_unsigned_iff)

end
