(* ===== verification/Ring_Buffer.thy ===== *)
theory Ring_Buffer
  imports Prelude
begin

text \<open>
  The fixed-capacity FIFO of \<^verbatim>\<open>rusty_box_core/src/ring_buffer.rs\<close>. The const parameter \<^verbatim>\<open>N\<close> is the
  length of the backing array. An operation returns \<^const>\<open>None\<close> where the code panics (the
  remainder by a zero capacity, an index outside the array). The locale \<open>bounded_fifo\<close> is
  the contract a device's queue relies on: a list of at most \<open>cap\<close> elements, where a push onto
  a full queue drops the oldest element.
\<close>

section \<open>The buffer\<close>

record 'a ring =
  rb_buf :: "'a list"
  rb_head :: nat
  rb_len :: nat

abbreviation rb_cap :: "'a ring \<Rightarrow> nat" where
  "rb_cap r \<equiv> length (rb_buf r)"

definition ring_new :: "'a \<Rightarrow> nat \<Rightarrow> 'a ring" where
  "ring_new dflt n = \<lparr>rb_buf = replicate n dflt, rb_head = 0, rb_len = 0\<rparr>"

definition ring_len :: "'a ring \<Rightarrow> nat" where
  "ring_len r = rb_len r"

definition ring_is_empty :: "'a ring \<Rightarrow> bool" where
  "ring_is_empty r \<longleftrightarrow> rb_len r = 0"

definition push_back :: "'a \<Rightarrow> 'a ring \<Rightarrow> 'a ring option" where
  "push_back val r =
     (if rb_cap r = 0 then None
      else let tail = (rb_head r + rb_len r) mod rb_cap r;
               r1 = r\<lparr>rb_buf := (rb_buf r)[tail := val]\<rparr>
           in if rb_len r = rb_cap r
              then Some (r1\<lparr>rb_head := (rb_head r + 1) mod rb_cap r\<rparr>)
              else Some (r1\<lparr>rb_len := rb_len r + 1\<rparr>))"

definition pop_front :: "'a ring \<Rightarrow> ('a option \<times> 'a ring) option" where
  "pop_front r =
     (if rb_len r = 0 then Some (None, r)
      else if rb_head r \<ge> rb_cap r then None
      else Some (Some (rb_buf r ! rb_head r),
                 r\<lparr>rb_head := (rb_head r + 1) mod rb_cap r, rb_len := rb_len r - 1\<rparr>))"

definition ring_clear :: "'a ring \<Rightarrow> 'a ring" where
  "ring_clear r = r\<lparr>rb_head := 0, rb_len := 0\<rparr>"

section \<open>Iteration\<close>

text \<open>\<^verbatim>\<open>Drain\<close> and \<^verbatim>\<open>Iter\<close> have the same fields and the same \<^verbatim>\<open>next\<close>.\<close>

record 'a iter_state =
  it_buf :: "'a list"
  it_head :: nat
  it_remaining :: nat

definition ring_iter :: "'a ring \<Rightarrow> 'a iter_state" where
  "ring_iter r = \<lparr>it_buf = rb_buf r, it_head = rb_head r, it_remaining = rb_len r\<rparr>"

definition ring_drain :: "'a ring \<Rightarrow> 'a iter_state \<times> 'a ring" where
  "ring_drain r =
     (\<lparr>it_buf = rb_buf r, it_head = rb_head r, it_remaining = rb_len r\<rparr>,
      r\<lparr>rb_head := 0, rb_len := 0\<rparr>)"

definition iter_next :: "'a iter_state \<Rightarrow> ('a option \<times> 'a iter_state) option" where
  "iter_next it =
     (if it_remaining it = 0 then Some (None, it)
      else if it_head it \<ge> length (it_buf it) then None
      else Some (Some (it_buf it ! it_head it),
                 it\<lparr>it_head := (it_head it + 1) mod length (it_buf it),
                    it_remaining := it_remaining it - 1\<rparr>))"

text \<open>
  A \<^verbatim>\<open>for\<close> loop over the iterator: \<^verbatim>\<open>next\<close> until it answers \<^const>\<open>None\<close>. Every \<^verbatim>\<open>next\<close> that yields
  an element lowers \<^verbatim>\<open>remaining\<close>.
\<close>

function iter_collect :: "'a iter_state \<Rightarrow> 'a list option" where
  "iter_collect it =
     (case iter_next it of
        None \<Rightarrow> None
      | Some (None, it') \<Rightarrow> Some []
      | Some (Some x, it') \<Rightarrow> map_option ((#) x) (iter_collect it'))"
  by pat_completeness auto
termination
  by (relation "measure it_remaining") (auto simp: iter_next_def split: if_splits)

declare iter_collect.simps [simp del]

section \<open>The contract of a bounded FIFO\<close>

fun push_all :: "('a \<Rightarrow> 'q \<Rightarrow> 'q option) \<Rightarrow> 'a list \<Rightarrow> 'q \<Rightarrow> 'q option" where
  "push_all push [] q = Some q"
| "push_all push (x # xs) q = Option.bind (push x q) (push_all push xs)"

fun pop_times :: "('q \<Rightarrow> ('a option \<times> 'q) option) \<Rightarrow> nat \<Rightarrow> 'q \<Rightarrow> ('a option list \<times> 'q) option"
where
  "pop_times pop 0 q = Some ([], q)"
| "pop_times pop (Suc n) q =
     Option.bind (pop q) (\<lambda>(x, q'). map_option (\<lambda>(xs, q''). (x # xs, q'')) (pop_times pop n q'))"

definition keep_last :: "nat \<Rightarrow> 'a list \<Rightarrow> 'a list" where
  "keep_last n xs = drop (length xs - n) xs"

lemma length_keep_last [simp]: "length (keep_last n xs) = min n (length xs)"
  by (simp add: keep_last_def min_def)

lemma keep_last_id [simp]: "length xs \<le> n \<Longrightarrow> keep_last n xs = xs"
  by (simp add: keep_last_def)

lemma keep_last_keep_last [simp]:
  "keep_last n (keep_last n xs @ ys) = keep_last n (xs @ ys)"
proof (cases "length xs \<le> n")
  case False
  then have "length xs + length ys - n = length xs - n + length ys" by simp
  with False show ?thesis
    by (simp add: keep_last_def add.commute)
qed simp

locale bounded_fifo =
  fixes cap :: "'q \<Rightarrow> nat"
    and contents :: "'q \<Rightarrow> 'a list"
    and invar :: "'q \<Rightarrow> bool"
    and push :: "'a \<Rightarrow> 'q \<Rightarrow> 'q option"
    and pop :: "'q \<Rightarrow> ('a option \<times> 'q) option"
  assumes bounded: "invar q \<Longrightarrow> length (contents q) \<le> cap q"
    and push_law: "invar q \<Longrightarrow> \<exists>q'. push x q = Some q' \<and> invar q' \<and> cap q' = cap q \<and>
          contents q' = keep_last (cap q) (contents q @ [x])"
    and pop_empty: "invar q \<Longrightarrow> contents q = [] \<Longrightarrow> pop q = Some (None, q)"
    and pop_law: "invar q \<Longrightarrow> contents q = x # xs \<Longrightarrow>
          \<exists>q'. pop q = Some (Some x, q') \<and> invar q' \<and> cap q' = cap q \<and> contents q' = xs"
begin

lemma push_all_law:
  "invar q \<Longrightarrow> \<exists>q'. push_all push xs q = Some q' \<and> invar q' \<and> cap q' = cap q \<and>
     contents q' = keep_last (cap q) (contents q @ xs)"
proof (induction xs arbitrary: q)
  case Nil
  then show ?case by (simp add: bounded)
next
  case (Cons x xs)
  from push_law [OF Cons.prems, of x] obtain q1
    where q1: "push x q = Some q1" "invar q1" "cap q1 = cap q"
      "contents q1 = keep_last (cap q) (contents q @ [x])" by blast
  from Cons.IH [OF q1(2)] q1 show ?case by auto
qed

lemma pop_times_law:
  "invar q \<Longrightarrow> n \<le> length (contents q) \<Longrightarrow>
     \<exists>q'. pop_times pop n q = Some (map Some (take n (contents q)), q') \<and> invar q' \<and>
       cap q' = cap q \<and> contents q' = drop n (contents q)"
proof (induction n arbitrary: q)
  case 0
  then show ?case by simp
next
  case (Suc n)
  then obtain x xs where xs: "contents q = x # xs" by (cases "contents q") auto
  from pop_law [OF Suc.prems(1) xs] obtain q1
    where "pop q = Some (Some x, q1)" "invar q1" "cap q1 = cap q" "contents q1 = xs" by blast
  with Suc.IH [of q1] Suc.prems(2) xs show ?case by fastforce
qed

text \<open>Elements come out in the order they went in, as long as they fit.\<close>

lemma fifo_law:
  assumes "invar q" "contents q = []" "length xs \<le> cap q"
  shows "\<exists>q1 q2. push_all push xs q = Some q1 \<and>
     pop_times pop (length xs) q1 = Some (map Some xs, q2) \<and> contents q2 = []"
proof -
  from push_all_law [OF assms(1), of xs] assms(2,3) obtain q1
    where q1: "push_all push xs q = Some q1" "invar q1" "contents q1 = xs" by auto
  with pop_times_law [OF q1(2), of "length xs"] show ?thesis by auto
qed

end

section \<open>The ring buffer keeps the contract\<close>

definition ring_inv :: "'a ring \<Rightarrow> bool" where
  "ring_inv r \<longleftrightarrow> rb_head r < rb_cap r \<and> rb_len r \<le> rb_cap r"

definition ring_list :: "'a ring \<Rightarrow> 'a list" where
  "ring_list r = map (\<lambda>i. rb_buf r ! ((rb_head r + i) mod rb_cap r)) [0..<rb_len r]"

lemma length_ring_list [simp]: "length (ring_list r) = rb_len r"
  by (simp add: ring_list_def)

lemma ring_new_inv: "0 < n \<Longrightarrow> ring_inv (ring_new d n) \<and> ring_list (ring_new d n) = []"
  by (simp add: ring_new_def ring_inv_def ring_list_def)

lemma ring_list_Cons:
  assumes "ring_inv r" "rb_len r = Suc n"
  shows "ring_list r = rb_buf r ! rb_head r #
     ring_list (r\<lparr>rb_head := (rb_head r + 1) mod rb_cap r, rb_len := n\<rparr>)"
  using assms
  by (simp add: ring_list_def ring_inv_def upt_conv_Cons map_Suc_upt [symmetric] mod_add_left_eq
      add.assoc del: upt_Suc)

lemma ring_push_room:
  assumes "ring_inv r" "rb_len r < rb_cap r"
  shows "ring_list (r\<lparr>rb_buf := (rb_buf r)[(rb_head r + rb_len r) mod rb_cap r := x],
     rb_len := rb_len r + 1\<rparr>) = ring_list r @ [x]"
proof -
  have "(rb_head r + rb_len r) mod rb_cap r \<noteq> (rb_head r + i) mod rb_cap r" if "i < rb_len r" for i
    using mod_slot_inj [of i "rb_cap r" "rb_len r" "rb_head r"] that assms(2)
    by (metis less_trans nat_less_le)
  moreover have "(rb_head r + rb_len r) mod rb_cap r < rb_cap r"
    using assms(2) by (intro mod_less_divisor) linarith
  ultimately show ?thesis by (simp add: ring_list_def)
qed

lemma ring_push_full:
  assumes "ring_inv r" "rb_len r = rb_cap r"
  shows "ring_list (r\<lparr>rb_buf := (rb_buf r)[rb_head r := x],
     rb_head := (rb_head r + 1) mod rb_cap r\<rparr>) = tl (ring_list r) @ [x]"
    (is "ring_list ?r = _")
proof (rule nth_equalityI)
  show "length (ring_list ?r) = length (tl (ring_list r) @ [x])"
    using assms by (simp add: ring_inv_def)
next
  fix i assume "i < length (ring_list ?r)"
  then have i: "i < rb_cap r" using assms(2) by simp
  have h: "rb_head r < rb_cap r" using assms(1) by (simp add: ring_inv_def)
  have "((rb_head r + 1) mod rb_cap r + i) mod rb_cap r = (rb_head r + Suc i) mod rb_cap r"
    by (simp add: mod_add_left_eq)
  then have left: "ring_list ?r ! i = (rb_buf r)[rb_head r := x] ! ((rb_head r + Suc i) mod rb_cap r)"
    using i assms(2) by (simp add: ring_list_def)
  show "ring_list ?r ! i = (tl (ring_list r) @ [x]) ! i"
  proof (cases "Suc i = rb_cap r")
    case True
    then have "(rb_head r + Suc i) mod rb_cap r = rb_head r" using h by simp
    moreover have "i = rb_cap r - 1" using True by simp
    ultimately show ?thesis using left h assms(2) by (simp add: nth_append)
  next
    case False
    with i have i': "Suc i < rb_cap r" by simp
    then have "(rb_head r + Suc i) mod rb_cap r \<noteq> rb_head r"
      using mod_slot_inj [of "Suc i" "rb_cap r" 0 "rb_head r"] h
      by (metis Suc_neq_Zero add_0_right less_trans mod_less zero_less_Suc)
    moreover have "(tl (ring_list r) @ [x]) ! i = ring_list r ! Suc i"
      using i' assms(2) by (simp add: nth_append nth_tl less_diff_conv)
    ultimately show ?thesis using left i' assms(2) by (simp add: ring_list_def)
  qed
qed

lemma ring_push_inv:
  assumes "ring_inv r"
  shows "\<exists>r'. push_back x r = Some r' \<and> ring_inv r' \<and> rb_cap r' = rb_cap r \<and>
     ring_list r' = keep_last (rb_cap r) (ring_list r @ [x])"
proof -
  from assms have n: "rb_cap r \<noteq> 0" and h: "rb_head r < rb_cap r" and l: "rb_len r \<le> rb_cap r"
    by (auto simp: ring_inv_def)
  have h': "(rb_head r + 1) mod rb_cap r < rb_cap r" using n by simp
  show ?thesis
  proof (cases "rb_len r = rb_cap r")
    case True
    then have "keep_last (rb_cap r) (ring_list r @ [x]) = tl (ring_list r) @ [x]"
      using n drop_Suc [of 0 "ring_list r"] by (simp add: keep_last_def Suc_leI)
    with True h h' n ring_push_full [OF assms True, of x] show ?thesis
      by (simp add: push_back_def ring_inv_def)
  next
    case False
    with l have "rb_len r < rb_cap r" by simp
    with h n ring_push_room [OF assms this, of x] show ?thesis
      by (simp add: push_back_def ring_inv_def Let_def keep_last_def)
  qed
qed

lemma ring_pop_inv:
  assumes "ring_inv r" "ring_list r = x # xs"
  shows "\<exists>r'. pop_front r = Some (Some x, r') \<and> ring_inv r' \<and> rb_cap r' = rb_cap r \<and>
     ring_list r' = xs"
proof -
  from assms(2) have "rb_len r = Suc (length xs)"
    by (metis length_Cons length_ring_list)
  with assms show ?thesis
    by (auto simp: ring_list_Cons pop_front_def ring_inv_def intro: mod_less_divisor)
qed

interpretation ringq: bounded_fifo rb_cap ring_list ring_inv push_back pop_front
proof unfold_locales
  fix q :: "'a ring" and x xs
  assume q: "ring_inv q"
  show "length (ring_list q) \<le> rb_cap q" using q by (simp add: ring_inv_def)
  show "\<exists>q'. push_back x q = Some q' \<and> ring_inv q' \<and> rb_cap q' = rb_cap q \<and>
     ring_list q' = keep_last (rb_cap q) (ring_list q @ [x])"
    using q by (rule ring_push_inv)
  show "pop_front q = Some (None, q)" if "ring_list q = []"
    using that by (simp add: pop_front_def ring_list_def)
  show "\<exists>q'. pop_front q = Some (Some x, q') \<and> ring_inv q' \<and> rb_cap q' = rb_cap q \<and>
     ring_list q' = xs" if "ring_list q = x # xs"
    using q that by (rule ring_pop_inv)
qed

lemma iter_collect_ring:
  "ring_inv r \<Longrightarrow>
   iter_collect \<lparr>it_buf = rb_buf r, it_head = rb_head r, it_remaining = rb_len r\<rparr> =
     Some (ring_list r)"
proof (induction "rb_len r" arbitrary: r)
  case 0
  then show ?case
    by (subst iter_collect.simps) (simp add: iter_next_def ring_list_def)
next
  case (Suc n)
  let ?r = "r\<lparr>rb_head := (rb_head r + 1) mod rb_cap r, rb_len := n\<rparr>"
  have "ring_inv ?r"
    using Suc.prems Suc.hyps(2) by (auto simp: ring_inv_def intro: mod_less_divisor)
  from Suc.hyps(1) [OF _ this] Suc.hyps(2) Suc.prems show ?case
    by (subst iter_collect.simps)
      (simp add: iter_next_def ring_list_Cons [OF Suc.prems, of n] ring_inv_def
        flip: Suc.hyps(2))
qed

section \<open>Properties\<close>

text \<open>
  Pushing any sequence onto a ring buffer always succeeds, keeps the representation
  invariant and the capacity, and leaves the queue holding the last \<^verbatim>\<open>N\<close> elements of what it held
  followed by what was pushed: a full buffer drops exactly its oldest elements.
\<close>

theorem ring_push_all_keeps_newest:
  assumes "ring_inv r"
  shows "\<exists>r'. push_all push_back xs r = Some r' \<and> ring_inv r' \<and> rb_cap r' = rb_cap r \<and>
     ring_list r' = keep_last (rb_cap r) (ring_list r @ xs)"
  using assms by (rule ringq.push_all_law)

theorem ring_push_all_keeps_newest_witness:
  "ring_inv (ring_new (0::nat) 3) \<and>
   (\<exists>r'. push_all push_back [1, 2, 3, 4, 5] (ring_new (0::nat) 3) = Some r' \<and>
     ring_list r' = [3, 4, 5])"
proof -
  have inv: "ring_inv (ring_new (0::nat) 3)" by (simp add: ring_new_inv)
  have new: "rb_cap (ring_new (0::nat) 3) = 3" "ring_list (ring_new (0::nat) 3) = []"
    by (simp_all add: ring_new_def ring_list_def)
  have last: "keep_last 3 [1, 2, 3, 4, 5 :: nat] = [3, 4, 5]" by (simp add: keep_last_def)
  from ring_push_all_keeps_newest [OF inv, of "[1, 2, 3, 4, 5]"] inv show ?thesis
    unfolding new append_Nil last by blast
qed

text \<open>
  A new buffer gives back, in order, what was pushed into it as long as it fits; and draining
  or iterating it yields the same elements front to back, draining leaving it empty.
\<close>

theorem ring_fifo_and_drain:
  assumes "0 < n" "length xs \<le> n"
  shows "\<exists>r q. push_all push_back xs (ring_new d n) = Some r \<and>
     pop_times pop_front (length xs) r = Some (map Some xs, q) \<and> ring_is_empty q \<and>
     iter_collect (ring_iter r) = Some xs \<and> iter_collect (fst (ring_drain r)) = Some xs \<and>
     ring_is_empty (snd (ring_drain r)) \<and> ring_len r = length xs"
proof -
  have new: "ring_inv (ring_new d n)" "ring_list (ring_new d n) = []" "rb_cap (ring_new d n) = n"
    using assms(1) by (simp_all add: ring_new_inv) (simp add: ring_new_def)
  from ringq.fifo_law [OF new(1,2), of xs] assms(2) new(3) obtain r q
    where r: "push_all push_back xs (ring_new d n) = Some r"
      and q: "pop_times pop_front (length xs) r = Some (map Some xs, q)" "ring_list q = []" by auto
  from ringq.push_all_law [OF new(1), of xs] r new assms(2)
  have inv: "ring_inv r" "ring_list r = xs" by auto
  from q(2) have "ring_is_empty q" by (metis length_ring_list list.size(3) ring_is_empty_def)
  with r q inv iter_collect_ring [OF inv(1)] show ?thesis
    by (auto simp: ring_iter_def ring_drain_def ring_is_empty_def ring_len_def)
qed

theorem ring_fifo_and_drain_witness:
  "(0::nat) < 4 \<and> length [7, 8, 9 :: nat] \<le> 4 \<and>
   (\<exists>r. push_all push_back [7, 8, 9] (ring_new (0::nat) 4) = Some r \<and>
     iter_collect (ring_iter r) = Some [7, 8, 9])"
  using ring_fifo_and_drain [of 4 "[7, 8, 9 :: nat]" 0] by auto

end
