(* ===== verification/Vm_Time.thy ===== *)
theory Vm_Time
  imports Prelude
begin

text \<open>
  Emulated time, after \<^verbatim>\<open>rusty_box_core/src/time.rs\<close>: the tick rate \<^verbatim>\<open>ClockHz\<close>, points and spans
  of the tick counter, the conversions between ticks and wall-clock units with the rounding
  each of them has, and the manually advanced host clock. All arithmetic is done at the width
  of the source: products and quotients in \<^verbatim>\<open>u128\<close>, results clamped or narrowed to \<^verbatim>\<open>u64\<close>.

  The lemmas read every conversion as a formula on natural numbers (no product wraps), and
  from these the arming rule, the reporting rule and the phase equation follow.
\<close>

section \<open>Rates, points and spans\<close>

definition MICROS_PER_SECOND :: u128 where
  "MICROS_PER_SECOND = 1000000"

definition NANOS_PER_SECOND :: u128 where
  "NANOS_PER_SECOND = 1000000000"

datatype time_overflow = TimeOverflow

text \<open>\<^verbatim>\<open>ClockHz\<close> wraps a \<^verbatim>\<open>NonZeroU64\<close>: the type has no zero.\<close>

typedef clock_hz = "{hz :: u64. hz \<noteq> 0}"
  morphisms hz_get ClockHz
  by (rule exI [of _ 1]) simp

definition clock_hz_new :: "u64 \<Rightarrow> clock_hz option" where
  "clock_hz_new hz = (if hz = 0 then None else Some (ClockHz hz))"

definition BOCHS_DEFAULT :: clock_hz where
  "BOCHS_DEFAULT = ClockHz 50000000"

datatype vm_instant = VmInstant (instant_ticks: u64)

datatype vm_duration = VmDuration (span_ticks: u64)

record micros_phase =
  ph_micros :: u64
  ph_remainder :: u128

record vm_clock =
  vc_now :: vm_instant
  vc_rate :: clock_hz

section \<open>Clamping and narrowing\<close>

definition u64_max :: u64 where
  "u64_max = 0xFFFFFFFFFFFFFFFF"

definition saturate :: "u128 \<Rightarrow> u64" where
  "saturate v = (if v > ucast u64_max then u64_max else ucast v)"

definition narrow :: "u128 \<Rightarrow> time_overflow + u64" where
  "narrow v = (if v > ucast u64_max then Inl TimeOverflow else Inr (ucast v))"

definition div_ceil :: "u128 \<Rightarrow> u128 \<Rightarrow> u128" where
  "div_ceil a b = (if a mod b > 0 then a div b + 1 else a div b)"

definition saturating_add :: "u64 \<Rightarrow> u64 \<Rightarrow> u64" where
  "saturating_add a b = (if unat a + unat b < 2 ^ 64 then a + b else u64_max)"

definition saturating_sub :: "u64 \<Rightarrow> u64 \<Rightarrow> u64" where
  "saturating_sub a b = (if b \<le> a then a - b else 0)"

section \<open>The conversions of a rate\<close>

definition micros_at :: "clock_hz \<Rightarrow> vm_instant \<Rightarrow> u64" where
  "micros_at hz at =
     saturate (ucast (instant_ticks at) * MICROS_PER_SECOND div ucast (hz_get hz))"

definition try_micros_at :: "clock_hz \<Rightarrow> vm_instant \<Rightarrow> time_overflow + u64" where
  "try_micros_at hz at =
     narrow (ucast (instant_ticks at) * MICROS_PER_SECOND div ucast (hz_get hz))"

definition nanos_at :: "clock_hz \<Rightarrow> vm_instant \<Rightarrow> u64" where
  "nanos_at hz at =
     saturate (ucast (instant_ticks at) * NANOS_PER_SECOND div ucast (hz_get hz))"

definition micros_phase_at :: "clock_hz \<Rightarrow> vm_instant \<Rightarrow> micros_phase" where
  "micros_phase_at hz at =
     (let scaled = ucast (instant_ticks at) * MICROS_PER_SECOND
      in \<lparr>ph_micros = saturate (scaled div ucast (hz_get hz)),
          ph_remainder = scaled mod ucast (hz_get hz)\<rparr>)"

definition ticks_from_micros_ceil :: "clock_hz \<Rightarrow> u64 \<Rightarrow> vm_duration" where
  "ticks_from_micros_ceil hz micros =
     (let exact = ucast micros * ucast (hz_get hz);
          ticks = div_ceil exact MICROS_PER_SECOND
      in VmDuration (saturate (if ticks = 0 then 1 else ticks)))"

definition ticks_from_micros_floor :: "clock_hz \<Rightarrow> u64 \<Rightarrow> vm_duration" where
  "ticks_from_micros_floor hz micros =
     VmDuration (saturate (ucast micros * ucast (hz_get hz) div MICROS_PER_SECOND))"

definition try_ticks_from_micros :: "clock_hz \<Rightarrow> u64 \<Rightarrow> time_overflow + vm_duration" where
  "try_ticks_from_micros hz micros =
     (case narrow (ucast micros * ucast (hz_get hz) div MICROS_PER_SECOND) of
        Inl e \<Rightarrow> Inl e
      | Inr ticks \<Rightarrow> Inr (VmDuration ticks))"

definition ticks_from_nanos_floor :: "clock_hz \<Rightarrow> u64 \<Rightarrow> vm_duration" where
  "ticks_from_nanos_floor hz nanos =
     VmDuration (saturate (ucast nanos * ucast (hz_get hz) div NANOS_PER_SECOND))"

section \<open>Points, spans and readings\<close>

definition instant_since :: "vm_instant \<Rightarrow> vm_instant \<Rightarrow> vm_duration" where
  "instant_since self earlier =
     VmDuration (saturating_sub (instant_ticks self) (instant_ticks earlier))"

definition instant_add :: "vm_instant \<Rightarrow> vm_duration \<Rightarrow> vm_instant" where
  "instant_add self span = VmInstant (saturating_add (instant_ticks self) (span_ticks span))"

definition clock_micros :: "vm_clock \<Rightarrow> u64" where
  "clock_micros c = micros_at (vc_rate c) (vc_now c)"

definition clock_nanos :: "vm_clock \<Rightarrow> u64" where
  "clock_nanos c = nanos_at (vc_rate c) (vc_now c)"

definition clock_micros_phase :: "vm_clock \<Rightarrow> micros_phase" where
  "clock_micros_phase c = micros_phase_at (vc_rate c) (vc_now c)"

definition clock_after :: "vm_clock \<Rightarrow> vm_duration \<Rightarrow> vm_instant" where
  "clock_after c span = instant_add (vc_now c) span"

definition after_micros :: "vm_clock \<Rightarrow> u64 \<Rightarrow> vm_instant" where
  "after_micros c micros = instant_add (vc_now c) (ticks_from_micros_ceil (vc_rate c) micros)"

definition after_micros_floor :: "vm_clock \<Rightarrow> u64 \<Rightarrow> vm_instant" where
  "after_micros_floor c micros =
     instant_add (vc_now c) (ticks_from_micros_floor (vc_rate c) micros)"

definition after_nanos_floor :: "vm_clock \<Rightarrow> u64 \<Rightarrow> vm_instant" where
  "after_nanos_floor c nanos = instant_add (vc_now c) (ticks_from_nanos_floor (vc_rate c) nanos)"

section \<open>The host clock\<close>

datatype host_instant = HostInstant (as_nanos: u64)

definition nanos_since :: "host_instant \<Rightarrow> host_instant \<Rightarrow> u64" where
  "nanos_since self earlier = saturating_sub (as_nanos self) (as_nanos earlier)"

datatype manual_clock = ManualClock (mc_nanos: u64)

definition advance_nanos :: "u64 \<Rightarrow> manual_clock \<Rightarrow> manual_clock" where
  "advance_nanos nanos c = ManualClock (saturating_add (mc_nanos c) nanos)"

definition manual_now :: "manual_clock \<Rightarrow> host_instant" where
  "manual_now c = HostInstant (mc_nanos c)"

section \<open>The conversions as formulas on numbers\<close>

definition cap64 :: "nat \<Rightarrow> nat" where
  "cap64 n = min n (2 ^ 64 - 1)"

abbreviation hz_nat :: "clock_hz \<Rightarrow> nat" where
  "hz_nat hz \<equiv> unat (hz_get hz)"

lemma hz_nonzero [simp]: "hz_get hz \<noteq> 0"
  using hz_get [of hz] by simp

lemma hz_nat_pos [simp]: "0 < hz_nat hz"
  by (simp add: unat_gt_0)

lemma hz_get_ClockHz [simp]: "x \<noteq> 0 \<Longrightarrow> hz_get (ClockHz x) = x"
  by (simp add: ClockHz_inverse)

lemma unat_ucast_u128 [simp]: "unat (ucast (x :: u64) :: u128) = unat x"
  by (simp add: unsigned_ucast_eq take_bit_nat_eq_self_iff order_less_trans [OF unat_bound])

lemma unat_u64_max [simp]: "unat u64_max = 2 ^ 64 - 1"
  by (simp add: u64_max_def)

lemma le_u64_max_iff: "v \<le> ucast u64_max \<longleftrightarrow> unat v < 2 ^ 64" for v :: u128
  by (auto simp: word_le_nat_alt)

lemma unat_ucast_u64: "unat v < 2 ^ 64 \<Longrightarrow> unat (ucast (v :: u128) :: u64) = unat v"
  by (simp add: unsigned_ucast_eq take_bit_nat_eq_self)

lemma unat_saturate [simp]: "unat (saturate v) = cap64 (unat v)"
  by (auto simp: saturate_def cap64_def not_less le_u64_max_iff unat_ucast_u64
      simp flip: not_le)

lemma narrow_iff:
  "narrow v = Inr w \<longleftrightarrow> unat v < 2 ^ 64 \<and> unat w = unat v"
  by (auto simp: narrow_def le_u64_max_iff unat_ucast_u64 word_unat_eq_iff simp flip: not_le)

lemma unat_times_u128:
  "unat a * unat b < 2 ^ 128 \<Longrightarrow> unat (a * b) = unat a * unat b" for a b :: u128
  by (simp add: unat_word_ariths)

lemma unat_scaled [simp]:
  "unat (ucast (x :: u64) * MICROS_PER_SECOND) = unat x * 10 ^ 6"
  "unat (ucast (x :: u64) * NANOS_PER_SECOND) = unat x * 10 ^ 9"
  using unat_bound [of x]
  by (subst unat_times_u128; simp add: MICROS_PER_SECOND_def NANOS_PER_SECOND_def)+

lemma unat_prod64 [simp]:
  "unat (ucast (x :: u64) * ucast (y :: u64) :: u128) = unat x * unat y"
proof -
  have "unat x * unat y < 2 ^ 64 * 2 ^ 64"
    using unat_bound [of x] unat_bound [of y] by (intro mult_strict_mono) auto
  then show ?thesis by (subst unat_times_u128) simp_all
qed

lemma unat_per_second [simp]:
  "unat MICROS_PER_SECOND = 10 ^ 6" "unat NANOS_PER_SECOND = 10 ^ 9"
  by (simp_all add: MICROS_PER_SECOND_def NANOS_PER_SECOND_def)

definition ceil_div :: "nat \<Rightarrow> nat \<Rightarrow> nat" where
  "ceil_div a b = (a + b - 1) div b"

lemma ceil_div_le_iff: "0 < b \<Longrightarrow> ceil_div a b \<le> t \<longleftrightarrow> a \<le> t * b"
proof -
  assume b: "0 < b"
  have "ceil_div a b \<le> t \<longleftrightarrow> (a + b - 1) div b < Suc t" by (simp add: ceil_div_def less_Suc_eq_le)
  also have "\<dots> \<longleftrightarrow> a + b - 1 < Suc t * b" using b by (rule div_less_iff_less_mult)
  finally show ?thesis using b by auto
qed

lemma ceil_div_cases:
  assumes "0 < b"
  shows "ceil_div a b = (if 0 < a mod b then a div b + 1 else a div b)"
proof -
  have "a + b - 1 = (a mod b + b - 1) + b * (a div b)"
    using assms mult_div_mod_eq [of b a] by linarith
  then have q: "ceil_div a b = a div b + (a mod b + b - 1) div b"
    unfolding ceil_div_def using assms by (metis add.commute div_mult_self2 neq0_conv)
  show ?thesis
  proof (cases "a mod b")
    case (Suc r)
    then have "r < b" using assms mod_less_divisor [of b a] by linarith
    with assms have "(r + b) div b = 1" by (simp add: div_add_self2)
    with Suc q show ?thesis by simp
  qed (use q assms in simp)
qed

lemma unat_div_ceil_micros:
  "unat (div_ceil a MICROS_PER_SECOND) = ceil_div (unat a) (10 ^ 6)"
proof -
  have d: "unat (a div MICROS_PER_SECOND) = unat a div 10 ^ 6"
    and m: "unat (a mod MICROS_PER_SECOND) = unat a mod 10 ^ 6"
    by (simp_all add: unat_div_distrib unat_mod_distrib)
  have "unat a div 10 ^ 6 + 1 < 2 ^ 128" using unat_bound [of a] by simp
  then have s: "unat (a div MICROS_PER_SECOND + 1) = unat a div 10 ^ 6 + 1"
    using d by (simp add: unat_word_ariths)
  with d m show ?thesis by (simp add: div_ceil_def word_less_nat_alt ceil_div_cases)
qed

lemma micros_at_nat: "unat (micros_at hz at) = cap64 (unat (instant_ticks at) * 10 ^ 6 div hz_nat hz)"
  by (simp add: micros_at_def unat_div_distrib)

lemma nanos_at_nat: "unat (nanos_at hz at) = cap64 (unat (instant_ticks at) * 10 ^ 9 div hz_nat hz)"
  by (simp add: nanos_at_def unat_div_distrib)

lemma floor_nat:
  "unat (span_ticks (ticks_from_micros_floor hz m)) = cap64 (unat m * hz_nat hz div 10 ^ 6)"
  "unat (span_ticks (ticks_from_nanos_floor hz n)) = cap64 (unat n * hz_nat hz div 10 ^ 9)"
  by (simp_all add: ticks_from_micros_floor_def ticks_from_nanos_floor_def unat_div_distrib)

lemma ceil_nat:
  "unat (span_ticks (ticks_from_micros_ceil hz m)) =
     cap64 (max 1 (ceil_div (unat m * hz_nat hz) (10 ^ 6)))"
proof -
  let ?t = "div_ceil (ucast m * ucast (hz_get hz)) MICROS_PER_SECOND :: u128"
  have "unat ?t = ceil_div (unat m * hz_nat hz) (10 ^ 6)"
    by (simp add: unat_div_ceil_micros)
  moreover have "unat (if ?t = 0 then 1 else ?t) = max 1 (unat ?t)"
    by (simp add: max_def word_unat_eq_iff Suc_le_eq)
  ultimately show ?thesis by (simp add: ticks_from_micros_ceil_def Let_def)
qed

lemma unat_saturating_add [simp]: "unat (saturating_add a b) = cap64 (unat a + unat b)"
  by (auto simp: saturating_add_def cap64_def unat_word_ariths)

lemma unat_saturating_sub [simp]: "unat (saturating_sub a b) = unat a - unat b"
  by (auto simp: saturating_sub_def unat_sub word_le_nat_alt)

section \<open>Properties\<close>

text \<open>
  Every conversion between ticks and wall-clock units computes the exact quotient, rounded
  down, on unbounded numbers: the saturating ones clamp it to the largest \<^verbatim>\<open>u64\<close>, the fallible
  ones answer it exactly when it fits and report an overflow otherwise. No intermediate product
  wraps.
\<close>

theorem conversions_exact:
  "unat (micros_at hz at) = cap64 (unat (instant_ticks at) * 10 ^ 6 div hz_nat hz) \<and>
   unat (nanos_at hz at) = cap64 (unat (instant_ticks at) * 10 ^ 9 div hz_nat hz) \<and>
   (try_micros_at hz at = Inr w \<longleftrightarrow> unat w = unat (instant_ticks at) * 10 ^ 6 div hz_nat hz) \<and>
   (try_ticks_from_micros hz m = Inr d \<longleftrightarrow> unat (span_ticks d) = unat m * hz_nat hz div 10 ^ 6) \<and>
   unat (span_ticks (ticks_from_micros_floor hz m)) = cap64 (unat m * hz_nat hz div 10 ^ 6) \<and>
   unat (span_ticks (ticks_from_nanos_floor hz n)) = cap64 (unat n * hz_nat hz div 10 ^ 9)"
proof -
  have "try_ticks_from_micros hz m = Inr d \<longleftrightarrow>
      narrow (ucast m * ucast (hz_get hz) div MICROS_PER_SECOND) = Inr (span_ticks d)"
    by (cases d) (auto simp: try_ticks_from_micros_def split: sum.splits)
  then show ?thesis
    using unat_bound [of "span_ticks d"] unat_bound [of w]
    by (auto simp: micros_at_nat nanos_at_nat floor_nat try_micros_at_def narrow_iff unat_div_distrib)
qed

text \<open>
  The arming rule: \<^verbatim>\<open>ticks_from_micros_ceil\<close> answers the least non-zero number of ticks that
  spans the delay, unless that number does not fit a \<^verbatim>\<open>u64\<close>.
\<close>

theorem ticks_from_micros_ceil_least:
  assumes "unat m * hz_nat hz \<le> (2 ^ 64 - 1) * 10 ^ 6"
  shows "unat (span_ticks (ticks_from_micros_ceil hz m)) =
     (LEAST t. 0 < t \<and> unat m * hz_nat hz \<le> t * 10 ^ 6)"
proof -
  let ?c = "ceil_div (unat m * hz_nat hz) (10 ^ 6)"
  have "?c \<le> 2 ^ 64 - 1" using assms by (simp add: ceil_div_le_iff)
  then have "unat (span_ticks (ticks_from_micros_ceil hz m)) = max 1 ?c"
    by (simp add: ceil_nat cap64_def)
  moreover have "(LEAST t. 0 < t \<and> unat m * hz_nat hz \<le> t * 10 ^ 6) = max 1 ?c"
  proof (rule Least_equality)
    show "0 < max 1 ?c \<and> unat m * hz_nat hz \<le> max 1 ?c * 10 ^ 6"
      by (simp flip: ceil_div_le_iff)
  qed (simp flip: ceil_div_le_iff)
  ultimately show ?thesis by simp
qed

theorem ticks_from_micros_ceil_least_witness:
  "unat (3 :: u64) * hz_nat (ClockHz 1500000) \<le> (2 ^ 64 - 1) * 10 ^ 6 \<and>
   unat (span_ticks (ticks_from_micros_ceil (ClockHz 1500000) 3)) =
     (LEAST t. 0 < t \<and> (4500000 :: nat) \<le> t * 10 ^ 6)"
  using ticks_from_micros_ceil_least [of 3 "ClockHz 1500000"] by simp

lemma cap64_le: "cap64 n \<le> n"
  by (simp add: cap64_def)

lemma cap64_mono: "a \<le> b \<Longrightarrow> cap64 a \<le> cap64 b"
  by (auto simp: cap64_def)

lemma cap64_add_le: "cap64 (a + b) \<le> cap64 a + b"
  by (auto simp: cap64_def)

lemma div_add_multiple: "0 < h \<Longrightarrow> a div h + m = (a + m * h) div (h :: nat)"
  by simp

lemma after_micros_floor_not_late:
  "unat (micros_at (vc_rate c) (after_micros_floor c m)) \<le> unat (clock_micros c) + unat m"
proof -
  let ?h = "hz_nat (vc_rate c)" and ?t = "unat (instant_ticks (vc_now c))"
  have "unat (instant_ticks (after_micros_floor c m)) \<le> ?t + unat m * ?h div 10 ^ 6"
    using cap64_le [of "unat m * ?h div 10 ^ 6"]
      cap64_le [of "?t + cap64 (unat m * ?h div 10 ^ 6)"]
    by (simp add: after_micros_floor_def instant_add_def floor_nat)
  then have "unat (instant_ticks (after_micros_floor c m)) * 10 ^ 6 \<le> ?t * 10 ^ 6 + unat m * ?h"
    using div_times_less_eq_dividend [of "unat m * ?h" "10 ^ 6"] by simp
  then have "unat (instant_ticks (after_micros_floor c m)) * 10 ^ 6 div ?h \<le> ?t * 10 ^ 6 div ?h + unat m"
    by (simp only: div_add_multiple hz_nat_pos div_le_mono)
  then have "cap64 (unat (instant_ticks (after_micros_floor c m)) * 10 ^ 6 div ?h) \<le>
      cap64 (?t * 10 ^ 6 div ?h) + unat m"
    using cap64_mono cap64_add_le order_trans by blast
  then show ?thesis by (simp add: micros_at_nat clock_micros_def)
qed

lemma after_micros_ticks:
  assumes "instant_ticks (after_micros c m) < u64_max"
  shows "unat (instant_ticks (after_micros c m)) = unat (instant_ticks (vc_now c)) +
    max 1 (ceil_div (unat m * hz_nat (vc_rate c)) (10 ^ 6))"
  using assms
  by (auto simp: after_micros_def instant_add_def ceil_nat word_less_nat_alt cap64_def min_def
      split: if_splits)

text \<open>
  C36. A deadline a device arms with \<^verbatim>\<open>after_micros\<close> is never early and never now: it lies strictly
  after the present tick and, when the clock reaches it, the reported microseconds have advanced
  by at least the delay. A deadline of \<^verbatim>\<open>after_micros_floor\<close> is never late: at it the reported time
  has advanced by at most the delay.
\<close>

theorem deadlines_bracket_delay:
  assumes "instant_ticks (after_micros c m) < u64_max"
    and "unat (instant_ticks (after_micros c m)) * 10 ^ 6 div hz_nat (vc_rate c) < 2 ^ 64"
  shows "instant_ticks (vc_now c) < instant_ticks (after_micros c m) \<and>
    unat (clock_micros c) + unat m \<le> unat (micros_at (vc_rate c) (after_micros c m)) \<and>
    unat (micros_at (vc_rate c) (after_micros_floor c m)) \<le> unat (clock_micros c) + unat m"
proof (intro conjI)
  let ?h = "hz_nat (vc_rate c)" and ?t = "unat (instant_ticks (vc_now c))"
  let ?k = "max 1 (ceil_div (unat m * ?h) (10 ^ 6))"
  note d = after_micros_ticks [OF assms(1)]
  show "instant_ticks (vc_now c) < instant_ticks (after_micros c m)"
    by (simp add: word_less_nat_alt d)
  have "unat m * ?h \<le> ?k * 10 ^ 6" by (simp flip: ceil_div_le_iff)
  then have "?t * 10 ^ 6 + unat m * ?h \<le> (?t + ?k) * 10 ^ 6" by (simp add: add_mult_distrib)
  then have "?t * 10 ^ 6 div ?h + unat m \<le> (?t + ?k) * 10 ^ 6 div ?h"
    by (simp only: div_add_multiple hz_nat_pos div_le_mono)
  with assms(2) show "unat (clock_micros c) + unat m \<le> unat (micros_at (vc_rate c) (after_micros c m))"
    using cap64_le [of "?t * 10 ^ 6 div ?h"] by (simp add: micros_at_nat clock_micros_def d cap64_def)
qed (rule after_micros_floor_not_late)

theorem deadlines_bracket_delay_witness:
  "after_micros \<lparr>vc_now = VmInstant 10, vc_rate = ClockHz 1500000\<rparr> 1 = VmInstant 12 \<and>
   unat (clock_micros \<lparr>vc_now = VmInstant 10, vc_rate = ClockHz 1500000\<rparr>) + 1 \<le>
     unat (micros_at (ClockHz 1500000) (VmInstant 12))"
proof -
  have "after_micros \<lparr>vc_now = VmInstant 10, vc_rate = ClockHz 1500000\<rparr> 1 = VmInstant 12"
    by (simp add: after_micros_def instant_add_def saturating_add_def ticks_from_micros_ceil_def
        div_ceil_def MICROS_PER_SECOND_def saturate_def u64_max_def)
  then show ?thesis
    using deadlines_bracket_delay [of "\<lparr>vc_now = VmInstant 10, vc_rate = ClockHz 1500000\<rparr>" 1]
    by (simp add: u64_max_def)
qed

text \<open>
  The phase the PIT carries: the remainder is below the rate, and microseconds and remainder
  together account for every tick, so nothing is lost across readings.
\<close>

theorem micros_phase_complete:
  assumes "unat (instant_ticks at) * 10 ^ 6 div hz_nat hz < 2 ^ 64"
  shows "unat (ph_micros (micros_phase_at hz at)) * hz_nat hz +
      unat (ph_remainder (micros_phase_at hz at)) = unat (instant_ticks at) * 10 ^ 6 \<and>
    unat (ph_remainder (micros_phase_at hz at)) < hz_nat hz"
  using assms
  by (simp add: micros_phase_at_def Let_def unat_div_distrib unat_mod_distrib cap64_def)

theorem micros_phase_complete_witness:
  "unat (instant_ticks (VmInstant 7)) * 10 ^ 6 div hz_nat (ClockHz 3000000) < 2 ^ 64 \<and>
   unat (ph_micros (micros_phase_at (ClockHz 3000000) (VmInstant 7))) * 3000000 +
     unat (ph_remainder (micros_phase_at (ClockHz 3000000) (VmInstant 7))) = 7000000"
  using micros_phase_complete [of "VmInstant 7" "ClockHz 3000000"] by simp

end
