(* ===== verification/Snap.thy ===== *)
theory Snap
  imports Prelude
begin

text \<open>
  The snapshot encoding of \<^verbatim>\<open>rusty_box_core/src/snap.rs\<close>: the error type, the little-endian
  scalars a writer emits (\<^verbatim>\<open>SnapWrite\<close>, here over \<^verbatim>\<open>Vec<u8>\<close>), the scalars a reader takes off
  the front of a byte slice (\<^verbatim>\<open>SnapRead\<close>, here over \<^verbatim>\<open>&[u8]\<close>), and the checked section
  lengths. The locale \<open>snap_codec\<close> states what a writer/reader pair promises; every device
  section is built from its interpretations.
\<close>

section \<open>Errors\<close>

datatype snap_error =
    Truncated
  | TrailingBytes
  | Overran u32
  | UnderRan u32
  | LengthOutOfRange
  | Invalid string
  | Host

text \<open>
  A writer is a step on the sink's contents; a reader is a step on the unread bytes. Both stop
  at the first error.
\<close>

type_synonym writer = "bytes \<Rightarrow> snap_error + bytes"
type_synonym 'a reader = "bytes \<Rightarrow> snap_error + 'a \<times> bytes"

fun write_seq :: "writer list \<Rightarrow> writer" where
  "write_seq [] w = Inr w"
| "write_seq (f # fs) w = attempt (f w) (write_seq fs)"

definition rd_return :: "'a \<Rightarrow> 'a reader" where
  "rd_return x bs = Inr (x, bs)"

definition rd_fail :: "snap_error \<Rightarrow> 'a reader" where
  "rd_fail e bs = Inl e"

definition rd_bind :: "'a reader \<Rightarrow> ('a \<Rightarrow> 'b reader) \<Rightarrow> 'b reader" where
  "rd_bind m f bs = attempt (m bs) (\<lambda>(x, rest). f x rest)"

text \<open>\<open>rd_lift\<close> runs a validation inside a reader: its error is the reader's error.\<close>

definition rd_lift :: "snap_error + 'a \<Rightarrow> 'a reader" where
  "rd_lift m bs = attempt m (\<lambda>x. Inr (x, bs))"

section \<open>Little-endian bytes\<close>

definition to_le_bytes :: "nat \<Rightarrow> 'a::len word \<Rightarrow> bytes" where
  "to_le_bytes n w = map (\<lambda>i. ucast (drop_bit (8 * i) w)) [0..<n]"

fun from_le_bytes :: "bytes \<Rightarrow> 'a::len word" where
  "from_le_bytes [] = 0"
| "from_le_bytes (b # bs) = ucast b OR push_bit 8 (from_le_bytes bs)"

section \<open>The writer\<close>

definition write_bytes :: "bytes \<Rightarrow> writer" where
  "write_bytes bs w = Inr (w @ bs)"

definition write_u8 :: "u8 \<Rightarrow> writer" where
  "write_u8 v = write_bytes [v]"

definition write_bool :: "bool \<Rightarrow> writer" where
  "write_bool v = write_u8 (if v then 1 else 0)"

definition write_u16 :: "u16 \<Rightarrow> writer" where
  "write_u16 v = write_bytes (to_le_bytes 2 v)"

definition write_u32 :: "u32 \<Rightarrow> writer" where
  "write_u32 v = write_bytes (to_le_bytes 4 v)"

definition write_u64 :: "u64 \<Rightarrow> writer" where
  "write_u64 v = write_bytes (to_le_bytes 8 v)"

text \<open>An \<^verbatim>\<open>i64\<close> is the same sixty-four bits, read as two's complement with \<^const>\<open>sint\<close>.\<close>

definition write_i64 :: "u64 \<Rightarrow> writer" where
  "write_i64 v = write_bytes (to_le_bytes 8 v)"

section \<open>The reader\<close>

definition read_bytes :: "nat \<Rightarrow> bytes reader" where
  "read_bytes n bs =
     (if n > length bs then Inl Truncated else Inr (take n bs, drop n bs))"

definition read_u8 :: "u8 reader" where
  "read_u8 = rd_bind (read_bytes 1) (\<lambda>byte. rd_return (byte ! 0))"

definition read_bool :: "bool reader" where
  "read_bool = rd_bind read_u8 (\<lambda>v.
     if v = 0 then rd_return False
     else if v = 1 then rd_return True
     else rd_fail (Invalid ''snapshot boolean is not canonical''))"

definition read_u16 :: "u16 reader" where
  "read_u16 = rd_bind (read_bytes 2) (\<lambda>bs. rd_return (from_le_bytes bs))"

definition read_u32 :: "u32 reader" where
  "read_u32 = rd_bind (read_bytes 4) (\<lambda>bs. rd_return (from_le_bytes bs))"

definition read_u64 :: "u64 reader" where
  "read_u64 = rd_bind (read_bytes 8) (\<lambda>bs. rd_return (from_le_bytes bs))"

definition read_i64 :: "u64 reader" where
  "read_i64 = rd_bind (read_bytes 8) (\<lambda>bs. rd_return (from_le_bytes bs))"

section \<open>Bounds of the format\<close>

definition MAX_SECTION_LEN :: nat where
  "MAX_SECTION_LEN = 4 * 1024 * 1024 * 1024"

definition MAX_COUNT :: nat where
  "MAX_COUNT = 2 ^ 20"

definition SECTION_VERSION :: u32 where
  "SECTION_VERSION = 1"

text \<open>
  \<^verbatim>\<open>usize\<close> is at least 32 bits wide on every target the emulator builds for, so the conversion
  of a \<^verbatim>\<open>u32\<close> count never fails; the conversion of a \<^verbatim>\<open>u64\<close> length is modelled for a 64-bit
  host, where it never fails either.
\<close>

definition read_count :: "nat \<Rightarrow> nat reader" where
  "read_count maximum = rd_bind read_u32 (\<lambda>v.
     if unat v > min maximum MAX_COUNT
     then rd_fail (Invalid ''snapshot count exceeds bound'')
     else rd_return (unat v))"

definition read_len :: "nat \<Rightarrow> nat reader" where
  "read_len maximum = rd_bind read_u64 (\<lambda>v.
     if unat v > min maximum MAX_SECTION_LEN
     then rd_fail (Invalid ''snapshot length exceeds bound'')
     else rd_return (unat v))"

text \<open>Lengths are \<^verbatim>\<open>u64\<close> values: \<^verbatim>\<open>checked_add\<close> and \<^verbatim>\<open>checked_mul\<close> refuse a result of \<open>2\<^sup>6\<^sup>4\<close> or more.\<close>

definition checked_len_add :: "u64 \<Rightarrow> u64 \<Rightarrow> u64 \<Rightarrow> snap_error + u64" where
  "checked_len_add base len bound =
     (if unat base + unat len < 2 ^ 64 \<and> base + len \<le> bound
      then Inr (base + len) else Inl LengthOutOfRange)"

definition checked_len_mul :: "u64 \<Rightarrow> u64 \<Rightarrow> u64 \<Rightarrow> snap_error + u64" where
  "checked_len_mul lhs rhs bound =
     (if unat lhs * unat rhs < 2 ^ 64 \<and> lhs * rhs \<le> bound
      then Inr (lhs * rhs) else Inl LengthOutOfRange)"

definition checked_section_len_add :: "u64 \<Rightarrow> u64 \<Rightarrow> snap_error + u64" where
  "checked_section_len_add lhs rhs = checked_len_add lhs rhs (of_nat MAX_SECTION_LEN)"

definition checked_section_len_mul :: "u64 \<Rightarrow> u64 \<Rightarrow> snap_error + u64" where
  "checked_section_len_mul lhs rhs = checked_len_mul lhs rhs (of_nat MAX_SECTION_LEN)"

text \<open>The names the machine's own snapshot code uses for the same bounds.\<close>

definition SNAPSHOT_SECTION_VERSION :: u32 where
  "SNAPSHOT_SECTION_VERSION = 1"

definition checked_snapshot_len_add :: "u64 \<Rightarrow> u64 \<Rightarrow> snap_error + u64" where
  "checked_snapshot_len_add lhs rhs = checked_len_add lhs rhs (of_nat MAX_SECTION_LEN)"

definition checked_snapshot_len_mul :: "u64 \<Rightarrow> u64 \<Rightarrow> snap_error + u64" where
  "checked_snapshot_len_mul lhs rhs = checked_len_mul lhs rhs (of_nat MAX_SECTION_LEN)"

definition MAX_SNAPSHOT_QUEUE_LEN :: nat where
  "MAX_SNAPSHOT_QUEUE_LEN = 2 ^ 16"

text \<open>A \<^verbatim>\<open>for\<close> loop that checks the elements of an array in order, stopping at the first error.\<close>

fun validate_each :: "('a \<Rightarrow> snap_error + unit) \<Rightarrow> 'a list \<Rightarrow> snap_error + unit" where
  "validate_each f [] = Inr ()"
| "validate_each f (x # xs) = attempt (f x) (\<lambda>_. validate_each f xs)"

text \<open>A \<^verbatim>\<open>for\<close> loop that writes, or fills, the elements of an array in order.\<close>

definition write_each :: "('a \<Rightarrow> writer) \<Rightarrow> 'a list \<Rightarrow> writer" where
  "write_each f xs = write_seq (map f xs)"

fun read_each :: "'a reader \<Rightarrow> nat \<Rightarrow> 'a list reader" where
  "read_each rd 0 bs = Inr ([], bs)"
| "read_each rd (Suc n) bs =
     rd_bind rd (\<lambda>x. rd_bind (read_each rd n) (\<lambda>xs. rd_return (x # xs))) bs"

section \<open>Driving readers and writers\<close>

lemma rd_return_eq [simp]: "rd_return x bs = Inr (x, bs)"
  by (simp add: rd_return_def)

lemma rd_fail_eq [simp]: "rd_fail e bs = Inl e"
  by (simp add: rd_fail_def)

lemma rd_bind_Inr [simp]: "m bs = Inr (x, rest) \<Longrightarrow> rd_bind m f bs = f x rest"
  by (simp add: rd_bind_def)

lemma rd_bind_Inl [simp]: "m bs = Inl e \<Longrightarrow> rd_bind m f bs = Inl e"
  by (simp add: rd_bind_def)

lemma rd_lift_simps [simp]:
  "rd_lift (Inr x) bs = Inr (x, bs)" "rd_lift (Inl e) bs = Inl e"
  by (simp_all add: rd_lift_def)

lemma rd_bind_iff [snap]:
  "rd_bind m f bs = Inr (y, r) \<longleftrightarrow> (\<exists>x s. m bs = Inr (x, s) \<and> f x s = Inr (y, r))"
  by (auto simp: rd_bind_def attempt_Inr_iff split: prod.splits)

lemma rd_lift_iff [snap]:
  "rd_lift m bs = Inr (y, r) \<longleftrightarrow> m = Inr y \<and> r = bs"
  by (auto simp: rd_lift_def attempt_Inr_iff)

lemma write_bytes_eq [simp]: "write_bytes bs w = Inr (w @ bs)"
  by (simp add: write_bytes_def)

section \<open>Round trip of the little-endian scalars\<close>

lemma length_to_le_bytes [simp]: "length (to_le_bytes n w) = n"
  by (simp add: to_le_bytes_def)

lemma bit_from_le_bytes:
  "bit (from_le_bytes bs :: 'a::len word) k \<longleftrightarrow>
     k < LENGTH('a) \<and> k div 8 < length bs \<and> bit (bs ! (k div 8)) (k mod 8)"
proof (induction bs arbitrary: k)
  case Nil
  then show ?case by simp
next
  case (Cons b bs)
  show ?case
  proof (cases "k < 8")
    case True
    then show ?thesis
      by (auto simp: bit_simps Cons.IH)
  next
    case False
    then obtain j where k: "k = j + 8" by (metis add.commute le_Suc_ex not_less)
    have "k div 8 = Suc (j div 8)" "k mod 8 = j mod 8" using k by simp_all
    then show ?thesis
      using k by (auto simp: bit_simps Cons.IH dest: bit_imp_le_length)
  qed
qed

lemma from_to_le_bytes [simp]:
  assumes "LENGTH('a::len) = 8 * n"
  shows "from_le_bytes (to_le_bytes n w) = (w :: 'a word)"
proof (rule bit_word_eqI)
  fix k assume "k < LENGTH('a)"
  moreover from this assms have "k div 8 < n" by (simp add: less_mult_imp_div_less mult.commute)
  ultimately show "bit (from_le_bytes (to_le_bytes n w) :: 'a word) k = bit w k"
    by (simp add: bit_from_le_bytes to_le_bytes_def bit_simps)
qed

lemma to_from_le_bytes [simp]:
  assumes "length bs = n" and "8 * n \<le> LENGTH('a::len)"
  shows "to_le_bytes n (from_le_bytes bs :: 'a word) = bs"
proof (rule nth_equalityI)
  show "length (to_le_bytes n (from_le_bytes bs :: 'a word)) = length bs"
    using assms by simp
next
  fix i assume i: "i < length (to_le_bytes n (from_le_bytes bs :: 'a word))"
  show "to_le_bytes n (from_le_bytes bs :: 'a word) ! i = bs ! i"
  proof (rule bit_word_eqI)
    fix k assume k: "k < LENGTH(8)"
    then have "(8 * i + k) div 8 = i" "(8 * i + k) mod 8 = k" by simp_all
    then show "bit (to_le_bytes n (from_le_bytes bs :: 'a word) ! i) k = bit (bs ! i) k"
      using i k assms by (simp add: to_le_bytes_def bit_simps bit_from_le_bytes)
  qed
qed

lemma validate_each_iff: "validate_each f xs = Inr () \<longleftrightarrow> (\<forall>x \<in> set xs. f x = Inr ())"
  by (induction xs) (auto simp: attempt_Inr_iff)

section \<open>The contract of a writer/reader pair\<close>

text \<open>
  \<open>enc x\<close> is what the writer appends for \<open>x\<close>, whenever \<open>x\<close> is a value the format can carry
  (\<open>ok\<close>). The reader accepts exactly those byte sequences: it gives \<open>x\<close> back with the bytes
  after it, and it accepts nothing else.
\<close>

locale snap_codec =
  fixes wr :: "'a \<Rightarrow> writer"
    and rd :: "'a reader"
    and enc :: "'a \<Rightarrow> bytes"
    and ok :: "'a \<Rightarrow> bool"
  assumes wr_enc: "ok x \<Longrightarrow> wr x w = Inr (w @ enc x)"
    and rd_enc: "ok x \<Longrightarrow> rd (enc x @ r) = Inr (x, r)"
    and rd_exact: "rd bs = Inr (x, r) \<Longrightarrow> ok x \<and> bs = enc x @ r"
begin

lemma rd_iff: "rd bs = Inr (x, r) \<longleftrightarrow> ok x \<and> bs = enc x @ r"
  using rd_enc rd_exact by blast

lemma wr_then_rd: "ok x \<Longrightarrow> wr x w = Inr (w @ bs) \<Longrightarrow> rd (bs @ r) = Inr (x, r)"
  using wr_enc rd_enc by fastforce

lemma enc_prefix_free:
  assumes "ok x" "ok y" "enc x @ r = enc y @ s"
  shows "x = y \<and> r = s"
proof -
  have "Inr (x, r) = rd (enc x @ r)" using assms(1) by (simp add: rd_enc)
  also have "\<dots> = Inr (y, s)" using assms(2,3) by (simp add: rd_enc)
  finally show ?thesis by simp
qed

lemma enc_truncated:
  assumes "ok x" "n < length (enc x)"
  shows "\<exists>e. rd (take n (enc x)) = Inl e"
proof (cases "rd (take n (enc x))")
  case (Inr p)
  obtain y r where p: "p = (y, r)" by (cases p)
  with Inr have y: "ok y" and t: "take n (enc x) = enc y @ r" by (auto simp: rd_iff)
  have "enc x @ [] = enc y @ (r @ drop n (enc x))"
    by (metis append.assoc append_Nil2 append_take_drop_id t)
  from enc_prefix_free [OF assms(1) y this] have "drop n (enc x) = []"
    by (metis append_is_Nil_conv)
  with assms(2) have False by simp
  then show ?thesis ..
qed simp

lemma write_each_enc:
  "\<forall>x \<in> set xs. ok x \<Longrightarrow> write_each wr xs w = Inr (w @ concat (map enc xs))"
  by (induction xs arbitrary: w) (auto simp: write_each_def wr_enc)

lemma read_each_enc:
  "length xs = n \<Longrightarrow> \<forall>x \<in> set xs. ok x \<Longrightarrow>
     read_each rd n (concat (map enc xs) @ r) = Inr (xs, r)"
  by (induction xs arbitrary: n) (auto simp: rd_enc)

lemma read_each_exact:
  "read_each rd n bs = Inr (xs, r) \<Longrightarrow>
     length xs = n \<and> (\<forall>x \<in> set xs. ok x) \<and> bs = concat (map enc xs) @ r"
proof (induction n arbitrary: bs xs r)
  case 0
  then show ?case by simp
next
  case (Suc n)
  then obtain x ys s where "rd bs = Inr (x, s)" and ys: "read_each rd n s = Inr (ys, r)"
    and xs: "xs = x # ys"
    by (auto simp: rd_bind_iff)
  then show ?case using Suc.IH [OF ys] by (auto simp: rd_iff)
qed

lemma read_each_iff:
  "read_each rd n bs = Inr (xs, r) \<longleftrightarrow>
     length xs = n \<and> (\<forall>x \<in> set xs. ok x) \<and> bs = concat (map enc xs) @ r"
  using read_each_enc read_each_exact by blast

end

section \<open>The scalars keep the contract\<close>

definition enc_bool :: "bool \<Rightarrow> bytes" where
  "enc_bool v = [if v then 1 else 0]"

lemma read_bytes_iff [snap]:
  "read_bytes n bs = Inr (x, r) \<longleftrightarrow> length x = n \<and> bs = x @ r"
  by (auto simp: read_bytes_def)

lemma read_bytes_append [simp]: "length x = n \<Longrightarrow> read_bytes n (x @ r) = Inr (x, r)"
  by (simp add: read_bytes_iff)

interpretation u8c: snap_codec write_u8 read_u8 "\<lambda>v. [v]" "\<lambda>_. True"
  by unfold_locales
    (auto simp: write_u8_def read_u8_def snap length_Suc_conv intro: exI [of _ "[x]" for x])

interpretation boolc: snap_codec write_bool read_bool enc_bool "\<lambda>_. True"
  by unfold_locales
    (auto simp: write_bool_def read_bool_def enc_bool_def u8c.wr_enc u8c.rd_iff snap
          split: if_splits)

interpretation u16c: snap_codec write_u16 read_u16 "to_le_bytes 2" "\<lambda>_. True"
  by unfold_locales (auto simp: write_u16_def read_u16_def snap)

interpretation u32c: snap_codec write_u32 read_u32 "to_le_bytes 4" "\<lambda>_. True"
  by unfold_locales (auto simp: write_u32_def read_u32_def snap)

interpretation u64c: snap_codec write_u64 read_u64 "to_le_bytes 8" "\<lambda>_. True"
  by unfold_locales (auto simp: write_u64_def read_u64_def snap)

interpretation i64c: snap_codec write_i64 read_i64 "to_le_bytes 8" "\<lambda>_. True"
  by unfold_locales (auto simp: write_i64_def read_i64_def snap)

lemmas scalar_wr [simp] =
  u8c.wr_enc [OF TrueI] boolc.wr_enc [OF TrueI] u16c.wr_enc [OF TrueI]
  u32c.wr_enc [OF TrueI] u64c.wr_enc [OF TrueI] i64c.wr_enc [OF TrueI]

lemmas scalar_rd [simp] =
  u8c.rd_enc [OF TrueI, simplified] boolc.rd_enc [OF TrueI] u16c.rd_enc [OF TrueI]
  u32c.rd_enc [OF TrueI] u64c.rd_enc [OF TrueI] i64c.rd_enc [OF TrueI]

lemmas scalar_iff [snap] =
  u8c.rd_iff boolc.rd_iff u16c.rd_iff u32c.rd_iff u64c.rd_iff i64c.rd_iff

lemma read_count_iff [snap]:
  "read_count m bs = Inr (n, r) \<longleftrightarrow>
     n \<le> min m MAX_COUNT \<and> n < 2 ^ 32 \<and> bs = to_le_bytes 4 (of_nat n :: u32) @ r"
  (is "?L \<longleftrightarrow> ?R")
proof
  assume ?L
  then obtain v s where v: "read_u32 bs = Inr (v, s)"
    and "(if unat v > min m MAX_COUNT then rd_fail (Invalid ''snapshot count exceeds bound'')
          else rd_return (unat v)) s = Inr (n, r)"
    unfolding read_count_def rd_bind_iff by blast
  then have "unat v \<le> min m MAX_COUNT" "n = unat v" "bs = to_le_bytes 4 v @ r"
    by (auto simp: u32c.rd_iff split: if_splits)
  moreover have "unat v < 2 ^ 32" using unat_bound [of v] by simp
  ultimately show ?R by simp
next
  assume ?R
  then show ?L by (auto simp: read_count_def unat_of_nat_small)
qed

lemma read_count_simp [simp]:
  "n \<le> m \<Longrightarrow> n \<le> MAX_COUNT \<Longrightarrow> read_count m (to_le_bytes 4 (of_nat n :: u32) @ r) = Inr (n, r)"
  by (subst read_count_iff) (simp add: MAX_COUNT_def)

lemma read_len_iff [snap]:
  "read_len m bs = Inr (n, r) \<longleftrightarrow>
     n \<le> min m MAX_SECTION_LEN \<and> bs = to_le_bytes 8 (of_nat n :: u64) @ r"
  (is "?L \<longleftrightarrow> ?R")
proof
  assume ?L
  then show ?R by (auto simp: read_len_def snap split: if_splits)
next
  assume ?R
  then show ?L by (auto simp: read_len_def unat_of_nat_small MAX_SECTION_LEN_def)
qed

section \<open>Section lengths are exact\<close>

lemma checked_len_add_iff:
  "checked_len_add a b bound = Inr t \<longleftrightarrow> unat t = unat a + unat b \<and> t \<le> bound"
  using unat_bound [of t]
  by (auto simp: checked_len_add_def unat_word_ariths word_le_nat_alt
      intro: word_unat_eqI)

lemma checked_len_mul_iff:
  "checked_len_mul a b bound = Inr t \<longleftrightarrow> unat t = unat a * unat b \<and> t \<le> bound"
  using unat_bound [of t]
  by (auto simp: checked_len_mul_def unat_word_ariths word_le_nat_alt
      intro: word_unat_eqI)

section \<open>Properties\<close>

text \<open>
  For every scalar of the format, the reader accepts exactly what the writer emits: it gives
  the value back with the bytes after it, and it accepts no other bytes. In particular a
  boolean byte other than 0 and 1, and every truncated scalar, is refused.
\<close>

theorem scalars_canonical:
  "(read_u8 bs = Inr (b, r) \<longleftrightarrow> (\<exists>e. write_u8 b [] = Inr e \<and> bs = e @ r)) \<and>
   (read_bool bs = Inr (t, r) \<longleftrightarrow> (\<exists>e. write_bool t [] = Inr e \<and> bs = e @ r)) \<and>
   (read_u16 bs = Inr (h, r) \<longleftrightarrow> (\<exists>e. write_u16 h [] = Inr e \<and> bs = e @ r)) \<and>
   (read_u32 bs = Inr (d, r) \<longleftrightarrow> (\<exists>e. write_u32 d [] = Inr e \<and> bs = e @ r)) \<and>
   (read_u64 bs = Inr (q, r) \<longleftrightarrow> (\<exists>e. write_u64 q [] = Inr e \<and> bs = e @ r)) \<and>
   (read_i64 bs = Inr (q, r) \<longleftrightarrow> (\<exists>e. write_i64 q [] = Inr e \<and> bs = e @ r))"
  by (simp add: scalar_iff)

text \<open>
  Section lengths never wrap and never pass the implementation bound: an addition or a
  multiplication of lengths succeeds exactly when the exact result is at most
  \<^verbatim>\<open>MAX_SECTION_LEN\<close>, and then it is the exact result; a count or length read from a stream is
  within both its caller's and the format's bound.
\<close>

theorem section_lengths_exact:
  "(checked_section_len_add a b = Inr t \<longleftrightarrow>
      unat t = unat a + unat b \<and> unat a + unat b \<le> MAX_SECTION_LEN) \<and>
   (checked_section_len_mul a b = Inr t \<longleftrightarrow>
      unat t = unat a * unat b \<and> unat a * unat b \<le> MAX_SECTION_LEN) \<and>
   (read_count m bs = Inr (n, r) \<longleftrightarrow>
      n \<le> m \<and> n \<le> MAX_COUNT \<and> write_u32 (of_nat n) [] = Inr (take 4 bs) \<and> bs = take 4 bs @ r) \<and>
   (read_len m bs = Inr (n, r) \<longleftrightarrow>
      n \<le> m \<and> n \<le> MAX_SECTION_LEN \<and> write_u64 (of_nat n) [] = Inr (take 8 bs) \<and>
      bs = take 8 bs @ r)"
proof -
  have bound: "t \<le> of_nat MAX_SECTION_LEN \<longleftrightarrow> unat t \<le> MAX_SECTION_LEN" for t :: u64
    by (simp add: word_le_nat_alt unat_of_nat_small MAX_SECTION_LEN_def)
  have "n \<le> MAX_COUNT \<Longrightarrow> n < 2 ^ 32" by (simp add: MAX_COUNT_def)
  then show ?thesis
    by (auto simp: checked_section_len_add_def checked_section_len_mul_def checked_len_add_iff
        checked_len_mul_iff bound read_count_iff read_len_iff)
qed

end
