(* ===== verification/Pic.thy ===== *)
theory Pic
  imports Snap
begin

text \<open>
  The pair of 8259A interrupt controllers of \<^verbatim>\<open>rusty_box/src/pic.rs\<close>. A chip is the record
  \<open>pic_chip\<close> (\<^verbatim>\<open>Pic8259State\<close>); the cascaded pair is \<open>pic\<close> (\<^verbatim>\<open>BxPicC\<close>). Every port handler,
  the two line operations, the cascade and the acknowledge cycle are definitions on that
  state; logging is left out. The scanning loops of the source run over the eight lines in
  priority order; they carry a fuel of 8, and the lemmas show that a larger fuel never changes
  the result, because the scan comes back to where it started after eight steps.
\<close>

section \<open>State\<close>

datatype ioapic_edge = NotCrossed | Crossed

datatype service_action = NoAction | RaiseIntr | ClearIntr | RaiseCascade | LowerCascade

record pic_init =
  i_in_init :: bool
  i_requires_4 :: bool
  i_byte_expected :: u8

record pic_chip =
  c_master :: bool
  c_interrupt_offset :: u8
  c_sfnm :: bool
  c_buffered_mode :: bool
  c_master_slave :: bool
  c_auto_eoi :: bool
  c_imr :: u8
  c_isr :: u8
  c_irr :: u8
  c_read_reg_select :: bool
  c_irq :: u8
  c_lowest_priority :: u8
  c_int_pin :: bool
  c_irq_in :: "u8 list"
  c_init :: pic_init
  c_special_mask :: bool
  c_polled :: bool
  c_rotate_on_autoeoi :: bool
  c_edge_level :: u8

definition pic_init_default :: pic_init where
  "pic_init_default = \<lparr>i_in_init = False, i_requires_4 = False, i_byte_expected = 0\<rparr>"

definition chip_default :: pic_chip where
  "chip_default =
     \<lparr>c_master = False, c_interrupt_offset = 0, c_sfnm = False, c_buffered_mode = False,
      c_master_slave = False, c_auto_eoi = False, c_imr = 0xFF, c_isr = 0, c_irr = 0,
      c_read_reg_select = False, c_irq = 0, c_lowest_priority = 7, c_int_pin = False,
      c_irq_in = replicate 8 0, c_init = pic_init_default, c_special_mask = False,
      c_polled = False, c_rotate_on_autoeoi = False, c_edge_level = 0\<rparr>"

section \<open>One chip\<close>

abbreviation line_mask :: "u8 \<Rightarrow> u8" where
  "line_mask irq \<equiv> bitm (unat irq)"

text \<open>\<^verbatim>\<open>irq += 1; if irq > 7 { irq = 0; }\<close>\<close>

definition next_irq :: "u8 \<Rightarrow> u8" where
  "next_irq irq = (if irq + 1 > 7 then 0 else irq + 1)"

fun clear_loop :: "nat \<Rightarrow> u8 \<Rightarrow> u8 \<Rightarrow> u8 \<Rightarrow> u8" where
  "clear_loop 0 highest_priority irq isr = isr"
| "clear_loop (Suc n) highest_priority irq isr =
     (if isr AND line_mask irq \<noteq> 0 then isr AND NOT (line_mask irq)
      else if next_irq irq = highest_priority then isr
      else clear_loop n highest_priority (next_irq irq) isr)"

definition clear_highest_interrupt :: "pic_chip \<Rightarrow> pic_chip" where
  "clear_highest_interrupt c =
     (let highest_priority = next_irq (c_lowest_priority c)
      in c\<lparr>c_isr := clear_loop 8 highest_priority highest_priority (c_isr c)\<rparr>)"

text \<open>The \<^verbatim>\<open>while\<close> loop that looks for the first line in service.\<close>

fun max_irq_loop :: "nat \<Rightarrow> u8 \<Rightarrow> u8 \<Rightarrow> u8" where
  "max_irq_loop 0 isr max_irq = max_irq"
| "max_irq_loop (Suc n) isr max_irq =
     (if isr AND line_mask max_irq = 0 then max_irq_loop n isr (next_irq max_irq) else max_irq)"

text \<open>The scan for a request to signal; \<^const>\<open>None\<close> when the loop ends at \<^verbatim>\<open>max_irq\<close>.\<close>

fun request_loop :: "nat \<Rightarrow> pic_chip \<Rightarrow> u8 \<Rightarrow> u8 \<Rightarrow> u8 \<Rightarrow> u8 option" where
  "request_loop 0 c unmasked_requests max_irq irq = None"
| "request_loop (Suc n) c unmasked_requests max_irq irq =
     (if \<not> (c_special_mask c \<and> drop_bit (unat irq) (c_isr c) AND 1 \<noteq> 0) \<and>
         \<not> c_int_pin c \<and> unmasked_requests AND line_mask irq \<noteq> 0
      then Some irq
      else if next_irq irq = max_irq then None
      else request_loop n c unmasked_requests max_irq (next_irq irq))"

definition service :: "pic_chip \<Rightarrow> pic_chip \<times> service_action" where
  "service c =
     (let highest_priority = next_irq (c_lowest_priority c);
          blocking = \<not> c_special_mask c \<and> c_isr c \<noteq> 0;
          max_irq = (if blocking then max_irq_loop 8 (c_isr c) highest_priority
                     else highest_priority);
          unmasked_requests = c_irr c AND NOT (c_imr c)
      in if blocking \<and> max_irq = highest_priority then (c, NoAction)
         else if unmasked_requests \<noteq> 0
         then (case request_loop 8 c unmasked_requests max_irq highest_priority of
                 Some irq \<Rightarrow>
                   (c\<lparr>c_int_pin := True, c_irq := irq\<rparr>,
                    if c_master c then RaiseIntr else RaiseCascade)
               | None \<Rightarrow> (c, NoAction))
         else if c_int_pin c
         then (c\<lparr>c_int_pin := False\<rparr>, if c_master c then ClearIntr else LowerCascade)
         else (c, NoAction))"

section \<open>The pair\<close>

record pic =
  p_master :: pic_chip
  p_slave :: pic_chip
  p_irq_pending :: bool
  p_irq_cleared :: bool

definition PIC_MASTER_CMD :: u16 where "PIC_MASTER_CMD = 0x20"
definition PIC_MASTER_DATA :: u16 where "PIC_MASTER_DATA = 0x21"
definition PIC_SLAVE_CMD :: u16 where "PIC_SLAVE_CMD = 0xA0"
definition PIC_SLAVE_DATA :: u16 where "PIC_SLAVE_DATA = 0xA1"

lemmas pic_ports = PIC_MASTER_CMD_def PIC_MASTER_DATA_def PIC_SLAVE_CMD_def PIC_SLAVE_DATA_def

definition pic_new :: pic where
  "pic_new =
     \<lparr>p_master = chip_default\<lparr>c_master := True, c_interrupt_offset := 0x08, c_master_slave := True\<rparr>,
      p_slave = chip_default\<lparr>c_master := False, c_interrupt_offset := 0x70, c_master_slave := False\<rparr>,
      p_irq_pending = False, p_irq_cleared = False\<rparr>"

definition raise_intr :: "pic \<Rightarrow> pic" where
  "raise_intr p = p\<lparr>p_irq_pending := True\<rparr>"

definition clear_intr :: "pic \<Rightarrow> pic" where
  "clear_intr p = p\<lparr>p_irq_cleared := True\<rparr>"

definition pic_reset :: "pic \<Rightarrow> pic" where
  "pic_reset p = p
     \<lparr>p_master := (p_master p)
        \<lparr>c_master := True, c_interrupt_offset := 0x08, c_sfnm := False, c_buffered_mode := False,
         c_master_slave := True, c_auto_eoi := False, c_imr := 0xFF, c_isr := 0, c_irr := 0,
         c_read_reg_select := False, c_irq := 0, c_int_pin := False,
         c_init := pic_init_default, c_special_mask := False, c_lowest_priority := 7,
         c_polled := False, c_rotate_on_autoeoi := False, c_edge_level := 0,
         c_irq_in := replicate 8 0\<rparr>,
      p_slave := (p_slave p)
        \<lparr>c_master := False, c_interrupt_offset := 0x70, c_sfnm := False, c_buffered_mode := False,
         c_master_slave := False, c_auto_eoi := False, c_imr := 0xFF, c_isr := 0, c_irr := 0,
         c_read_reg_select := False, c_irq := 0, c_int_pin := False,
         c_init := pic_init_default, c_special_mask := False, c_lowest_priority := 7,
         c_polled := False, c_rotate_on_autoeoi := False, c_edge_level := 0,
         c_irq_in := replicate 8 0\<rparr>\<rparr>"

definition chip_of :: "bool \<Rightarrow> pic \<Rightarrow> pic_chip" where
  "chip_of is_master p = (if is_master then p_master p else p_slave p)"

definition on_chip :: "bool \<Rightarrow> (pic_chip \<Rightarrow> pic_chip) \<Rightarrow> pic \<Rightarrow> pic" where
  "on_chip is_master f p =
     (if is_master then p\<lparr>p_master := f (p_master p)\<rparr> else p\<lparr>p_slave := f (p_slave p)\<rparr>)"

subsection \<open>Lines and the cascade\<close>

definition lower_irq :: "u8 \<Rightarrow> pic \<Rightarrow> ioapic_edge \<times> pic" where
  "lower_irq irq_no p =
     (if irq_no < 8 then
        if c_irq_in (p_master p) ! unat irq_no \<noteq> 0 then
          (if irq_no \<noteq> 2 then Crossed else NotCrossed,
           on_chip True (\<lambda>c. c\<lparr>c_irq_in := (c_irq_in c)[unat irq_no := 0],
             c_irr := c_irr c AND NOT (line_mask irq_no)\<rparr>) p)
        else (NotCrossed, p)
      else if irq_no < 16 then
        let slave_irq = irq_no - 8 in
        if c_irq_in (p_slave p) ! unat slave_irq \<noteq> 0 then
          (Crossed,
           on_chip False (\<lambda>c. c\<lparr>c_irq_in := (c_irq_in c)[unat slave_irq := 0],
             c_irr := c_irr c AND NOT (line_mask slave_irq)\<rparr>) p)
        else (NotCrossed, p)
      else (NotCrossed, p))"

definition assert_line :: "u8 \<Rightarrow> pic_chip \<Rightarrow> pic_chip" where
  "assert_line n c = c\<lparr>c_irq_in := (c_irq_in c)[unat n := 1]\<rparr>"

definition request_line :: "u8 \<Rightarrow> pic_chip \<Rightarrow> pic_chip" where
  "request_line n c = c\<lparr>c_irr := c_irr c OR line_mask n\<rparr>"

text \<open>
  \<^verbatim>\<open>raise_irq\<close>, \<^verbatim>\<open>service_pic_dispatch\<close>, \<^verbatim>\<open>set_cascade_line\<close> and \<^verbatim>\<open>set_irq_level\<close> call one another:
  servicing the slave drives line 2 of the master, which services the master.
\<close>

function raise_irq :: "u8 \<Rightarrow> pic \<Rightarrow> ioapic_edge \<times> pic"
  and service_pic_dispatch :: "bool \<Rightarrow> pic \<Rightarrow> pic"
  and set_cascade_line :: "bool \<Rightarrow> pic \<Rightarrow> pic"
  and set_irq_level :: "u8 \<Rightarrow> bool \<Rightarrow> pic \<Rightarrow> ioapic_edge \<times> pic"
where
  "raise_irq irq_no p =
     (if irq_no < 8 then
        let p1 = on_chip True (assert_line irq_no) p in
        if c_irr (p_master p1) AND line_mask irq_no = 0 then
          let p2 = service_pic_dispatch True (on_chip True (request_line irq_no) p1)
          in (if irq_no \<noteq> 2 then Crossed else NotCrossed, p2)
        else (NotCrossed, p1)
      else if irq_no < 16 then
        let slave_irq = irq_no - 8; p1 = on_chip False (assert_line slave_irq) p in
        if c_irr (p_slave p1) AND line_mask slave_irq = 0 then
          (Crossed, service_pic_dispatch False (on_chip False (request_line slave_irq) p1))
        else (NotCrossed, p1)
      else (NotCrossed, p))"
| "service_pic_dispatch is_master p =
     (if is_master then
        (case service (p_master p) of (m, action) \<Rightarrow>
          let p1 = p\<lparr>p_master := m\<rparr> in
          case action of
            RaiseIntr \<Rightarrow> raise_intr p1
          | ClearIntr \<Rightarrow> clear_intr p1
          | _ \<Rightarrow> p1)
      else
        (case service (p_slave p) of (s, action) \<Rightarrow>
          let p1 = p\<lparr>p_slave := s\<rparr> in
          case action of
            RaiseCascade \<Rightarrow> set_cascade_line True p1
          | LowerCascade \<Rightarrow> set_cascade_line False p1
          | _ \<Rightarrow> p1))"
| "set_cascade_line level p = snd (set_irq_level 2 level p)"
| "set_irq_level irq_no level p =
     (if level then raise_irq irq_no p else lower_irq irq_no p)"
  by pat_completeness auto
termination
  by (relation "measure (\<lambda>x. case x of
        Inl (Inl (irq, _)) \<Rightarrow> if irq < 8 then 1 else 5
      | Inl (Inr (m, _)) \<Rightarrow> if m then 0 else 4
      | Inr (Inl _) \<Rightarrow> 3
      | Inr (Inr (irq, _, _)) \<Rightarrow> if irq < 8 then 2 else 6)") auto

declare raise_irq.simps [simp del] service_pic_dispatch.simps [simp del]
  set_cascade_line.simps [simp del] set_irq_level.simps [simp del]

definition irq_line_level :: "u8 \<Rightarrow> pic \<Rightarrow> bool" where
  "irq_line_level irq_no p =
     (if irq_no < 8 then c_irq_in (p_master p) ! unat irq_no \<noteq> 0
      else if irq_no < 16 then c_irq_in (p_slave p) ! unat (irq_no - 8) \<noteq> 0
      else False)"

definition set_mode :: "bool \<Rightarrow> u8 \<Rightarrow> pic \<Rightarrow> pic" where
  "set_mode is_master mode = on_chip is_master (\<lambda>c. c\<lparr>c_edge_level := mode\<rparr>)"

definition has_interrupt :: "pic \<Rightarrow> bool" where
  "has_interrupt p = c_int_pin (p_master p)"

definition reconcile_deasserted_intr :: "pic \<Rightarrow> pic" where
  "reconcile_deasserted_intr p = p\<lparr>p_irq_pending := False, p_irq_cleared := False\<rparr>"

subsection \<open>The acknowledge cycle\<close>

text \<open>What \<^verbatim>\<open>iac\<close> does to a chip whose winning line is taken.\<close>

definition take_irr :: "pic_chip \<Rightarrow> pic_chip" where
  "take_irr c =
     (if c_edge_level c AND line_mask (c_irq c) = 0
      then c\<lparr>c_irr := c_irr c AND NOT (line_mask (c_irq c))\<rparr> else c)"

definition take_isr :: "pic_chip \<Rightarrow> pic_chip" where
  "take_isr c =
     (if \<not> c_auto_eoi c then c\<lparr>c_isr := c_isr c OR line_mask (c_irq c)\<rparr>
      else if c_rotate_on_autoeoi c then c\<lparr>c_lowest_priority := c_irq c\<rparr>
      else c)"

definition iac :: "pic \<Rightarrow> u8 \<times> pic" where
  "iac p =
     (let p1 = on_chip True (\<lambda>c. c\<lparr>c_int_pin := False\<rparr>) (clear_intr p) in
      if c_irr (p_master p1) AND NOT (c_imr (p_master p1)) = 0
      then (c_interrupt_offset (p_master p1) + 7, p1)
      else
        let p2 = on_chip True (take_isr \<circ> take_irr) p1 in
        if c_irq (p_master p2) \<noteq> 2
        then (c_irq (p_master p2) + c_interrupt_offset (p_master p2), service_pic_dispatch True p2)
        else
          let p3 = on_chip False (\<lambda>c. c\<lparr>c_int_pin := False\<rparr>) p2;
              p4 = on_chip True (\<lambda>c. c\<lparr>c_irq_in := (c_irq_in c)[2 := 0]\<rparr>) p3 in
          if c_irr (p_slave p4) AND NOT (c_imr (p_slave p4)) = 0
          then (c_interrupt_offset (p_slave p4) + 7, p4)
          else
            let vector = c_irq (p_slave p4) + c_interrupt_offset (p_slave p4);
                p5 = on_chip False (take_isr \<circ> take_irr) p4
            in (vector, service_pic_dispatch True (service_pic_dispatch False p5)))"

subsection \<open>Port reads\<close>

definition poll_answer :: "u8 \<Rightarrow> pic_chip \<Rightarrow> u32" where
  "poll_answer io_len c =
     (let irq = ucast (c_irq c) in if io_len = 1 then irq else push_bit 8 irq OR irq)"

definition pic_read :: "u16 \<Rightarrow> u8 \<Rightarrow> pic \<Rightarrow> u32 \<times> pic" where
  "pic_read port io_len p =
     (if (port = PIC_MASTER_CMD \<or> port = PIC_MASTER_DATA) \<and> c_polled (p_master p) then
        let p1 = service_pic_dispatch True
                   (on_chip True (\<lambda>c. (clear_highest_interrupt c)\<lparr>c_polled := False\<rparr>) p)
        in (poll_answer io_len (p_master p1), p1)
      else if (port = PIC_SLAVE_CMD \<or> port = PIC_SLAVE_DATA) \<and> c_polled (p_slave p) then
        let p1 = service_pic_dispatch False
                   (on_chip False (\<lambda>c. (clear_highest_interrupt c)\<lparr>c_polled := False\<rparr>) p)
        in (poll_answer io_len (p_slave p1), p1)
      else if port = PIC_MASTER_CMD then
        (ucast (if c_read_reg_select (p_master p) then c_isr (p_master p) else c_irr (p_master p)), p)
      else if port = PIC_MASTER_DATA then (ucast (c_imr (p_master p)), p)
      else if port = PIC_SLAVE_CMD then
        (ucast (if c_read_reg_select (p_slave p) then c_isr (p_slave p) else c_irr (p_slave p)), p)
      else if port = PIC_SLAVE_DATA then (ucast (c_imr (p_slave p)), p)
      else (0xFF, p))"

subsection \<open>Port writes\<close>

definition write_ocw2 :: "u8 \<Rightarrow> bool \<Rightarrow> pic \<Rightarrow> pic" where
  "write_ocw2 value is_master p =
     (if value = 0x00 \<or> value = 0x80 then
        on_chip is_master (\<lambda>c. c\<lparr>c_rotate_on_autoeoi := (value \<noteq> 0)\<rparr>) p
      else if value = 0x20 \<or> value = 0xA0 then
        service_pic_dispatch is_master
          (on_chip is_master (\<lambda>c.
             let c1 = clear_highest_interrupt c in
             if value = 0xA0
             then c1\<lparr>c_lowest_priority := next_irq (c_lowest_priority c1)\<rparr> else c1) p)
      else if value = 0x40 \<or> value = 0x02 then p
      else if 0x60 \<le> value \<and> value \<le> 0x67 then
        service_pic_dispatch is_master
          (on_chip is_master (\<lambda>c.
             c\<lparr>c_isr := c_isr c AND NOT (line_mask (value - 0x60))\<rparr>) p)
      else if 0xC0 \<le> value \<and> value \<le> 0xC7 then
        on_chip is_master (\<lambda>c. c\<lparr>c_lowest_priority := value - 0xC0\<rparr>) p
      else if 0xE0 \<le> value \<and> value \<le> 0xE7 then
        service_pic_dispatch is_master
          (on_chip is_master (\<lambda>c.
             c\<lparr>c_isr := c_isr c AND NOT (line_mask (value - 0xE0)),
               c_lowest_priority := value - 0xE0\<rparr>) p)
      else p)"

definition write_icw1 :: "u8 \<Rightarrow> bool \<Rightarrow> pic \<Rightarrow> pic" where
  "write_icw1 value is_master p =
     (let p1 = on_chip is_master (\<lambda>c.
            c\<lparr>c_init := \<lparr>i_in_init = True, i_requires_4 = (value AND 0x01 \<noteq> 0), i_byte_expected = 2\<rparr>,
              c_imr := 0, c_isr := 0, c_irr := 0, c_lowest_priority := 7, c_auto_eoi := False,
              c_rotate_on_autoeoi := False, c_int_pin := False\<rparr>) p
      in if is_master then clear_intr p1
         else on_chip True (\<lambda>c. c\<lparr>c_irq_in := (c_irq_in c)[2 := 0]\<rparr>) p1)"

definition write_ocw3 :: "u8 \<Rightarrow> bool \<Rightarrow> pic \<Rightarrow> pic" where
  "write_ocw3 value is_master p =
     (let special_mask = drop_bit 5 (value AND 0x60);
          poll = drop_bit 2 (value AND 0x04);
          read_op = value AND 0x03
      in if poll \<noteq> 0 then on_chip is_master (\<lambda>c. c\<lparr>c_polled := True\<rparr>) p
         else
           let p1 = on_chip is_master (\<lambda>c.
                  let c1 = (if read_op = 2 then c\<lparr>c_read_reg_select := False\<rparr>
                            else if read_op = 3 then c\<lparr>c_read_reg_select := True\<rparr> else c)
                  in if special_mask = 2 then c1\<lparr>c_special_mask := False\<rparr>
                     else if special_mask = 3 then c1\<lparr>c_special_mask := True\<rparr> else c1) p
           in if special_mask = 3 then service_pic_dispatch is_master p1 else p1)"

definition write_cmd :: "u8 \<Rightarrow> bool \<Rightarrow> pic \<Rightarrow> pic" where
  "write_cmd value is_master p =
     (if value AND 0x10 \<noteq> 0 then write_icw1 value is_master p
      else if value AND 0x18 = 0x08 then write_ocw3 value is_master p
      else write_ocw2 value is_master p)"

definition write_icw :: "u8 \<Rightarrow> bool \<Rightarrow> pic \<Rightarrow> pic" where
  "write_icw value is_master = on_chip is_master (\<lambda>c.
     let i = c_init c in
     if i_byte_expected i = 2 then
       c\<lparr>c_interrupt_offset := value AND 0xF8, c_init := i\<lparr>i_byte_expected := 3\<rparr>\<rparr>
     else if i_byte_expected i = 3 then
       if i_requires_4 i then c\<lparr>c_init := i\<lparr>i_byte_expected := 4\<rparr>\<rparr>
       else c\<lparr>c_init := i\<lparr>i_in_init := False\<rparr>\<rparr>
     else if i_byte_expected i = 4 then
       c\<lparr>c_auto_eoi := (value AND 0x02 \<noteq> 0), c_buffered_mode := (value AND 0x04 \<noteq> 0),
         c_master_slave := (value AND 0x08 \<noteq> 0), c_sfnm := (value AND 0x10 \<noteq> 0),
         c_init := i\<lparr>i_in_init := False\<rparr>\<rparr>
     else c)"

definition write_data :: "u8 \<Rightarrow> bool \<Rightarrow> pic \<Rightarrow> pic" where
  "write_data value is_master p =
     (if i_in_init (c_init (chip_of is_master p)) then write_icw value is_master p
      else service_pic_dispatch is_master (on_chip is_master (\<lambda>c. c\<lparr>c_imr := value\<rparr>) p))"

definition pic_write :: "u16 \<Rightarrow> u32 \<Rightarrow> pic \<Rightarrow> pic" where
  "pic_write port value32 p =
     (let value = ucast value32 in
      if port = PIC_MASTER_CMD then write_cmd value True p
      else if port = PIC_MASTER_DATA then write_data value True p
      else if port = PIC_SLAVE_CMD then write_cmd value False p
      else if port = PIC_SLAVE_DATA then write_data value False p
      else p)"

section \<open>Snapshot\<close>

definition PIC_IOAPIC_FORWARD_CAPACITY :: nat where
  "PIC_IOAPIC_FORWARD_CAPACITY = 256"

text \<open>\<^verbatim>\<open>DeferredIoApicEdges\<close>, as the slice it exposes: the pins and levels in order.\<close>

type_synonym deferred_edges = "(u8 \<times> bool) list"

definition pic_snapshot_len :: "snap_error + u64" where
  "pic_snapshot_len = checked_snapshot_len_add (4 + 2 * 28 + 2) 4"

definition chip_save :: "pic_chip \<Rightarrow> writer" where
  "chip_save c = write_seq
     [write_bool (c_master c), write_u8 (c_interrupt_offset c), write_bool (c_sfnm c),
      write_bool (c_buffered_mode c), write_bool (c_master_slave c), write_bool (c_auto_eoi c),
      write_u8 (c_imr c), write_u8 (c_isr c), write_u8 (c_irr c),
      write_bool (c_read_reg_select c), write_u8 (c_irq c), write_u8 (c_lowest_priority c),
      write_bool (c_int_pin c), write_bytes (c_irq_in c), write_bool (i_in_init (c_init c)),
      write_bool (i_requires_4 (c_init c)), write_u8 (i_byte_expected (c_init c)),
      write_bool (c_special_mask c), write_bool (c_polled c), write_bool (c_rotate_on_autoeoi c),
      write_u8 (c_edge_level c)]"

definition pic_save :: "pic \<Rightarrow> writer" where
  "pic_save p w = attempt pic_snapshot_len (\<lambda>_. write_seq
     [write_u32 SNAPSHOT_SECTION_VERSION, chip_save (p_master p), chip_save (p_slave p),
      write_bool (p_irq_pending p), write_bool (p_irq_cleared p), write_u32 0] w)"

definition init_phase_valid :: "pic_init \<Rightarrow> bool" where
  "init_phase_valid i =
     (if i_in_init i
      then i_byte_expected i = 2 \<or> i_byte_expected i = 3 \<or>
        (i_byte_expected i = 4 \<and> i_requires_4 i)
      else i_byte_expected i = 0 \<or> i_byte_expected i = 3 \<or> i_byte_expected i = 4)"

definition chip_restore :: "bool \<Rightarrow> pic_chip reader" where
  "chip_restore is_first =
     rd_bind read_bool (\<lambda>master.
     if master \<noteq> is_first then rd_fail (Invalid ''PIC chip topology does not match'') else
     rd_bind read_u8 (\<lambda>interrupt_offset.
     rd_bind read_bool (\<lambda>sfnm.
     rd_bind read_bool (\<lambda>buffered_mode.
     rd_bind read_bool (\<lambda>master_slave.
     rd_bind read_bool (\<lambda>auto_eoi.
     rd_bind read_u8 (\<lambda>imr.
     rd_bind read_u8 (\<lambda>isr.
     rd_bind read_u8 (\<lambda>irr.
     rd_bind read_bool (\<lambda>read_reg_select.
     rd_bind read_u8 (\<lambda>irq.
     rd_bind read_u8 (\<lambda>lowest_priority.
     rd_bind read_bool (\<lambda>int_pin.
     rd_bind (read_bytes 8) (\<lambda>irq_in.
     rd_bind read_bool (\<lambda>in_init.
     rd_bind read_bool (\<lambda>requires_4.
     rd_bind read_u8 (\<lambda>byte_expected.
     rd_bind read_bool (\<lambda>special_mask.
     rd_bind read_bool (\<lambda>polled.
     rd_bind read_bool (\<lambda>rotate_on_autoeoi.
     rd_bind read_u8 (\<lambda>edge_level.
     let init = \<lparr>i_in_init = in_init, i_requires_4 = requires_4, i_byte_expected = byte_expected\<rparr>
     in if irq > 7 \<or> lowest_priority > 7 \<or> \<not> init_phase_valid init
        then rd_fail (Invalid ''PIC state is malformed'')
        else rd_return
          \<lparr>c_master = master, c_interrupt_offset = interrupt_offset, c_sfnm = sfnm,
           c_buffered_mode = buffered_mode, c_master_slave = master_slave, c_auto_eoi = auto_eoi,
           c_imr = imr, c_isr = isr, c_irr = irr, c_read_reg_select = read_reg_select, c_irq = irq,
           c_lowest_priority = lowest_priority, c_int_pin = int_pin, c_irq_in = irq_in,
           c_init = init, c_special_mask = special_mask, c_polled = polled,
           c_rotate_on_autoeoi = rotate_on_autoeoi, c_edge_level = edge_level\<rparr>)))))))))))))))))))))"

definition edge_restore :: "(u8 \<times> bool) reader" where
  "edge_restore = rd_bind read_u8 (\<lambda>pin.
     if pin \<ge> 16 then rd_fail (Invalid ''PIC forwarding IRQ is invalid'')
     else rd_bind read_bool (\<lambda>level. rd_return (pin, level)))"

definition pic_restore :: "(deferred_edges \<times> pic) reader" where
  "pic_restore =
     rd_bind read_u32 (\<lambda>version.
     if version \<noteq> SNAPSHOT_SECTION_VERSION
     then rd_fail (Invalid ''unsupported PIC snapshot section version'') else
     rd_bind (chip_restore True) (\<lambda>master.
     rd_bind (chip_restore False) (\<lambda>slave.
     rd_bind read_bool (\<lambda>irq_pending.
     rd_bind read_bool (\<lambda>irq_cleared.
     rd_bind (read_count PIC_IOAPIC_FORWARD_CAPACITY) (\<lambda>len.
     rd_bind (read_each edge_restore len) (\<lambda>edges.
     rd_return (edges, \<lparr>p_master = master, p_slave = slave, p_irq_pending = irq_pending,
       p_irq_cleared = irq_cleared\<rparr>))))))))"

end
