(* ===== verification/Pic_Service.thy ===== *)
theory Pic_Service
  imports Pic
begin

text \<open>
  The priority scans of an 8259 against their specification. The eight lines are ordered by
  \<open>prio_order\<close>, starting after the line of lowest priority; an end-of-interrupt clears the first
  line of that order in service, and \<^const>\<open>service\<close> signals the first unmasked request among the
  lines that no line in service blocks. Both loops are shown to compute exactly that, with the
  fuel of 8 being enough.
\<close>

section \<open>Priority order\<close>

definition prio_order :: "u8 \<Rightarrow> nat list" where
  "prio_order lowest = map (\<lambda>i. (unat lowest + 1 + i) mod 8) [0..<8]"

text \<open>The \<open>i\<close>-th line after line \<open>h\<close>, as a number and as the byte the loops carry.\<close>

definition slot :: "u8 \<Rightarrow> nat \<Rightarrow> nat" where
  "slot h i = (unat h + i) mod 8"

definition slot_irq :: "u8 \<Rightarrow> nat \<Rightarrow> u8" where
  "slot_irq h i = of_nat (slot h i)"

lemma le7_iff: "x \<le> 7 \<longleftrightarrow> unat x < 8" for x :: u8
  by (auto simp: word_le_nat_alt)

lemma gt7_iff: "7 < x \<longleftrightarrow> \<not> unat x < 8" for x :: u8
  by (auto simp: word_less_nat_alt)

lemma slot_less [simp]: "slot h i < 8"
  by (simp add: slot_def)

lemma unat_slot_irq [simp]: "unat (slot_irq h i) = slot h i"
  unfolding slot_irq_def by (rule unat_of_nat_small) (simp add: slot_def)

lemma slot_irq_eq_iff: "slot_irq h i = slot_irq h j \<longleftrightarrow> slot h i = slot h j"
  by (metis unat_slot_irq slot_irq_def)

lemma slot_irq_0: "unat h < 8 \<Longrightarrow> slot_irq h 0 = h"
  by (rule word_unat_eqI) (simp add: slot_def)

lemma slot_irq_8: "unat h < 8 \<Longrightarrow> slot_irq h 8 = h"
  by (rule word_unat_eqI) (simp add: slot_def)

lemma slot_inj:
  assumes "0 < i" "i \<le> 8" "0 < j" "j \<le> 8" "slot h i = slot h j"
  shows "i = j"
proof -
  obtain i' j' where "i = Suc i'" "j = Suc j'" using assms by (metis gr0_conv_Suc)
  with assms mod_slot_inj [of i' 8 j' "Suc (unat h)"] show ?thesis by (simp add: slot_def)
qed

lemma next_irq_less [simp]: "unat (next_irq x) < 8"
  by (simp add: next_irq_def gt7_iff)

lemma unat_next_irq: "unat x < 8 \<Longrightarrow> unat (next_irq x) = (unat x + 1) mod 8"
proof -
  assume x: "unat x < 8"
  then have "unat (x + 1) = unat x + 1" by (simp add: unat_word_ariths)
  with x show ?thesis by (simp add: next_irq_def gt7_iff mod_if)
qed

lemma next_slot_irq [simp]: "next_irq (slot_irq h i) = slot_irq h (Suc i)"
  by (rule word_unat_eqI) (simp add: unat_next_irq, simp add: slot_def mod_Suc_eq)

lemma prio_order_slots:
  "unat l < 8 \<Longrightarrow> prio_order l = map (slot (next_irq l)) [0..<8]"
  by (simp add: prio_order_def slot_def unat_next_irq mod_add_left_eq del: upt_rec_numeral)

lemma distinct_prio_order: "distinct (prio_order l)"
proof -
  have "inj_on (\<lambda>i. (unat l + 1 + i) mod 8) {0..<8}"
    by (rule inj_onI, erule mod_slot_inj [rotated 2]) simp_all
  then show ?thesis unfolding prio_order_def distinct_map by simp
qed

lemma set_prio_order: "set (prio_order l) = {..<8}"
proof (rule card_subset_eq)
  show "set (prio_order l) \<subseteq> {..<8}" by (auto simp: prio_order_def simp del: upt_rec_numeral)
  show "card (set (prio_order l)) = card {..<8 :: nat}"
    using distinct_prio_order [of l]
    by (simp add: distinct_card) (simp add: prio_order_def del: upt_rec_numeral)
qed simp

section \<open>The loops\<close>

lemma upt_Cons_map: "i < j \<Longrightarrow> map f [i..<j] = f i # map f [Suc i..<j]"
  by (simp add: upt_conv_Cons)

lemma clear_loop_find:
  assumes "unat h < 8"
  shows "i < 8 \<Longrightarrow> 8 \<le> n + i \<Longrightarrow>
    clear_loop n h (slot_irq h i) isr =
      (case find (bit isr) (map (slot h) [i..<8]) of
         None \<Rightarrow> isr | Some k \<Rightarrow> isr AND NOT (bitm k))"
proof (induction n arbitrary: i)
  case 0
  then show ?case by simp
next
  case (Suc n)
  have stop: "slot_irq h (Suc i) = h \<longleftrightarrow> Suc i = 8"
    using slot_inj [of "Suc i" 8 h] Suc.prems(1) slot_irq_8 [OF assms]
    by (metis Suc_leI le_refl slot_irq_eq_iff zero_less_Suc zero_less_numeral)
  show ?case
  proof (cases "Suc i = 8")
    case True
    then show ?thesis using stop by (auto simp: upt_Cons_map Suc.prems bits simp del: upt_rec_numeral)
  next
    case False
    with Suc.prems stop Suc.IH [of "Suc i"] show ?thesis
      by (simp add: upt_Cons_map bits del: upt_rec_numeral)
  qed
qed

lemma max_irq_loop_first:
  assumes "bit isr (slot h j)" "\<And>k. k < j \<Longrightarrow> \<not> bit isr (slot h k)"
  shows "i \<le> j \<Longrightarrow> j \<le> n + i \<Longrightarrow> max_irq_loop n isr (slot_irq h i) = slot_irq h j"
proof (induction n arbitrary: i)
  case 0
  then show ?case by simp
next
  case (Suc n)
  then show ?case using assms by (cases "i = j") (simp_all add: bits)
qed

definition signals :: "pic_chip \<Rightarrow> u8 \<Rightarrow> nat \<Rightarrow> bool" where
  "signals c req k \<longleftrightarrow>
     \<not> (c_special_mask c \<and> bit (c_isr c) k) \<and> \<not> c_int_pin c \<and> bit req k"

lemma request_loop_find:
  assumes "0 < m" "m \<le> 8"
  shows "i < m \<Longrightarrow> m \<le> n + i \<Longrightarrow>
    request_loop n c req (slot_irq h m) (slot_irq h i) =
      map_option of_nat (find (signals c req) (map (slot h) [i..<m]))"
proof (induction n arbitrary: i)
  case 0
  then show ?case by simp
next
  case (Suc n)
  have stop: "slot_irq h (Suc i) = slot_irq h m \<longleftrightarrow> Suc i = m"
    using slot_inj [of "Suc i" m h] Suc.prems(1) assms
    by (auto simp: slot_irq_eq_iff)
  have test: "drop_bit k x AND 1 \<noteq> 0 \<longleftrightarrow> bit x k" for k and x :: u8
    by (simp add: bit_iff_odd_drop_bit and_one_eq odd_iff_mod_2_eq_one)
  show ?case
  proof (cases "Suc i = m")
    case True
    then show ?thesis using stop
      by (auto simp: upt_Cons_map bits test signals_def simp flip: slot_irq_def)
  next
    case False
    with Suc.prems stop Suc.IH [of "Suc i"] show ?thesis
      by (auto simp: upt_Cons_map bits test signals_def simp flip: slot_irq_def)
  qed
qed

section \<open>Specification of a chip's decisions\<close>

definition clear_highest_spec :: "pic_chip \<Rightarrow> pic_chip" where
  "clear_highest_spec c =
     (case find (bit (c_isr c)) (prio_order (c_lowest_priority c)) of
        None \<Rightarrow> c
      | Some k \<Rightarrow> c\<lparr>c_isr := c_isr c AND NOT (bitm k)\<rparr>)"

text \<open>
  The lines that may interrupt now. In special mask mode every line not itself in service; in
  normal mode the lines of higher priority than every line in service.
\<close>

definition candidates :: "pic_chip \<Rightarrow> nat list" where
  "candidates c =
     (if c_special_mask c then filter (\<lambda>k. \<not> bit (c_isr c) k) (prio_order (c_lowest_priority c))
      else takeWhile (\<lambda>k. \<not> bit (c_isr c) k) (prio_order (c_lowest_priority c)))"

definition service_spec :: "pic_chip \<Rightarrow> pic_chip \<times> service_action" where
  "service_spec c =
     (let req = c_irr c AND NOT (c_imr c) in
      if req \<noteq> 0 then
        (case (if c_int_pin c then None else find (bit req) (candidates c)) of
           None \<Rightarrow> (c, NoAction)
         | Some k \<Rightarrow> (c\<lparr>c_int_pin := True, c_irq := of_nat k\<rparr>,
                       if c_master c then RaiseIntr else RaiseCascade))
      else if c_int_pin c \<and> (c_special_mask c \<or> candidates c \<noteq> [])
      then (c\<lparr>c_int_pin := False\<rparr>, if c_master c then ClearIntr else LowerCascade)
      else (c, NoAction))"

lemma find_filter: "find P (filter Q xs) = find (\<lambda>x. Q x \<and> P x) xs"
  by (induction xs) auto

lemma find_False: "find (\<lambda>x. False) xs = None"
  by (induction xs) auto

lemma find_signals:
  "find (signals c req) xs =
     (if c_int_pin c then None
      else find (bit req) (if c_special_mask c then filter (\<lambda>k. \<not> bit (c_isr c) k) xs else xs))"
proof -
  have "find (signals c req) xs = find (\<lambda>k. \<not> c_int_pin c \<and>
      (c_special_mask c \<longrightarrow> \<not> bit (c_isr c) k) \<and> bit req k) xs"
    by (rule arg_cong [where f = "\<lambda>P. find P xs"]) (auto simp: signals_def fun_eq_iff)
  then show ?thesis by (simp add: find_filter find_False)
qed

lemma first_in_service:
  assumes "isr \<noteq> (0 :: u8)" "unat h < 8"
  obtains j where "j < 8" "bit isr (slot h j)" "\<And>k. k < j \<Longrightarrow> \<not> bit isr (slot h k)"
    "takeWhile (\<lambda>k. \<not> bit isr k) (map (slot h) [0..<8]) = map (slot h) [0..<j]"
proof -
  from assms(1) obtain b where b: "b < 8" "bit isr b" by (auto simp: word_nonzero_bit)
  have "slot h ((b + (8 - unat h)) mod 8) = b"
    using b(1) assms(2) by (simp add: slot_def mod_add_right_eq)
  with b(2) have "\<exists>j. j < 8 \<and> bit isr (slot h j)"
    by (intro exI [of _ "(b + (8 - unat h)) mod 8"]) simp
  then obtain j where j: "j < 8 \<and> bit isr (slot h j)"
    and least: "\<forall>k < j. \<not> (k < 8 \<and> bit isr (slot h k))"
    unfolding exists_least_iff [of "\<lambda>j. j < 8 \<and> bit isr (slot h j)"] by blast
  then have before: "\<not> bit isr (slot h k)" if "k < j" for k
    using that by auto
  have split: "[0..<8] = [0..<j] @ j # [Suc j..<8]"
    using j upt_add_eq_append [of 0 j "8 - j"] by (simp add: upt_conv_Cons del: upt_rec_numeral)
  have "takeWhile (\<lambda>k. \<not> bit isr k) (map (slot h) [0..<8]) = map (slot h) [0..<j]"
    unfolding split using j before by (simp, subst takeWhile_append2) auto
  with j before that show ?thesis by blast
qed

lemma service_free_scan:
  assumes "unat (c_lowest_priority c) < 8" "c_special_mask c \<or> c_isr c = 0"
  shows "service c = service_spec c"
proof -
  let ?h = "next_irq (c_lowest_priority c)" and ?req = "c_irr c AND NOT (c_imr c)"
  have all: "candidates c =
      (if c_special_mask c then filter (\<lambda>k. \<not> bit (c_isr c) k) (map (slot ?h) [0..<8])
       else map (slot ?h) [0..<8])"
    using assms by (auto simp: candidates_def prio_order_slots takeWhile_eq_all_conv
        simp del: upt_rec_numeral)
  have "request_loop 8 c ?req ?h ?h = map_option of_nat (find (signals c ?req) (map (slot ?h) [0..<8]))"
    using request_loop_find [of 8 0 8 c ?req ?h] slot_irq_0 [of ?h] slot_irq_8 [of ?h] by simp
  then have "request_loop 8 c ?req ?h ?h =
      map_option of_nat (if c_int_pin c then None else find (bit ?req) (candidates c))"
    unfolding find_signals all by simp
  moreover have "c_special_mask c \<or> candidates c \<noteq> []"
    by (simp add: all)
  ultimately show ?thesis using assms
    by (auto simp: service_def service_spec_def Let_def split: option.splits)
qed

lemma service_blocked_scan:
  assumes "unat (c_lowest_priority c) < 8" "\<not> c_special_mask c" "c_isr c \<noteq> 0"
  shows "service c = service_spec c"
proof -
  let ?h = "next_irq (c_lowest_priority c)" and ?req = "c_irr c AND NOT (c_imr c)"
  have h: "unat ?h < 8" by simp
  from first_in_service [OF assms(3) h] obtain j where j: "j < 8" "bit (c_isr c) (slot ?h j)"
    and before: "\<And>k. k < j \<Longrightarrow> \<not> bit (c_isr c) (slot ?h k)"
    and tw: "takeWhile (\<lambda>k. \<not> bit (c_isr c) k) (map (slot ?h) [0..<8]) = map (slot ?h) [0..<j]"
    by blast
  have cand: "candidates c = map (slot ?h) [0..<j]"
    using assms tw by (simp add: candidates_def prio_order_slots del: upt_rec_numeral)
  have max: "max_irq_loop 8 (c_isr c) ?h = slot_irq ?h j"
    using max_irq_loop_first [OF j(2) before, of 0 8] j(1) slot_irq_0 [OF h] by simp
  have top: "slot_irq ?h j = ?h \<longleftrightarrow> j = 0"
    using slot_inj [of j 8 ?h] j(1) slot_irq_0 [OF h] slot_irq_8 [OF h]
    by (metis le_refl less_imp_le_nat less_irrefl neq0_conv slot_irq_eq_iff zero_less_numeral)
  show ?thesis
  proof (cases "j = 0")
    case True
    then show ?thesis using assms cand max top
      by (simp add: service_def service_spec_def Let_def split: option.splits)
  next
    case False
    have "request_loop 8 c ?req (slot_irq ?h j) ?h =
        map_option of_nat (if c_int_pin c then None else find (bit ?req) (candidates c))"
      using request_loop_find [of j 0 8 c ?req ?h] False j(1) slot_irq_0 [OF h] assms(2)
      by (simp add: find_signals cand)
    then show ?thesis using assms cand max top False
      by (auto simp: service_def service_spec_def Let_def split: option.splits)
  qed
qed

section \<open>Properties\<close>

text \<open>
  C2. \<^verbatim>\<open>Pic8259State::service\<close> implements the 8259's priority resolution: with the INT pin low it
  signals the first unmasked request, in rotated priority order, among the lines that no line
  in service blocks (in special mask mode: among the lines not in service); it drops INT when
  nothing unmasked is requested, and does nothing otherwise.
\<close>

theorem service_priority_resolution:
  assumes "c_lowest_priority c \<le> 7"
  shows "service c = service_spec c"
  using assms service_free_scan [of c] service_blocked_scan [of c] unfolding le7_iff by blast

theorem service_priority_resolution_witness:
  "c_lowest_priority chip_default \<le> 7 \<and>
   service (chip_default\<lparr>c_imr := 0, c_irr := 0x12, c_lowest_priority := 2\<rparr>) =
     service_spec (chip_default\<lparr>c_imr := 0, c_irr := 0x12, c_lowest_priority := 2\<rparr>)"
  using service_priority_resolution
    [of "chip_default\<lparr>c_imr := 0, c_irr := 0x12, c_lowest_priority := 2\<rparr>"]
  by (simp add: chip_default_def)

text \<open>
  A non-specific end of interrupt clears exactly the in-service bit of highest priority in
  the rotated order, and leaves a chip with nothing in service alone.
\<close>

theorem clear_highest_interrupt_exact:
  assumes "c_lowest_priority c \<le> 7"
  shows "clear_highest_interrupt c = clear_highest_spec c"
proof -
  let ?h = "next_irq (c_lowest_priority c)"
  have "clear_loop 8 ?h ?h (c_isr c) =
      (case find (bit (c_isr c)) (map (slot ?h) [0..<8]) of
         None \<Rightarrow> c_isr c | Some k \<Rightarrow> c_isr c AND NOT (bitm k))"
    using clear_loop_find [of ?h 0 8 "c_isr c"] slot_irq_0 [of ?h] by simp
  with assms show ?thesis
    by (auto simp: clear_highest_interrupt_def clear_highest_spec_def prio_order_slots le7_iff
        Let_def simp del: upt_rec_numeral split: option.splits)
qed

theorem clear_highest_interrupt_exact_witness:
  "clear_highest_interrupt (chip_default\<lparr>c_isr := 0x12, c_lowest_priority := 2\<rparr>) =
     clear_highest_spec (chip_default\<lparr>c_isr := 0x12, c_lowest_priority := 2\<rparr>)"
  using clear_highest_interrupt_exact [of "chip_default\<lparr>c_isr := 0x12, c_lowest_priority := 2\<rparr>"]
  by (simp add: chip_default_def)

end
