(* ===== verification/Pic_Invariant.thy ===== *)
theory Pic_Invariant
  imports Pic_Service
begin

text \<open>
  The invariant of the 8259 pair and its preservation by every operation a device, the guest or
  the processor can perform. A chip keeps its role, its selected line and its rotation within
  the eight lines, its vector base aligned, its initialisation phase consistent, and it never
  holds a request on a line no device drives (line 2 of the master, the cascade, excepted:
  the acknowledge cycle drops that line while the request may stay).
\<close>

section \<open>The invariant of a chip\<close>

definition lines_ok :: "bool \<Rightarrow> pic_chip \<Rightarrow> bool" where
  "lines_ok m c \<longleftrightarrow>
     (\<forall>k < 8. bit (c_irr c) k \<and> \<not> (m \<and> k = 2) \<longrightarrow> c_irq_in c ! k \<noteq> 0)"

definition chip_ok :: "bool \<Rightarrow> pic_chip \<Rightarrow> bool" where
  "chip_ok m c \<longleftrightarrow>
     c_master c = m \<and> c_irq c \<le> 7 \<and> c_lowest_priority c \<le> 7 \<and> length (c_irq_in c) = 8 \<and>
     c_interrupt_offset c AND 7 = 0 \<and> init_phase_valid (c_init c) \<and> lines_ok m c"

lemma chip_ok_frame [simp]:
  "chip_ok m (c\<lparr>c_int_pin := b\<rparr>) = chip_ok m c"
  "chip_ok m (c\<lparr>c_isr := v\<rparr>) = chip_ok m c"
  "chip_ok m (c\<lparr>c_imr := v\<rparr>) = chip_ok m c"
  "chip_ok m (c\<lparr>c_edge_level := v\<rparr>) = chip_ok m c"
  "chip_ok m (c\<lparr>c_polled := b\<rparr>) = chip_ok m c"
  "chip_ok m (c\<lparr>c_read_reg_select := b\<rparr>) = chip_ok m c"
  "chip_ok m (c\<lparr>c_special_mask := b\<rparr>) = chip_ok m c"
  "chip_ok m (c\<lparr>c_auto_eoi := b\<rparr>) = chip_ok m c"
  "chip_ok m (c\<lparr>c_rotate_on_autoeoi := b\<rparr>) = chip_ok m c"
  "chip_ok m (c\<lparr>c_sfnm := b\<rparr>) = chip_ok m c"
  "chip_ok m (c\<lparr>c_buffered_mode := b\<rparr>) = chip_ok m c"
  "chip_ok m (c\<lparr>c_master_slave := b\<rparr>) = chip_ok m c"
  by (simp_all add: chip_ok_def lines_ok_def)

lemma chip_ok_set:
  "chip_ok m c \<Longrightarrow> w \<le> 7 \<Longrightarrow> chip_ok m (c\<lparr>c_lowest_priority := w\<rparr>)"
  "chip_ok m c \<Longrightarrow> w \<le> 7 \<Longrightarrow> chip_ok m (c\<lparr>c_irq := w\<rparr>)"
  "chip_ok m c \<Longrightarrow> init_phase_valid i \<Longrightarrow> chip_ok m (c\<lparr>c_init := i\<rparr>)"
  "chip_ok m c \<Longrightarrow> w AND 7 = 0 \<Longrightarrow> chip_ok m (c\<lparr>c_interrupt_offset := w\<rparr>)"
  "chip_ok m c \<Longrightarrow> chip_ok m (c\<lparr>c_irr := c_irr c AND v\<rparr>)"
  "chip_ok m c \<Longrightarrow> chip_ok m (c\<lparr>c_irr := 0\<rparr>)"
  by (auto simp: chip_ok_def lines_ok_def bit_and_iff)

definition pic_inv :: "pic \<Rightarrow> bool" where
  "pic_inv p \<longleftrightarrow> chip_ok True (p_master p) \<and> chip_ok False (p_slave p)"

lemma on_chip_inv:
  "pic_inv p \<Longrightarrow> (\<And>c. chip_ok m c \<Longrightarrow> chip_ok m (f c)) \<Longrightarrow> pic_inv (on_chip m f p)"
  by (auto simp: pic_inv_def on_chip_def)

lemma pending_inv [simp]:
  "pic_inv (p\<lparr>p_irq_pending := a\<rparr>) = pic_inv p" "pic_inv (p\<lparr>p_irq_cleared := a\<rparr>) = pic_inv p"
  "pic_inv (raise_intr p) = pic_inv p" "pic_inv (clear_intr p) = pic_inv p"
  by (simp_all add: pic_inv_def raise_intr_def clear_intr_def)

lemma candidates_less: "k \<in> set (candidates c) \<Longrightarrow> k < 8"
  using set_takeWhileD set_prio_order by (fastforce simp: candidates_def split: if_splits)

lemma service_frame:
  assumes "c_lowest_priority c \<le> 7" "service c = (c', a)"
  shows "\<exists>pin q. c' = c\<lparr>c_int_pin := pin, c_irq := q\<rparr> \<and> (q \<le> 7 \<or> q = c_irq c)"
proof -
  let ?f = "find (bit (c_irr c AND NOT (c_imr c))) (candidates c)"
  have "service c = service_spec c"
    using assms(1) service_free_scan [of c] service_blocked_scan [of c] unfolding le7_iff by blast
  with assms(2) have c': "c' = fst (service_spec c)" by simp
  consider (same) "c' = c" | (drop) "c' = c\<lparr>c_int_pin := False\<rparr>"
    | (signal) k where "?f = Some k" "c' = c\<lparr>c_int_pin := True, c_irq := of_nat k\<rparr>"
  proof (cases "c_irr c AND NOT (c_imr c) = 0 \<or> c_int_pin c \<or> ?f = None")
    case True
    then have "c' = c \<or> c' = c\<lparr>c_int_pin := False\<rparr>"
      unfolding c' service_spec_def Let_def by (elim disjE) simp_all
    then show ?thesis using same drop by blast
  next
    case False
    then obtain k where "?f = Some k" by blast
    with False have "c' = c\<lparr>c_int_pin := True, c_irq := of_nat k\<rparr>"
      unfolding c' service_spec_def Let_def by simp
    with \<open>?f = Some k\<close> show ?thesis by (rule signal)
  qed
  then show ?thesis
  proof cases
    case same
    then show ?thesis by (intro exI [of _ "c_int_pin c"] exI [of _ "c_irq c"]) simp
  next
    case drop
    then show ?thesis by (intro exI [of _ False] exI [of _ "c_irq c"]) simp
  next
    case signal
    then have "k \<in> set (candidates c)" by (auto simp: find_Some_iff)
    then have "(of_nat k :: u8) \<le> 7"
      using candidates_less [of k c] unfolding le7_iff by (subst unat_of_nat_small) simp_all
    with signal show ?thesis by blast
  qed
qed

lemma service_ok: "chip_ok m c \<Longrightarrow> chip_ok m (fst (service c))"
  using service_frame [of c "fst (service c)" "snd (service c)"]
  by (auto simp: chip_ok_def lines_ok_def)

section \<open>Lines and the cascade\<close>

lemma bit_line_mask [simp]: "bit (line_mask n) k \<longleftrightarrow> k = unat n \<and> unat n < 8"
  by (simp add: bit_bitm)

lemma assert_line_ok: "chip_ok m c \<Longrightarrow> chip_ok m (assert_line n c)"
  by (auto simp: chip_ok_def lines_ok_def assert_line_def nth_list_update_if)

lemma request_line_ok:
  "chip_ok m c \<Longrightarrow> unat n < 8 \<Longrightarrow> chip_ok m (request_line n (assert_line n c))"
  by (auto simp: chip_ok_def lines_ok_def assert_line_def request_line_def nth_list_update_if bits)

lemma release_line_ok:
  "chip_ok m c \<Longrightarrow> chip_ok m (c\<lparr>c_irq_in := (c_irq_in c)[unat n := 0],
     c_irr := c_irr c AND NOT (line_mask n)\<rparr>)"
  by (auto simp: chip_ok_def lines_ok_def nth_list_update_if bits)

lemma on_chip_twice: "on_chip m f (on_chip m g p) = on_chip m (\<lambda>c. f (g c)) p"
  by (simp add: on_chip_def)

lemma dispatch_master_inv: "pic_inv p \<Longrightarrow> pic_inv (service_pic_dispatch True p)"
proof -
  assume p: "pic_inv p"
  obtain m a where s: "service (p_master p) = (m, a)" by (cases "service (p_master p)")
  with p service_ok [of True "p_master p"] have "pic_inv (p\<lparr>p_master := m\<rparr>)"
    by (simp add: pic_inv_def)
  with s show ?thesis by (cases a) (simp_all add: service_pic_dispatch.simps)
qed

lemma raise_line_inv:
  assumes "pic_inv p" "unat n < 8" "\<And>q. pic_inv q \<Longrightarrow> pic_inv (service_pic_dispatch m q)"
  shows "pic_inv (on_chip m (assert_line n) p)"
    "pic_inv (service_pic_dispatch m (on_chip m (request_line n) (on_chip m (assert_line n) p)))"
proof -
  show "pic_inv (on_chip m (assert_line n) p)"
    using assms(1) by (rule on_chip_inv) (rule assert_line_ok)
  have "pic_inv (on_chip m (\<lambda>c. request_line n (assert_line n c)) p)"
    using assms(1) by (rule on_chip_inv) (rule request_line_ok [OF _ assms(2)])
  then show "pic_inv (service_pic_dispatch m (on_chip m (request_line n) (on_chip m (assert_line n) p)))"
    unfolding on_chip_twice by (rule assms(3))
qed

lemma less8_iff: "n < 8 \<longleftrightarrow> unat n < 8" for n :: u8
  by (simp add: word_less_nat_alt)

lemma less16_iff: "n < 16 \<longleftrightarrow> unat n < 16" for n :: u8
  by (simp add: word_less_nat_alt)

lemma unat_minus_8: "\<not> n < 8 \<Longrightarrow> unat (n - 8) = unat n - 8" for n :: u8
  by (simp add: unat_sub not_less)

lemma raise_master_inv: "pic_inv p \<Longrightarrow> n < 8 \<Longrightarrow> pic_inv (snd (raise_irq n p))"
  using raise_line_inv [of p n True] dispatch_master_inv
  by (simp add: raise_irq.simps Let_def less8_iff)

lemma lower_irq_inv: "pic_inv p \<Longrightarrow> pic_inv (snd (lower_irq n p))"
  by (auto simp: lower_irq_def Let_def intro!: on_chip_inv intro: release_line_ok)

lemma cascade_inv: "pic_inv p \<Longrightarrow> pic_inv (set_cascade_line level p)"
  using raise_master_inv [of p 2] lower_irq_inv [of p 2]
  by (simp add: set_cascade_line.simps set_irq_level.simps)

lemma dispatch_slave_inv: "pic_inv p \<Longrightarrow> pic_inv (service_pic_dispatch False p)"
proof -
  assume p: "pic_inv p"
  obtain c a where s: "service (p_slave p) = (c, a)" by (cases "service (p_slave p)")
  with p service_ok [of False "p_slave p"] have "pic_inv (p\<lparr>p_slave := c\<rparr>)"
    by (simp add: pic_inv_def)
  with s show ?thesis by (cases a) (simp_all add: service_pic_dispatch.simps cascade_inv)
qed

lemma dispatch_inv: "pic_inv p \<Longrightarrow> pic_inv (service_pic_dispatch m p)"
  using dispatch_master_inv dispatch_slave_inv by (cases m) simp_all

lemma raise_irq_inv: "pic_inv p \<Longrightarrow> pic_inv (snd (raise_irq n p))"
proof (cases "n < 8")
  case False
  assume p: "pic_inv p"
  show ?thesis
  proof (cases "n < 16")
    case True
    then have "unat (n - 8) < 8" using False by (simp add: unat_minus_8 less16_iff)
    then show ?thesis
      using raise_line_inv [of p "n - 8" False] p dispatch_inv True False
      by (simp add: raise_irq.simps Let_def)
  qed (use p False in \<open>simp add: raise_irq.simps\<close>)
qed (rule raise_master_inv)

lemma set_irq_level_inv: "pic_inv p \<Longrightarrow> pic_inv (snd (set_irq_level n level p))"
  using raise_irq_inv lower_irq_inv by (simp add: set_irq_level.simps)

section \<open>Ports and the acknowledge cycle\<close>

lemma clear_highest_ok [simp]: "chip_ok m (clear_highest_interrupt c) = chip_ok m c"
  by (simp add: clear_highest_interrupt_def Let_def)

lemma next_irq_le [simp]: "next_irq x \<le> 7"
  by (simp add: le7_iff)

lemma sub_le7: "b \<le> v \<Longrightarrow> v \<le> b + 7 \<Longrightarrow> unat b + 7 < 256 \<Longrightarrow> v - b \<le> 7" for v b :: u8
  by (auto simp: word_le_nat_alt unat_sub unat_word_ariths)

lemma chip_ok_irq: "chip_ok m c \<Longrightarrow> c_irq c \<le> 7"
  by (simp add: chip_ok_def)

lemma take_ok: "chip_ok m c \<Longrightarrow> chip_ok m (take_isr (take_irr c))"
  by (simp add: take_isr_def take_irr_def chip_ok_set chip_ok_irq)

lemma drop_cascade_ok: "chip_ok True c \<Longrightarrow> chip_ok True (c\<lparr>c_irq_in := (c_irq_in c)[2 := 0]\<rparr>)"
  by (simp add: chip_ok_def lines_ok_def nth_list_update_if)

lemma iac_inv: "pic_inv p \<Longrightarrow> pic_inv (snd (iac p))"
  by (simp add: iac_def Let_def dispatch_inv on_chip_inv take_ok drop_cascade_ok)

lemma pic_read_inv: "pic_inv p \<Longrightarrow> pic_inv (snd (pic_read port len p))"
  by (simp add: pic_read_def Let_def dispatch_inv on_chip_inv)

lemma write_ocw2_inv: "pic_inv p \<Longrightarrow> pic_inv (write_ocw2 v m p)"
  using sub_le7 [of "0xC0" v] sub_le7 [of "0xE0" v]
  by (simp add: write_ocw2_def Let_def dispatch_inv on_chip_inv chip_ok_set)

lemma write_icw1_inv: "pic_inv p \<Longrightarrow> pic_inv (write_icw1 v m p)"
  by (simp add: write_icw1_def Let_def on_chip_inv drop_cascade_ok chip_ok_set init_phase_valid_def)

lemma write_ocw3_inv: "pic_inv p \<Longrightarrow> pic_inv (write_ocw3 v m p)"
  by (simp add: write_ocw3_def Let_def dispatch_inv on_chip_inv)

lemma write_cmd_inv: "pic_inv p \<Longrightarrow> pic_inv (write_cmd v m p)"
  by (simp add: write_cmd_def write_icw1_inv write_ocw2_inv write_ocw3_inv)

lemma icw_phase:
  assumes "init_phase_valid i" "i_in_init i"
  shows "init_phase_valid (i\<lparr>i_byte_expected := 3\<rparr>)"
    "i_requires_4 i \<Longrightarrow> init_phase_valid (i\<lparr>i_byte_expected := 4\<rparr>)"
    "i_byte_expected i = 3 \<Longrightarrow> init_phase_valid (i\<lparr>i_in_init := False\<rparr>)"
    "i_byte_expected i = 4 \<Longrightarrow> init_phase_valid (i\<lparr>i_in_init := False\<rparr>)"
  using assms by (simp_all add: init_phase_valid_def)

lemma chip_ok_phase: "chip_ok m c \<Longrightarrow> init_phase_valid (c_init c)"
  by (simp add: chip_ok_def)

lemma write_icw_inv:
  assumes "pic_inv p" "i_in_init (c_init (chip_of m p))"
  shows "pic_inv (write_icw v m p)"
proof -
  have "(v AND 0xF8) AND 7 = 0" by (simp add: and.assoc)
  then show ?thesis
    using assms unfolding write_icw_def Let_def pic_inv_def on_chip_def chip_of_def
    by (auto intro!: chip_ok_set intro: icw_phase chip_ok_phase split: if_splits)
qed

lemma write_data_inv: "pic_inv p \<Longrightarrow> pic_inv (write_data v m p)"
  by (simp add: write_data_def write_icw_inv dispatch_inv on_chip_inv)

lemma pic_write_inv: "pic_inv p \<Longrightarrow> pic_inv (pic_write port v p)"
  by (simp add: pic_write_def Let_def write_cmd_inv write_data_inv)

lemma pic_new_inv: "pic_inv pic_new"
  by (simp add: pic_inv_def pic_new_def chip_ok_def lines_ok_def chip_default_def
      pic_init_default_def init_phase_valid_def)

lemma pic_reset_inv: "pic_inv (pic_reset p)"
  by (simp add: pic_inv_def pic_reset_def chip_ok_def lines_ok_def pic_init_default_def
      init_phase_valid_def)

section \<open>Reachable states\<close>

text \<open>One call of the controller's interface: devices, guest port accesses, the processor.\<close>

inductive pic_step :: "pic \<Rightarrow> pic \<Rightarrow> bool" where
  step_level: "pic_step p (snd (set_irq_level n level p))"
| step_write: "pic_step p (pic_write port v p)"
| step_read: "pic_step p (snd (pic_read port len p))"
| step_iac: "pic_step p (snd (iac p))"
| step_mode: "pic_step p (set_mode m v p)"
| step_reset: "pic_step p (pic_reset p)"
| step_reconcile: "pic_step p (reconcile_deasserted_intr p)"

inductive pic_reachable :: "pic \<Rightarrow> bool" where
  reach_new: "pic_reachable pic_new"
| reach_step: "pic_reachable p \<Longrightarrow> pic_step p q \<Longrightarrow> pic_reachable q"

lemma pic_step_inv: "pic_step p q \<Longrightarrow> pic_inv p \<Longrightarrow> pic_inv q"
  by (induction rule: pic_step.induct)
    (simp_all add: set_irq_level_inv pic_write_inv pic_read_inv iac_inv pic_reset_inv
      set_mode_def reconcile_deasserted_intr_def on_chip_inv)

lemma reachable_inv: "pic_reachable p \<Longrightarrow> pic_inv p"
  by (induction rule: pic_reachable.induct) (auto intro: pic_new_inv pic_step_inv)

lemma reachable_raise: "pic_reachable p \<Longrightarrow> pic_reachable (snd (set_irq_level n l p))"
  by (rule reach_step [OF _ step_level])

section \<open>Vectors\<close>

lemma aligned_add:
  assumes "(b :: u8) AND 7 = 0" "k \<le> 7"
  shows "unat (b + k) = unat b + unat k"
proof -
  have "take_bit 3 b = 0" using assms(1) by (simp add: take_bit_eq_mask mask_eq_exp_minus_1)
  then have "take_bit 3 (unat b) = 0" by (simp flip: unsigned_take_bit_eq)
  then have "8 dvd unat b" by (simp add: take_bit_eq_mod mod_eq_0_iff_dvd)
  then obtain q where "unat b = 8 * q" ..
  with unat_bound [of b] assms(2) have "unat b + unat k < 256" by (simp add: le7_iff)
  then show ?thesis by (simp add: unat_word_ariths)
qed

lemma iac_vector:
  "fst (iac p) \<in> {c_interrupt_offset (p_master p) + 7, c_irq (p_master p) + c_interrupt_offset (p_master p),
     c_interrupt_offset (p_slave p) + 7, c_irq (p_slave p) + c_interrupt_offset (p_slave p)}"
  by (simp add: iac_def Let_def on_chip_def take_isr_def take_irr_def clear_intr_def)

text \<open>
  C8. Every state the pair of 8259s can reach from power-on, through any sequence of line
  changes, port reads and writes, acknowledge cycles, trigger-mode changes and resets,
  satisfies the invariant: roles, selected line and rotation within range, aligned vector
  bases, consistent initialisation phase, and no request without a driven line.
\<close>

theorem pic_reachable_invariant:
  assumes "pic_reachable p"
  shows "pic_inv p"
  using assms by (rule reachable_inv)

theorem pic_reachable_invariant_witness:
  "pic_reachable (snd (set_irq_level 4 True pic_new)) \<and>
   pic_inv (snd (set_irq_level 4 True pic_new))"
  using pic_reachable_invariant [OF reachable_raise [OF reach_new, of 4 True]]
    reachable_raise [OF reach_new, of 4 True] by blast

text \<open>
  In every reachable state the acknowledge cycle answers a vector of one of the two chips:
  its programmed base plus a line number below 8, computed without wrap-around.
\<close>

theorem iac_vector_in_range:
  assumes "pic_reachable p"
  shows "\<exists>c \<in> {p_master p, p_slave p}. \<exists>k < 8.
     unat (fst (iac p)) = unat (c_interrupt_offset c) + k"
proof -
  have ok: "c_irq c \<le> 7 \<and> c_interrupt_offset c AND 7 = 0" if "c \<in> {p_master p, p_slave p}" for c
    using reachable_inv [OF assms] that by (auto simp: pic_inv_def chip_ok_def)
  have "unat (c_interrupt_offset c + k) = unat (c_interrupt_offset c) + unat k \<and> unat k < 8"
    if "c \<in> {p_master p, p_slave p}" "k \<le> 7" for c k
    using ok [OF that(1)] that(2) aligned_add le7_iff by blast
  moreover have "\<exists>c \<in> {p_master p, p_slave p}. \<exists>k \<le> 7. fst (iac p) = c_interrupt_offset c + k"
    using iac_vector [of p] ok by (auto simp: add.commute)
  ultimately show ?thesis by metis
qed

theorem iac_vector_in_range_witness:
  "pic_reachable pic_new \<and> (\<exists>c \<in> {p_master pic_new, p_slave pic_new}. \<exists>k < 8.
     unat (fst (iac pic_new)) = unat (c_interrupt_offset c) + k)"
  using iac_vector_in_range [OF reach_new] reach_new by blast

end
