(* ===== verification/Pic_Snapshot.thy ===== *)
theory Pic_Snapshot
  imports Pic_Invariant
begin

text \<open>
  The snapshot section of the 8259 pair: a chip's writer and reader keep the codec contract for
  every well-formed chip, so every reachable controller survives a save and a restore
  unchanged, in exactly the number of bytes the section announces, and a restored chip is
  always well formed.
\<close>

definition chip_enc :: "pic_chip \<Rightarrow> bytes" where
  "chip_enc c =
     enc_bool (c_master c) @ [c_interrupt_offset c] @ enc_bool (c_sfnm c) @
     enc_bool (c_buffered_mode c) @ enc_bool (c_master_slave c) @ enc_bool (c_auto_eoi c) @
     [c_imr c] @ [c_isr c] @ [c_irr c] @ enc_bool (c_read_reg_select c) @ [c_irq c] @
     [c_lowest_priority c] @ enc_bool (c_int_pin c) @ c_irq_in c @
     enc_bool (i_in_init (c_init c)) @ enc_bool (i_requires_4 (c_init c)) @
     [i_byte_expected (c_init c)] @ enc_bool (c_special_mask c) @ enc_bool (c_polled c) @
     enc_bool (c_rotate_on_autoeoi c) @ [c_edge_level c]"

definition chip_storable :: "bool \<Rightarrow> pic_chip \<Rightarrow> bool" where
  "chip_storable m c \<longleftrightarrow>
     c_master c = m \<and> c_irq c \<le> 7 \<and> c_lowest_priority c \<le> 7 \<and> length (c_irq_in c) = 8 \<and>
     init_phase_valid (c_init c)"

lemma chip_save_enc: "chip_save c w = Inr (w @ chip_enc c)"
  by (simp add: chip_save_def chip_enc_def)

lemma chip_restore_enc:
  assumes "chip_storable m c"
  shows "chip_restore m (chip_enc c @ r) = Inr (c, r)"
proof -
  from assms have "\<not> 7 < c_irq c" "\<not> 7 < c_lowest_priority c" "init_phase_valid (c_init c)"
    "length (c_irq_in c) = 8" "c_master c = m"
    by (simp_all add: chip_storable_def not_less)
  moreover from this(3) have "init_phase_valid \<lparr>i_in_init = i_in_init (c_init c),
      i_requires_4 = i_requires_4 (c_init c), i_byte_expected = i_byte_expected (c_init c)\<rparr>"
    by (simp add: init_phase_valid_def)
  ultimately show ?thesis
    by (simp add: chip_restore_def chip_enc_def Let_def)
qed

lemma chip_restore_exact:
  assumes "chip_restore m bs = Inr (c, r)"
  shows "chip_storable m c \<and> bs = chip_enc c @ r"
  using assms
  by (auto simp: chip_restore_def rd_bind_iff scalar_iff read_bytes_iff Let_def chip_storable_def
      chip_enc_def not_less split: if_splits)

interpretation chipc: snap_codec chip_save "chip_restore m" chip_enc "chip_storable m" for m
  by unfold_locales (auto simp: chip_save_enc chip_restore_enc dest: chip_restore_exact)

definition edge_enc :: "u8 \<times> bool \<Rightarrow> bytes" where
  "edge_enc e = fst e # enc_bool (snd e)"

lemma edge_restore_iff: "edge_restore bs = Inr (e, r) \<longleftrightarrow> fst e < 16 \<and> bs = edge_enc e @ r"
  by (cases e) (auto simp: edge_restore_def edge_enc_def rd_bind_iff scalar_iff not_le split: if_splits)

lemma length_chip_enc: "length (c_irq_in c) = 8 \<Longrightarrow> length (chip_enc c) = 28"
  by (simp add: chip_enc_def enc_bool_def)

lemma chip_ok_storable: "chip_ok m c \<Longrightarrow> chip_storable m c"
  by (simp add: chip_ok_def chip_storable_def)

lemma pic_snapshot_len_val: "pic_snapshot_len = Inr 66"
  by (simp add: pic_snapshot_len_def checked_snapshot_len_add_def checked_len_add_def
      MAX_SECTION_LEN_def)

definition pic_enc :: "pic \<Rightarrow> bytes" where
  "pic_enc p = to_le_bytes 4 SNAPSHOT_SECTION_VERSION @ chip_enc (p_master p) @
     chip_enc (p_slave p) @ enc_bool (p_irq_pending p) @ enc_bool (p_irq_cleared p) @
     to_le_bytes 4 (0 :: u32)"

lemma pic_save_enc: "pic_save p w = Inr (w @ pic_enc p)"
  by (simp add: pic_save_def pic_snapshot_len_val chip_save_enc pic_enc_def)

lemma pic_restore_enc:
  assumes "chip_storable True (p_master p)" "chip_storable False (p_slave p)"
  shows "pic_restore (pic_enc p @ r) = Inr (([], p), r)"
proof -
  have "read_count PIC_IOAPIC_FORWARD_CAPACITY (to_le_bytes 4 (0 :: u32) @ r) = Inr (0, r)"
    using read_count_simp [of 0 PIC_IOAPIC_FORWARD_CAPACITY r] by simp
  with assms show ?thesis
    by (simp add: pic_restore_def pic_enc_def chipc.rd_enc)
qed

section \<open>Properties\<close>

text \<open>
  C33. A snapshot of any reachable 8259 pair can be written, takes exactly the bytes
  \<^verbatim>\<open>snapshot_len\<close> announces, and restores to the same controller with no deferred edges.
\<close>

theorem pic_snapshot_round_trip:
  assumes "pic_reachable p"
  shows "\<exists>bs. pic_save p w = Inr (w @ bs) \<and> pic_snapshot_len = Inr (of_nat (length bs)) \<and>
     pic_restore (bs @ r) = Inr (([], p), r)"
proof -
  from reachable_inv [OF assms] have ok: "chip_storable True (p_master p)"
    "chip_storable False (p_slave p)"
    by (simp_all add: pic_inv_def chip_ok_storable)
  then have "length (pic_enc p) = 66"
    by (simp add: pic_enc_def length_chip_enc chip_storable_def enc_bool_def)
  with ok show ?thesis
    by (intro exI [of _ "pic_enc p"]) (simp add: pic_save_enc pic_snapshot_len_val pic_restore_enc)
qed

theorem pic_snapshot_round_trip_witness:
  "pic_reachable pic_new \<and> (\<exists>bs. pic_save pic_new [] = Inr bs \<and>
     pic_restore bs = Inr (([], pic_new), []))"
  using pic_snapshot_round_trip [OF reach_new, of "[]" "[]"] reach_new by auto

text \<open>
  Restoring never produces a malformed controller: whatever bytes are presented, a restore
  that succeeds yields chips in their roles, with the selected line and the rotation within the
  eight lines and a consistent initialisation phase, and deferred edges on ISA lines only.
\<close>

theorem pic_restore_well_formed:
  assumes "pic_restore bs = Inr ((edges, p), r)"
  shows "chip_storable True (p_master p) \<and> chip_storable False (p_slave p) \<and>
     length edges \<le> PIC_IOAPIC_FORWARD_CAPACITY \<and> list_all (\<lambda>e. fst e < 16) edges"
proof -
  have each: "read_each edge_restore n bs = Inr (es, r) \<Longrightarrow>
      length es = n \<and> list_all (\<lambda>e. fst e < 16) es" for n bs es r
    by (induction n arbitrary: bs es) (auto simp: rd_bind_iff edge_restore_iff)
  from assms show ?thesis
    by (auto simp: pic_restore_def rd_bind_iff chipc.rd_iff read_count_iff dest!: each
        split: if_splits)
qed

theorem pic_restore_well_formed_witness:
  "pic_restore (pic_enc pic_new) = Inr (([], pic_new), []) \<and>
   chip_storable True (p_master pic_new)"
proof -
  have "chip_storable True (p_master pic_new)" "chip_storable False (p_slave pic_new)"
    using pic_new_inv by (simp_all add: pic_inv_def chip_ok_storable)
  then have "pic_restore (pic_enc pic_new) = Inr (([], pic_new), [])"
    using pic_restore_enc [of pic_new "[]"] by simp
  then show ?thesis using pic_restore_well_formed by blast
qed

end
