(* ===== verification/Pic_Delivery.thy ===== *)
theory Pic_Delivery
  imports Pic_Invariant
begin

text \<open>
  What a device and the guest see end to end: a line that may interrupt, once raised, asserts
  INT and is answered by the acknowledge cycle with its own vector, on the master directly and
  on the slave through the cascade; the edge towards the I/O APIC is reported exactly when the
  request is new; the four initialisation words programme a chip.
\<close>

section \<open>Raising one line\<close>

lemma single_request:
  assumes "c_irr c AND NOT (c_imr c) = 0" "\<not> bit (c_imr c) (unat n)" "unat n < 8"
  shows "bit ((c_irr c OR line_mask n) AND NOT (c_imr c)) k \<longleftrightarrow> k = unat n"
proof -
  have "\<not> (bit (c_irr c) k \<and> \<not> bit (c_imr c) k)"
    using assms(1) bit_and_not_word [of "c_irr c" "c_imr c" k] by simp
  then show ?thesis using assms(2,3) by (auto simp: bits)
qed

lemma find_single: "(\<And>k. P k \<longleftrightarrow> k = n) \<Longrightarrow> n \<in> set xs \<Longrightarrow> find P xs = Some n"
  by (induction xs) auto

lemma idle_candidates: "c_isr c = 0 \<Longrightarrow> set (candidates c) = {..<8}"
  using set_prio_order [of "c_lowest_priority c"]
  by (auto simp: candidates_def takeWhile_eq_all_conv [THEN iffD2])

text \<open>A chip on which line \<open>n\<close> is the only unmasked request and nothing blocks it.\<close>

definition deliverable :: "pic_chip \<Rightarrow> u8 \<Rightarrow> bool" where
  "deliverable c n \<longleftrightarrow>
     c_irr c AND NOT (c_imr c) = 0 \<and> \<not> bit (c_irr c) (unat n) \<and> \<not> bit (c_imr c) (unat n) \<and>
     \<not> c_int_pin c \<and> unat n \<in> set (candidates c) \<and> c_lowest_priority c \<le> 7"

definition signalled :: "u8 \<Rightarrow> pic_chip \<Rightarrow> pic_chip" where
  "signalled n c = (request_line n (assert_line n c))\<lparr>c_int_pin := True, c_irq := n\<rparr>"

lemma service_deliverable:
  assumes "deliverable c n"
  shows "service (request_line n (assert_line n c)) =
     (signalled n c, if c_master c then RaiseIntr else RaiseCascade)"
proof -
  let ?c = "request_line n (assert_line n c)"
  have n: "unat n < 8" using assms candidates_less [of "unat n" c] by (auto simp: deliverable_def)
  have cand: "candidates ?c = candidates c"
    by (simp add: candidates_def request_line_def assert_line_def)
  have req: "bit (c_irr ?c AND NOT (c_imr ?c)) k \<longleftrightarrow> k = unat n" for k
    using assms n single_request [of c n k]
    by (simp add: deliverable_def request_line_def assert_line_def)
  have "find (bit (c_irr ?c AND NOT (c_imr ?c))) (candidates ?c) = Some (unat n)"
    unfolding cand using assms by (intro find_single req) (simp add: deliverable_def)
  moreover have "c_irr ?c AND NOT (c_imr ?c) \<noteq> 0" using req [of "unat n"] by auto
  moreover have "service ?c = service_spec ?c"
    using assms service_free_scan [of ?c] service_blocked_scan [of ?c]
    by (auto simp: deliverable_def le7_iff request_line_def assert_line_def)
  ultimately show ?thesis
    using assms
    by (simp add: service_spec_def deliverable_def signalled_def)
      (simp add: request_line_def assert_line_def)
qed

lemma raise_master:
  assumes "deliverable (p_master p) n" "c_master (p_master p)" "unat n < 8"
  shows "raise_irq n p =
     (if n \<noteq> 2 then Crossed else NotCrossed,
      p\<lparr>p_master := signalled n (p_master p), p_irq_pending := True\<rparr>)"
proof -
  have "c_irr (assert_line n (p_master p)) AND line_mask n = 0"
    using assms by (simp add: assert_line_def deliverable_def bits)
  then show ?thesis
    using assms service_deliverable [OF assms(1)]
    by (simp add: raise_irq.simps service_pic_dispatch.simps on_chip_def less8_iff raise_intr_def)
qed

lemma raise_slave:
  assumes "deliverable (p_slave p) k" "\<not> c_master (p_slave p)" "unat k < 8"
    and "deliverable (p_master p) 2" "c_master (p_master p)"
  shows "raise_irq (8 + k) p =
     (Crossed, p\<lparr>p_master := signalled 2 (p_master p), p_slave := signalled k (p_slave p),
                 p_irq_pending := True\<rparr>)"
proof -
  have u: "unat (8 + k) = 8 + unat k" using assms(3) by (simp add: unat_word_ariths)
  have r: "\<not> 8 + k < 8" "8 + k < 16" "8 + k - 8 = k"
    using assms(3) u by (simp_all add: less8_iff less16_iff)
  let ?p = "p\<lparr>p_slave := signalled k (p_slave p)\<rparr>"
  have "raise_irq 2 ?p = (NotCrossed, ?p\<lparr>p_master := signalled 2 (p_master p), p_irq_pending := True\<rparr>)"
    using raise_master [of ?p 2] assms by simp
  moreover have "c_irr (assert_line k (p_slave p)) AND line_mask k = 0"
    using assms by (simp add: assert_line_def deliverable_def bits)
  ultimately show ?thesis
    using assms r service_deliverable [OF assms(1)]
    by (simp add: raise_irq.simps [of "8 + k"] service_pic_dispatch.simps [of False]
        set_cascade_line.simps set_irq_level.simps on_chip_def)
qed

lemma unmasked_signalled:
  assumes "deliverable c n"
  shows "c_irr (signalled n c) AND NOT (c_imr (signalled n c)) \<noteq> 0"
proof -
  have "unat n < 8" using assms candidates_less [of "unat n" c] by (auto simp: deliverable_def)
  with assms single_request [of c n "unat n"] show ?thesis
    by (auto simp: deliverable_def signalled_def request_line_def assert_line_def)
qed

section \<open>What servicing leaves alone\<close>

definition settings :: "pic_chip \<Rightarrow> bool \<times> u8 \<times> bool \<times> u8 \<times> u8 \<times> u8 \<times> pic_init" where
  "settings c = (c_master c, c_interrupt_offset c, c_auto_eoi c, c_imr c, c_isr c,
     c_lowest_priority c, c_init c)"

lemma service_settings: "settings (fst (service c)) = settings c"
  by (simp add: service_def Let_def settings_def split: option.splits)

lemma line_settings [simp]:
  "settings (assert_line n c) = settings c" "settings (request_line n c) = settings c"
  by (simp_all add: settings_def assert_line_def request_line_def)

lemma dispatch_master_settings:
  "settings (p_master (service_pic_dispatch True p)) = settings (p_master p) \<and>
   p_slave (service_pic_dispatch True p) = p_slave p"
proof -
  obtain c a where "service (p_master p) = (c, a)" by (cases "service (p_master p)")
  with service_settings [of "p_master p"] show ?thesis
    by (cases a) (simp_all add: service_pic_dispatch.simps raise_intr_def clear_intr_def)
qed

lemma cascade_settings:
  "settings (p_master (set_cascade_line l p)) = settings (p_master p) \<and>
   p_slave (set_cascade_line l p) = p_slave p"
proof -
  have "settings (c\<lparr>c_irq_in := xs, c_irr := w\<rparr>) = settings c" for c xs w
    by (simp add: settings_def)
  then show ?thesis
    using dispatch_master_settings
    by (simp add: set_cascade_line.simps set_irq_level.simps lower_irq_def raise_irq.simps Let_def
        on_chip_def)
qed

lemma dispatch_settings:
  "settings (p_master (service_pic_dispatch m p)) = settings (p_master p)"
  "settings (p_slave (service_pic_dispatch m p)) = settings (p_slave p)"
proof -
  obtain s a where "service (p_slave p) = (s, a)" by (cases "service (p_slave p)")
  moreover from this have "settings s = settings (p_slave p)"
    using service_settings [of "p_slave p"] by simp
  ultimately have "settings (p_master (service_pic_dispatch False p)) = settings (p_master p) \<and>
      settings (p_slave (service_pic_dispatch False p)) = settings (p_slave p)"
    using cascade_settings by (cases a) (simp_all add: service_pic_dispatch.simps)
  then show "settings (p_master (service_pic_dispatch m p)) = settings (p_master p)"
    "settings (p_slave (service_pic_dispatch m p)) = settings (p_slave p)"
    using dispatch_master_settings [of p] by (cases m; simp)+
qed

lemma dispatch_isr [simp]:
  "c_isr (p_master (service_pic_dispatch m p)) = c_isr (p_master p)"
  "c_isr (p_slave (service_pic_dispatch m p)) = c_isr (p_slave p)"
  using dispatch_settings [of m p] by (simp_all add: settings_def)

lemma dispatch_imr [simp]: "c_imr (chip_of m (service_pic_dispatch m' p)) = c_imr (chip_of m p)"
  using dispatch_settings [of m' p] by (simp add: settings_def chip_of_def)

section \<open>Programming a chip\<close>

abbreviation cmd_port :: "bool \<Rightarrow> u16" where
  "cmd_port m \<equiv> if m then PIC_MASTER_CMD else PIC_SLAVE_CMD"

abbreviation data_port :: "bool \<Rightarrow> u16" where
  "data_port m \<equiv> if m then PIC_MASTER_DATA else PIC_SLAVE_DATA"

lemma pic_write_ports:
  "pic_write (cmd_port m) (ucast v) p = write_cmd v m p"
  "pic_write (data_port m) (ucast v) p = write_data v m p"
proof -
  have "ucast (ucast v :: u32) = v" by (rule bit_word_eqI) (simp add: bit_simps)
  then show "pic_write (cmd_port m) (ucast v) p = write_cmd v m p"
    "pic_write (data_port m) (ucast v) p = write_data v m p"
    by (simp_all add: pic_write_def pic_ports)
qed

lemma chip_of_on_chip [simp]: "chip_of m (on_chip m f p) = f (chip_of m p)"
  by (simp add: chip_of_def on_chip_def)

lemma chip_of_icw1:
  assumes "v AND 0x10 \<noteq> 0"
  shows "\<exists>c. chip_of m (write_cmd v m p) =
     c\<lparr>c_init := \<lparr>i_in_init = True, i_requires_4 = (v AND 1 \<noteq> 0), i_byte_expected = 2\<rparr>,
       c_imr := 0, c_isr := 0, c_irr := 0, c_lowest_priority := 7, c_auto_eoi := False,
       c_rotate_on_autoeoi := False, c_int_pin := False\<rparr> \<and> c_master c = c_master (chip_of m p)"
  using assms
  by (intro exI [of _ "chip_of m p"])
    (simp add: write_cmd_def write_icw1_def Let_def chip_of_def on_chip_def clear_intr_def)

lemma chip_of_icw:
  "i_in_init (c_init (chip_of m p)) \<Longrightarrow>
   chip_of m (write_data v m p) = chip_of m (write_icw v m p)"
  by (simp add: write_data_def)

section \<open>Properties\<close>

text \<open>
  C30. Delivery through the master: raising a line that is unmasked, not requested, and not
  blocked by a line in service, while nothing else is pending, reports the edge to the I/O
  APIC, asserts INT, and the next acknowledge cycle answers the line's own vector and, without
  automatic end of interrupt, marks exactly that line in service.
\<close>

theorem master_line_delivered:
  assumes "pic_inv p" "deliverable (p_master p) n" "n \<noteq> 2"
  shows "fst (raise_irq n p) = Crossed \<and> has_interrupt (snd (raise_irq n p)) \<and>
    fst (iac (snd (raise_irq n p))) = c_interrupt_offset (p_master p) + n \<and>
    c_isr (p_master (snd (iac (snd (raise_irq n p))))) =
      (if c_auto_eoi (p_master p) then c_isr (p_master p) else c_isr (p_master p) OR line_mask n)"
proof -
  have n: "unat n < 8"
    using assms(2) candidates_less [of "unat n"] by (auto simp: deliverable_def)
  let ?q = "p\<lparr>p_master := signalled n (p_master p), p_irq_pending := True\<rparr>"
  have r: "raise_irq n p = (Crossed, ?q)"
    using assms n raise_master [of p n] by (simp add: pic_inv_def chip_ok_def)
  have "c_irr (signalled n (p_master p)) AND NOT (c_imr (signalled n (p_master p))) \<noteq> 0"
    using assms(2) by (rule unmasked_signalled)
  then show ?thesis
    using assms(3) unfolding r
    by (simp add: iac_def Let_def on_chip_def clear_intr_def has_interrupt_def take_isr_def
        take_irr_def signalled_def request_line_def assert_line_def add.commute)
qed

theorem master_line_delivered_witness:
  "let p = pic_new\<lparr>p_master := (p_master pic_new)\<lparr>c_imr := 0xFE\<rparr>\<rparr> in
     pic_inv p \<and> deliverable (p_master p) 0 \<and> fst (iac (snd (raise_irq 0 p))) = 8"
proof -
  let ?p = "pic_new\<lparr>p_master := (p_master pic_new)\<lparr>c_imr := 0xFE\<rparr>\<rparr>"
  have "pic_inv ?p" using pic_new_inv by (simp add: pic_inv_def)
  moreover have "deliverable (p_master ?p) 0"
    by (simp add: deliverable_def pic_new_def chip_default_def idle_candidates)
  ultimately show ?thesis
    using master_line_delivered [of ?p 0] by (simp add: pic_new_def)
qed

text \<open>
  Delivery through the cascade: a deliverable line of the slave, with the cascade line
  deliverable on the master, asserts INT through the master, and the acknowledge cycle answers
  the slave's vector for that line.
\<close>

theorem slave_line_delivered:
  assumes "pic_inv p" "deliverable (p_slave p) k" "deliverable (p_master p) 2"
  shows "fst (raise_irq (8 + k) p) = Crossed \<and> has_interrupt (snd (raise_irq (8 + k) p)) \<and>
    fst (iac (snd (raise_irq (8 + k) p))) = c_interrupt_offset (p_slave p) + k \<and>
    c_isr (p_slave (snd (iac (snd (raise_irq (8 + k) p))))) =
      (if c_auto_eoi (p_slave p) then c_isr (p_slave p) else c_isr (p_slave p) OR line_mask k)"
proof -
  have k: "unat k < 8"
    using assms(2) candidates_less [of "unat k"] by (auto simp: deliverable_def)
  let ?q = "p\<lparr>p_master := signalled 2 (p_master p), p_slave := signalled k (p_slave p),
      p_irq_pending := True\<rparr>"
  have r: "raise_irq (8 + k) p = (Crossed, ?q)"
    using assms k raise_slave [of p k] by (simp add: pic_inv_def chip_ok_def)
  have "c_irr (signalled 2 (p_master p)) AND NOT (c_imr (signalled 2 (p_master p))) \<noteq> 0"
    "c_irr (signalled k (p_slave p)) AND NOT (c_imr (signalled k (p_slave p))) \<noteq> 0"
    using assms(2,3) by (simp_all add: unmasked_signalled)
  then show ?thesis
    unfolding r
    by (simp add: iac_def Let_def on_chip_def clear_intr_def has_interrupt_def take_isr_def
        take_irr_def signalled_def request_line_def assert_line_def add.commute)
qed

theorem slave_line_delivered_witness:
  "let p = pic_new\<lparr>p_master := (p_master pic_new)\<lparr>c_imr := 0xFB\<rparr>,
                   p_slave := (p_slave pic_new)\<lparr>c_imr := 0xBF\<rparr>\<rparr> in
     pic_inv p \<and> deliverable (p_slave p) 6 \<and> deliverable (p_master p) 2 \<and>
     fst (iac (snd (raise_irq (8 + 6) p))) = 0x76"
proof -
  let ?p = "pic_new\<lparr>p_master := (p_master pic_new)\<lparr>c_imr := 0xFB\<rparr>,
                   p_slave := (p_slave pic_new)\<lparr>c_imr := 0xBF\<rparr>\<rparr>"
  have "pic_inv ?p" using pic_new_inv by (simp add: pic_inv_def)
  moreover have "deliverable (p_slave ?p) 6" "deliverable (p_master ?p) 2"
    by (simp_all add: deliverable_def pic_new_def chip_default_def idle_candidates)
  ultimately show ?thesis
    using slave_line_delivered [of ?p 6] unfolding Let_def by (simp add: pic_new_def)
qed

text \<open>
  The initialisation sequence: the four command words, written to a chip's ports in any
  state, leave it initialised with the vector base and end-of-interrupt mode they carry,
  nothing masked, requested or in service, and the next data write sets the mask register.
\<close>

theorem icw_sequence_programs_chip:
  fixes icw1 icw2 icw3 icw4 imr :: u8
  assumes "icw1 AND 0x10 \<noteq> 0" "icw1 AND 1 \<noteq> 0"
    and "q = pic_write (data_port m) (ucast icw4) (pic_write (data_port m) (ucast icw3)
      (pic_write (data_port m) (ucast icw2) (pic_write (cmd_port m) (ucast icw1) p)))"
  shows "settings (chip_of m q) =
      (c_master (chip_of m p), icw2 AND 0xF8, icw4 AND 2 \<noteq> 0, 0, 0, 7,
       \<lparr>i_in_init = False, i_requires_4 = True, i_byte_expected = 4\<rparr>) \<and>
    c_irr (chip_of m q) = 0 \<and> \<not> c_int_pin (chip_of m q) \<and>
    c_imr (chip_of m (pic_write (data_port m) (ucast imr) q)) = imr"
proof -
  obtain c where 1: "chip_of m (write_cmd icw1 m p) =
      c\<lparr>c_init := \<lparr>i_in_init = True, i_requires_4 = True, i_byte_expected = 2\<rparr>,
       c_imr := 0, c_isr := 0, c_irr := 0, c_lowest_priority := 7, c_auto_eoi := False,
       c_rotate_on_autoeoi := False, c_int_pin := False\<rparr>" "c_master c = c_master (chip_of m p)"
    using chip_of_icw1 [OF assms(1), of m p] assms(2) by auto
  then have q: "chip_of m q = c\<lparr>c_init := \<lparr>i_in_init = False, i_requires_4 = True, i_byte_expected = 4\<rparr>,
       c_imr := 0, c_isr := 0, c_irr := 0, c_lowest_priority := 7, c_auto_eoi := icw4 AND 2 \<noteq> 0,
       c_rotate_on_autoeoi := False, c_int_pin := False, c_interrupt_offset := icw2 AND 0xF8,
       c_buffered_mode := icw4 AND 4 \<noteq> 0, c_master_slave := icw4 AND 8 \<noteq> 0, c_sfnm := icw4 AND 16 \<noteq> 0\<rparr>"
    unfolding assms(3) pic_write_ports by (simp add: chip_of_icw write_icw_def)
  moreover from q have "c_imr (chip_of m (write_data imr m q)) = imr"
    by (simp add: write_data_def)
  ultimately show ?thesis using 1(2) by (simp add: settings_def pic_write_ports)
qed

theorem icw_sequence_programs_chip_witness:
  "(0x11 :: u8) AND 0x10 \<noteq> 0 \<and> (0x11 :: u8) AND 1 \<noteq> 0 \<and>
   c_interrupt_offset (p_master (pic_write 0x21 1 (pic_write 0x21 4 (pic_write 0x21 0x20
     (pic_write 0x20 0x11 pic_new))))) = 0x20"
  using icw_sequence_programs_chip [of "0x11" _ True 1 4 "0x20" pic_new, OF _ _ refl]
  by (simp add: settings_def chip_of_def pic_ports)

end
