(* ===== verification/Mmio_Map.thy ===== *)
theory Mmio_Map
  imports Prelude
begin

text \<open>
  The table of memory-mapped I/O regions, after \<^verbatim>\<open>rusty_box/src/memory/mmio_map.rs\<close>: sixteen
  region slots, an occupancy bitmap of the megabytes below 4 GiB that the access path tests
  first, and the registration operations with Bochs's overlap rule on 64 KB sub-ranges.

  Physical addresses (\<^verbatim>\<open>BxPhyAddress\<close>, a \<^verbatim>\<open>u64\<close>) are natural numbers below \<open>2\<^sup>6\<^sup>4\<close>; the one
  address computation that can leave that range wraps explicitly. The operations that mutate
  the table and can fail answer both a result and the table they leave behind.
\<close>

section \<open>Regions and the table\<close>

type_synonym phys = nat

datatype memory_error = InvalidAddressRange | OverlappingHandlers | Internal string

record mmio_region =
  r_begin :: phys
  r_end :: phys
  r_token :: u16

record mmio_hit =
  h_token :: u16
  h_offset :: nat

definition MAX_DEVICE_MMIO_REGIONS :: nat where
  "MAX_DEVICE_MMIO_REGIONS = 16"

definition MAPPED_MEGABYTES :: nat where
  "MAPPED_MEGABYTES = 4096"

definition OCCUPANCY_WORDS :: nat where
  "OCCUPANCY_WORDS = MAPPED_MEGABYTES div 64"

lemmas mmio_sizes = MAX_DEVICE_MMIO_REGIONS_def MAPPED_MEGABYTES_def OCCUPANCY_WORDS_def

definition region_contains :: "phys \<Rightarrow> mmio_region \<Rightarrow> bool" where
  "region_contains addr r \<longleftrightarrow> r_begin r \<le> addr \<and> addr \<le> r_end r"

definition touches_page :: "nat \<Rightarrow> mmio_region \<Rightarrow> bool" where
  "touches_page page r \<longleftrightarrow>
     (let base = page * 2 ^ 20 in r_begin r \<le> base + 0xFFFFF \<and> r_end r \<ge> base)"

record mmio_map =
  m_regions :: "mmio_region option list"
  m_occupancy :: "u64 list"
  m_above_bitmap :: bool

definition mmio_new :: mmio_map where
  "mmio_new = \<lparr>m_regions = replicate MAX_DEVICE_MMIO_REGIONS None,
     m_occupancy = replicate OCCUPANCY_WORDS 0, m_above_bitmap = False\<rparr>"

text \<open>\<^verbatim>\<open>self.regions.iter().flatten()\<close>: the mapped regions in slot order.\<close>

definition flatten :: "'a option list \<Rightarrow> 'a list" where
  "flatten xs = map the (filter (\<lambda>x. x \<noteq> None) xs)"

definition mmio_regions :: "mmio_map \<Rightarrow> mmio_region list" where
  "mmio_regions m = flatten (m_regions m)"

definition mmio_len :: "mmio_map \<Rightarrow> nat" where
  "mmio_len m = length (mmio_regions m)"

section \<open>Lookup\<close>

definition mmio_find :: "phys \<Rightarrow> mmio_map \<Rightarrow> mmio_region option" where
  "mmio_find addr m =
     (let page = addr div 2 ^ 20 in
      if page < MAPPED_MEGABYTES
      then if m_occupancy m ! (page div 64) AND bitm (page mod 64) = 0 then None
           else find (region_contains addr) (mmio_regions m)
      else if \<not> m_above_bitmap m then None
      else find (region_contains addr) (mmio_regions m))"

definition mmio_lookup :: "phys \<Rightarrow> mmio_map \<Rightarrow> mmio_hit option" where
  "mmio_lookup addr m =
     map_option (\<lambda>r. \<lparr>h_token = r_token r, h_offset = addr - r_begin r\<rparr>) (mmio_find addr m)"

definition mmio_covers :: "phys \<Rightarrow> mmio_map \<Rightarrow> bool" where
  "mmio_covers addr m \<longleftrightarrow> mmio_find addr m \<noteq> None"

section \<open>The overlap rule\<close>

definition page_bitmap :: "nat \<Rightarrow> phys \<Rightarrow> phys \<Rightarrow> u16" where
  "page_bitmap page bgn fin =
     (let base = page * 2 ^ 20;
          b1 = (if bgn > base then 0xFFFF AND push_bit (bgn div 2 ^ 16 mod 16) 0xFFFF else 0xFFFF)
      in if fin < (base + 0x100000) mod 2 ^ 64
         then b1 AND drop_bit (0x0F - fin div 2 ^ 16 mod 16) 0xFFFF else b1)"

definition would_overlap ::
  "phys \<Rightarrow> phys \<Rightarrow> (phys \<times> phys \<times> u16) option \<Rightarrow> mmio_map \<Rightarrow> bool" where
  "would_overlap bgn fin ignoring m =
     list_ex (\<lambda>page.
        list_ex (\<lambda>r.
           ignoring \<noteq> Some (r_begin r, r_end r, r_token r) \<and> touches_page page r \<and>
           page_bitmap page bgn fin AND page_bitmap page (r_begin r) (r_end r) \<noteq> 0)
          (mmio_regions m))
       [bgn div 2 ^ 20..<Suc (fin div 2 ^ 20)]"

section \<open>Registration\<close>

definition set_page_bit :: "nat \<Rightarrow> u64 list \<Rightarrow> u64 list" where
  "set_page_bit page occ =
     (if page < MAPPED_MEGABYTES
      then occ[page div 64 := occ ! (page div 64) OR bitm (page mod 64)] else occ)"

definition reindex_region :: "mmio_region \<Rightarrow> mmio_map \<Rightarrow> mmio_map" where
  "reindex_region r m =
     (let first = r_begin r div 2 ^ 20; last = r_end r div 2 ^ 20 in
      m\<lparr>m_above_bitmap := (last \<ge> MAPPED_MEGABYTES \<or> m_above_bitmap m),
        m_occupancy := fold set_page_bit [first..<Suc (min last (MAPPED_MEGABYTES - 1))]
          (m_occupancy m)\<rparr>)"

definition reindex :: "mmio_map \<Rightarrow> mmio_map" where
  "reindex m =
     fold reindex_region (mmio_regions m)
       (m\<lparr>m_occupancy := replicate OCCUPANCY_WORDS 0, m_above_bitmap := False\<rparr>)"

text \<open>The first slot that satisfies a condition, as \<^verbatim>\<open>iter_mut().find\<close> gives it.\<close>

fun find_slot :: "('a \<Rightarrow> bool) \<Rightarrow> 'a list \<Rightarrow> nat option" where
  "find_slot P [] = None"
| "find_slot P (x # xs) = (if P x then Some 0 else map_option Suc (find_slot P xs))"

definition mmio_map_region :: "u16 \<Rightarrow> phys \<Rightarrow> phys \<Rightarrow> mmio_map \<Rightarrow> (memory_error + unit) \<times> mmio_map"
  where
  "mmio_map_region token bgn fin m =
     (if fin < bgn then (Inl InvalidAddressRange, m)
      else if would_overlap bgn fin None m then (Inl OverlappingHandlers, m)
      else case find_slot (\<lambda>s. s = None) (m_regions m) of
        None \<Rightarrow> (Inl (Internal ''MMIO region table exhausted''), m)
      | Some i \<Rightarrow>
          (Inr (), reindex (m\<lparr>m_regions := (m_regions m)
             [i := Some \<lparr>r_begin = bgn, r_end = fin, r_token = token\<rparr>]\<rparr>)))"

definition mmio_unmap_region :: "u16 \<Rightarrow> phys \<Rightarrow> phys \<Rightarrow> mmio_map \<Rightarrow> (memory_error + unit) \<times> mmio_map"
  where
  "mmio_unmap_region token bgn fin m =
     (if fin < bgn then (Inl InvalidAddressRange, m)
      else case find_slot
          (\<lambda>s. s = Some \<lparr>r_begin = bgn, r_end = fin, r_token = token\<rparr>) (m_regions m) of
        None \<Rightarrow> (Inr (), m)
      | Some i \<Rightarrow> (Inr (), reindex (m\<lparr>m_regions := (m_regions m)[i := None]\<rparr>)))"

definition bad_range :: "(phys \<times> phys) option \<Rightarrow> bool" where
  "bad_range r = (case r of None \<Rightarrow> False | Some (bgn, fin) \<Rightarrow> fin < bgn)"

definition mmio_relocate ::
  "u16 \<Rightarrow> (phys \<times> phys) option \<Rightarrow> (phys \<times> phys) option \<Rightarrow> mmio_map \<Rightarrow>
     (memory_error + unit) \<times> mmio_map" where
  "mmio_relocate token old new m =
     (if bad_range old \<or> bad_range new then (Inl InvalidAddressRange, m)
      else
        let blocked = (case new of
              None \<Rightarrow> None
            | Some (bgn, fin) \<Rightarrow>
                if would_overlap bgn fin (map_option (\<lambda>(b, e). (b, e, token)) old) m
                then Some OverlappingHandlers
                else if length (filter (\<lambda>s. s = None) (m_regions m)) +
                        (if old \<noteq> None then 1 else 0) = 0
                then Some (Internal ''MMIO region table exhausted'') else None)
        in case blocked of
          Some e \<Rightarrow> (Inl e, m)
        | None \<Rightarrow>
            (case (case old of None \<Rightarrow> (Inr (), m)
                   | Some (bgn, fin) \<Rightarrow> mmio_unmap_region token bgn fin m) of
               (Inl e, m1) \<Rightarrow> (Inl e, m1)
             | (Inr _, m1) \<Rightarrow>
                 (case new of None \<Rightarrow> (Inr (), m1)
                  | Some (bgn, fin) \<Rightarrow> mmio_map_region token bgn fin m1)))"

section \<open>The invariant\<close>

text \<open>The 64 KB sub-ranges a range touches: the currency of the overlap rule.\<close>

definition cells :: "phys \<Rightarrow> phys \<Rightarrow> nat set" where
  "cells bgn fin = {bgn div 2 ^ 16 .. fin div 2 ^ 16}"

abbreviation region_cells :: "mmio_region \<Rightarrow> nat set" where
  "region_cells r \<equiv> cells (r_begin r) (r_end r)"

definition region_ok :: "mmio_region \<Rightarrow> bool" where
  "region_ok r \<longleftrightarrow> r_begin r \<le> r_end r \<and> r_end r < 2 ^ 64"

definition slots_disjoint :: "mmio_region option list \<Rightarrow> bool" where
  "slots_disjoint xs \<longleftrightarrow>
     (\<forall>i j r s. i < length xs \<longrightarrow> j < length xs \<longrightarrow> i \<noteq> j \<longrightarrow> xs ! i = Some r \<longrightarrow> xs ! j = Some s \<longrightarrow>
        region_cells r \<inter> region_cells s = {})"

definition index_ok :: "mmio_map \<Rightarrow> bool" where
  "index_ok m \<longleftrightarrow>
     length (m_occupancy m) = OCCUPANCY_WORDS \<and>
     (\<forall>page < MAPPED_MEGABYTES. bit (m_occupancy m ! (page div 64)) (page mod 64) \<longleftrightarrow>
        (\<exists>r \<in> set (mmio_regions m). r_begin r div 2 ^ 20 \<le> page \<and> page \<le> r_end r div 2 ^ 20)) \<and>
     (m_above_bitmap m \<longleftrightarrow> (\<exists>r \<in> set (mmio_regions m). MAPPED_MEGABYTES \<le> r_end r div 2 ^ 20))"

definition mmio_inv :: "mmio_map \<Rightarrow> bool" where
  "mmio_inv m \<longleftrightarrow>
     length (m_regions m) = MAX_DEVICE_MMIO_REGIONS \<and>
     (\<forall>r \<in> set (mmio_regions m). region_ok r) \<and> slots_disjoint (m_regions m) \<and> index_ok m"

section \<open>The index answers like the table\<close>

lemma length_set_page_bit [simp]: "length (set_page_bit p occ) = length occ"
  by (simp add: set_page_bit_def)

lemma length_fold_pages [simp]: "length (fold set_page_bit ps occ) = length occ"
  by (induction ps arbitrary: occ) simp_all

lemma set_page_bit_iff:
  assumes "length occ = OCCUPANCY_WORDS" "p < MAPPED_MEGABYTES" "q < MAPPED_MEGABYTES"
  shows "bit (set_page_bit q occ ! (p div 64)) (p mod 64) \<longleftrightarrow>
     bit (occ ! (p div 64)) (p mod 64) \<or> p = q"
proof -
  have "p div 64 < length occ" using assms by (simp add: mmio_sizes less_mult_imp_div_less)
  moreover have "p div 64 = q div 64 \<and> p mod 64 = q mod 64 \<longleftrightarrow> p = q"
    by (metis mult_div_mod_eq)
  ultimately show ?thesis
    using assms(3) by (auto simp: set_page_bit_def nth_list_update_if bits)
qed

lemma fold_pages_iff:
  assumes "p < MAPPED_MEGABYTES"
  shows "length occ = OCCUPANCY_WORDS \<Longrightarrow> \<forall>q \<in> set ps. q < MAPPED_MEGABYTES \<Longrightarrow>
     bit (fold set_page_bit ps occ ! (p div 64)) (p mod 64) \<longleftrightarrow>
       bit (occ ! (p div 64)) (p mod 64) \<or> p \<in> set ps"
  by (induction ps arbitrary: occ) (auto simp: set_page_bit_iff [OF _ assms])

lemma reindex_region_frame [simp]: "m_regions (reindex_region r m) = m_regions m"
  by (simp add: reindex_region_def Let_def)

lemma reindex_region_iff:
  assumes "length (m_occupancy m) = OCCUPANCY_WORDS" "p < MAPPED_MEGABYTES"
  shows "length (m_occupancy (reindex_region r m)) = OCCUPANCY_WORDS \<and>
    (bit (m_occupancy (reindex_region r m) ! (p div 64)) (p mod 64) \<longleftrightarrow>
       bit (m_occupancy m ! (p div 64)) (p mod 64) \<or>
       (r_begin r div 2 ^ 20 \<le> p \<and> p \<le> r_end r div 2 ^ 20))"
proof -
  let ?ps = "[r_begin r div 2 ^ 20..<Suc (min (r_end r div 2 ^ 20) (MAPPED_MEGABYTES - 1))]"
  have "\<forall>q \<in> set ?ps. q < MAPPED_MEGABYTES" by (auto simp: mmio_sizes)
  moreover have "p \<in> set ?ps \<longleftrightarrow> r_begin r div 2 ^ 20 \<le> p \<and> p \<le> r_end r div 2 ^ 20"
    using assms(2) by (auto simp: mmio_sizes)
  ultimately show ?thesis
    using assms fold_pages_iff [OF assms(2), of "m_occupancy m" ?ps]
    by (simp add: reindex_region_def Let_def del: upt_Suc)
qed

lemma fold_reindex:
  assumes "length (m_occupancy m) = OCCUPANCY_WORDS"
  shows "m_regions (fold reindex_region rs m) = m_regions m \<and>
    length (m_occupancy (fold reindex_region rs m)) = OCCUPANCY_WORDS \<and>
    (\<forall>p < MAPPED_MEGABYTES. bit (m_occupancy (fold reindex_region rs m) ! (p div 64)) (p mod 64) \<longleftrightarrow>
       bit (m_occupancy m ! (p div 64)) (p mod 64) \<or>
       (\<exists>r \<in> set rs. r_begin r div 2 ^ 20 \<le> p \<and> p \<le> r_end r div 2 ^ 20)) \<and>
    (m_above_bitmap (fold reindex_region rs m) \<longleftrightarrow>
       m_above_bitmap m \<or> (\<exists>r \<in> set rs. MAPPED_MEGABYTES \<le> r_end r div 2 ^ 20))"
  using assms
proof (induction rs arbitrary: m)
  case (Cons r rs)
  have len: "length (m_occupancy (reindex_region r m)) = OCCUPANCY_WORDS"
    using Cons.prems by (simp add: reindex_region_def Let_def del: upt_Suc)
  have above: "m_above_bitmap (reindex_region r m) \<longleftrightarrow>
      MAPPED_MEGABYTES \<le> r_end r div 2 ^ 20 \<or> m_above_bitmap m"
    by (simp add: reindex_region_def Let_def)
  show ?case
    using Cons.IH [OF len] reindex_region_iff [OF Cons.prems, of _ r] above by auto
qed simp

lemma regions_reindex [simp]: "m_regions (reindex m) = m_regions m"
  using fold_reindex [of "m\<lparr>m_occupancy := replicate OCCUPANCY_WORDS 0, m_above_bitmap := False\<rparr>"]
  by (simp add: reindex_def)

lemma mmio_regions_reindex [simp]: "mmio_regions (reindex m) = mmio_regions m"
  by (simp add: mmio_regions_def)

lemma reindex_ok: "index_ok (reindex m)"
proof -
  let ?m = "m\<lparr>m_occupancy := replicate OCCUPANCY_WORDS 0, m_above_bitmap := False\<rparr>"
  have z: "\<not> bit (replicate OCCUPANCY_WORDS (0 :: u64) ! (p div 64)) (p mod 64)"
    if "p < MAPPED_MEGABYTES" for p
    using that by (simp add: mmio_sizes less_mult_imp_div_less)
  have "reindex m = fold reindex_region (mmio_regions m) ?m" by (simp add: reindex_def)
  then show ?thesis
    unfolding index_ok_def mmio_regions_reindex
    using fold_reindex [of ?m "mmio_regions m"] z by simp
qed

lemma page_of_address:
  "region_contains addr r \<Longrightarrow>
     r_begin r div 2 ^ 20 \<le> addr div 2 ^ 20 \<and> addr div 2 ^ 20 \<le> r_end r div 2 ^ 20"
  by (auto simp: region_contains_def intro: div_le_mono)

lemma mmio_find_scan:
  assumes "index_ok m"
  shows "mmio_find addr m = find (region_contains addr) (mmio_regions m)"
proof (cases "find (region_contains addr) (mmio_regions m)")
  case (Some r)
  then have "r \<in> set (mmio_regions m)" "region_contains addr r" by (auto simp: find_Some_iff)
  then show ?thesis
    using assms page_of_address [of addr r] Some order_trans
    by (fastforce simp: mmio_find_def Let_def index_ok_def bits)
qed (simp add: mmio_find_def Let_def)

section \<open>The overlap rule is sharing a sub-range\<close>

lemma bit_ones: "bit (0xFFFF :: u16) n \<longleftrightarrow> n < 16"
  using bit_mask_iff [of 16 n, where ?'a = u16] by (simp add: mask_eq_exp_minus_1)

lemma bit_shifted_ones:
  "k < 16 \<Longrightarrow> bit (push_bit x (0xFFFF :: u16)) k \<longleftrightarrow> x \<le> k"
  "k < 16 \<Longrightarrow> y < 16 \<Longrightarrow> bit (drop_bit (15 - y) (0xFFFF :: u16)) k \<longleftrightarrow> k \<le> y"
  by (simp_all only: bit_push_bit_iff bit_drop_bit_eq o_apply bit_ones) auto

lemma bit_page_bitmap_iff:
  assumes "k < 16"
  shows "bit (page_bitmap page bgn fin) k \<longleftrightarrow>
    (page * 2 ^ 20 < bgn \<longrightarrow> bgn div 2 ^ 16 mod 16 \<le> k) \<and>
    (fin < (page * 2 ^ 20 + 0x100000) mod 2 ^ 64 \<longrightarrow> k \<le> fin div 2 ^ 16 mod 16)"
proof -
  have "fin div 2 ^ 16 mod 16 < 16" by simp
  note bits = bit_ones bit_and_iff bit_shifted_ones(1) [OF assms]
    bit_shifted_ones(2) [OF assms this]
  show ?thesis
    unfolding page_bitmap_def Let_def
    by (cases "page * 2 ^ 20 < bgn"; cases "fin < (page * 2 ^ 20 + 0x100000) mod 2 ^ 64")
      (simp_all only: bits assms if_True if_False simp_thms)
qed

lemma div_sub_range: "x div 2 ^ 20 = x div 2 ^ 16 div 16" for x :: nat
  by (simp flip: div_mult2_eq)

lemma above_page_start: "page * 2 ^ 20 < x \<Longrightarrow> page * 16 \<le> x div 2 ^ 16" for x :: nat
  by (rule order_trans [OF _ div_le_mono [of "page * 2 ^ 20"]]) simp_all

lemma below_page_start: "\<not> page * 2 ^ 20 < x \<Longrightarrow> x div 2 ^ 16 \<le> page * 16" for x :: nat
  by (rule order_trans [OF div_le_mono [of _ "page * 2 ^ 20"]]) simp_all

lemma before_page_end: "x < page * 2 ^ 20 + 2 ^ 20 \<longleftrightarrow> x div 2 ^ 16 < page * 16 + 16" for x :: nat
  using div_less_iff_less_mult [of "2 ^ 16" x "page * 16 + 16"] by (simp add: algebra_simps)

lemma sub_range_lower:
  fixes page bgn k :: nat
  assumes "bgn div 2 ^ 20 \<le> page" "k < 16"
  shows "bgn div 2 ^ 16 \<le> page * 16 + k \<longleftrightarrow> (page * 2 ^ 20 < bgn \<longrightarrow> bgn div 2 ^ 16 mod 16 \<le> k)"
proof (cases "page * 2 ^ 20 < bgn")
  case True
  from above_page_start [OF True] have "page \<le> bgn div 2 ^ 16 div 16"
    using div_le_mono [of "page * 16" "bgn div 2 ^ 16" 16] by simp
  then have "bgn div 2 ^ 16 div 16 = page" using assms(1) unfolding div_sub_range by simp
  then have "bgn div 2 ^ 16 = page * 16 + bgn div 2 ^ 16 mod 16"
    by (metis div_mult_mod_eq)
  then show ?thesis using True by linarith
next
  case False
  with below_page_start [OF False] show ?thesis by linarith
qed

lemma sub_range_upper:
  fixes page fin k :: nat
  assumes "page \<le> fin div 2 ^ 20" "k < 16"
  shows "page * 16 + k \<le> fin div 2 ^ 16 \<longleftrightarrow>
    (fin < page * 2 ^ 20 + 2 ^ 20 \<longrightarrow> k \<le> fin div 2 ^ 16 mod 16)"
proof (cases "fin div 2 ^ 16 < page * 16 + 16")
  case True
  then have "fin div 2 ^ 16 div 16 < Suc page"
    using div_less_iff_less_mult [of 16 "fin div 2 ^ 16" "Suc page"] by simp
  then have "fin div 2 ^ 16 div 16 = page" using assms(1) unfolding div_sub_range by simp
  then have "fin div 2 ^ 16 = page * 16 + fin div 2 ^ 16 mod 16"
    by (metis div_mult_mod_eq)
  then show ?thesis unfolding before_page_end using True by linarith
next
  case False
  then show ?thesis unfolding before_page_end using assms(2) by linarith
qed

lemma sub_range_bit:
  assumes "bgn div 2 ^ 20 \<le> page" "page \<le> fin div 2 ^ 20" "k < 16"
  shows "page * 16 + k \<in> cells bgn fin \<longleftrightarrow>
    (page * 2 ^ 20 < bgn \<longrightarrow> bgn div 2 ^ 16 mod 16 \<le> k) \<and>
    (fin < page * 2 ^ 20 + 2 ^ 20 \<longrightarrow> k \<le> fin div 2 ^ 16 mod 16)"
  unfolding cells_def atLeastAtMost_iff sub_range_lower [OF assms(1,3)] sub_range_upper [OF assms(2,3)] ..

lemma page_bitmap_covers:
  assumes "bgn div 2 ^ 20 \<le> page" "page \<le> fin div 2 ^ 20" "k < 16" "page < 2 ^ 44"
    and "page * 16 + k \<in> cells bgn fin"
  shows "bit (page_bitmap page bgn fin) k"
proof -
  have "fin < (page * 2 ^ 20 + 0x100000) mod 2 ^ 64 \<Longrightarrow> fin < page * 2 ^ 20 + 2 ^ 20"
    using mod_less_eq_dividend [of "page * 2 ^ 20 + 0x100000" "2 ^ 64"] by simp
  then show ?thesis
    using assms(5) unfolding sub_range_bit [OF assms(1-3)] bit_page_bitmap_iff [OF assms(3)] by blast
qed

lemma page_bitmap_exact:
  assumes "bgn div 2 ^ 20 \<le> page" "page \<le> fin div 2 ^ 20" "k < 16" "Suc page < 2 ^ 44"
  shows "bit (page_bitmap page bgn fin) k \<longleftrightarrow> page * 16 + k \<in> cells bgn fin"
proof -
  have "(page * 2 ^ 20 + 0x100000) mod 2 ^ 64 = page * 2 ^ 20 + (2 ^ 20 :: nat)"
    using assms(4) by simp
  then show ?thesis
    unfolding sub_range_bit [OF assms(1-3)] bit_page_bitmap_iff [OF assms(3)] by simp
qed

lemma touches_page_iff:
  "touches_page page r \<longleftrightarrow> r_begin r div 2 ^ 20 \<le> page \<and> page \<le> r_end r div 2 ^ 20"
proof -
  have "r_begin r \<le> page * 2 ^ 20 + 0xFFFFF \<longleftrightarrow> r_begin r < Suc page * 2 ^ 20" by auto
  moreover have "page * 2 ^ 20 \<le> r_end r \<longleftrightarrow> page \<le> r_end r div 2 ^ 20"
    by (simp add: less_eq_div_iff_mult_less_eq)
  ultimately show ?thesis
    using div_less_iff_less_mult [of "2 ^ 20" "r_begin r" "Suc page"]
    by (simp add: touches_page_def Let_def less_Suc_eq_le)
qed

lemma cell_page: "c \<in> cells bgn fin \<Longrightarrow> bgn div 2 ^ 20 \<le> c div 16 \<and> c div 16 \<le> fin div 2 ^ 20"
  unfolding div_sub_range cells_def by (auto intro: div_le_mono)

lemma would_overlap_complete:
  assumes "fin < 2 ^ 64" "r \<in> set (mmio_regions m)"
    and "ign \<noteq> Some (r_begin r, r_end r, r_token r)" "cells bgn fin \<inter> region_cells r \<noteq> {}"
  shows "would_overlap bgn fin ign m"
proof -
  from assms(4) obtain c where c: "c \<in> cells bgn fin" "c \<in> region_cells r" by blast
  define page k where "page = c div 16" and "k = c mod 16"
  have ck: "c = page * 16 + k" "k < 16" by (simp_all add: page_def k_def)
  have p: "bgn div 2 ^ 20 \<le> page" "page \<le> fin div 2 ^ 20"
    "r_begin r div 2 ^ 20 \<le> page" "page \<le> r_end r div 2 ^ 20"
    using cell_page c unfolding page_def by blast+
  have "fin div 2 ^ 20 < 2 ^ 44" using assms(1) by (simp add: div_less_iff_less_mult)
  with p(2) have "page < 2 ^ 44" by linarith
  then have "bit (page_bitmap page bgn fin AND page_bitmap page (r_begin r) (r_end r)) k"
    using p ck c by (simp only: bit_and_iff page_bitmap_covers simp_thms)
  then have "page_bitmap page bgn fin AND page_bitmap page (r_begin r) (r_end r) \<noteq> 0" by auto
  moreover have "touches_page page r" using p by (simp add: touches_page_iff)
  ultimately show ?thesis
    unfolding would_overlap_def list_ex_iff using assms(2,3) p
    by (intro bexI [of _ page] bexI [of _ r]) auto
qed

lemma would_overlap_sound:
  assumes "would_overlap bgn fin ign m" "fin < 2 ^ 64 - 2 ^ 20"
  obtains r where "r \<in> set (mmio_regions m)" "ign \<noteq> Some (r_begin r, r_end r, r_token r)"
    "cells bgn fin \<inter> region_cells r \<noteq> {}"
proof -
  from assms(1) obtain page r where pr: "page \<in> set [bgn div 2 ^ 20..<Suc (fin div 2 ^ 20)]"
      "r \<in> set (mmio_regions m)" "ign \<noteq> Some (r_begin r, r_end r, r_token r)"
      "touches_page page r"
      "page_bitmap page bgn fin AND page_bitmap page (r_begin r) (r_end r) \<noteq> 0"
    unfolding would_overlap_def list_ex_iff by blast
  from pr(5) obtain k where k: "k < 16" "bit (page_bitmap page bgn fin) k"
      "bit (page_bitmap page (r_begin r) (r_end r)) k"
    by (auto simp: word_nonzero_bit bit_and_iff)
  have "fin div 2 ^ 20 < 2 ^ 44 - 1" using assms(2) by (simp add: div_less_iff_less_mult)
  with pr(1) have "Suc page < 2 ^ 44" by auto
  with pr(1,4) k have "page * 16 + k \<in> cells bgn fin \<inter> region_cells r"
    unfolding touches_page_iff by (auto simp: page_bitmap_exact simp del: upt_Suc)
  with pr(2,3) that show thesis by blast
qed

section \<open>Slots\<close>

lemma find_slot_Some: "find_slot P xs = Some i \<Longrightarrow> i < length xs \<and> P (xs ! i)"
  by (induction xs arbitrary: i) (auto split: if_splits)

lemma find_slot_None: "find_slot P xs = None \<longleftrightarrow> (\<forall>x \<in> set xs. \<not> P x)"
  by (induction xs) auto

lemma in_flatten: "r \<in> set (flatten xs) \<longleftrightarrow> (\<exists>i < length xs. xs ! i = Some r)"
proof -
  have "r \<in> set (flatten xs) \<longleftrightarrow> Some r \<in> set xs" by (force simp: flatten_def)
  then show ?thesis by (auto simp: in_set_conv_nth)
qed

lemma in_flatten_update:
  assumes "i < length xs"
  shows "s \<in> set (flatten (xs[i := v])) \<longleftrightarrow> v = Some s \<or> (\<exists>j < length xs. j \<noteq> i \<and> xs ! j = Some s)"
  unfolding in_flatten length_list_update using assms
  by (metis nth_list_update_eq nth_list_update_neq)

lemma flatten_fill:
  assumes "i < length xs" "xs ! i = None"
  shows "set (flatten (xs[i := Some r])) = insert r (set (flatten xs))"
proof -
  have "s \<in> set (flatten (xs[i := Some r])) \<longleftrightarrow> s = r \<or> s \<in> set (flatten xs)" for s
    unfolding in_flatten_update [OF assms(1)] unfolding in_flatten using assms(2) by fastforce
  then show ?thesis by blast
qed

lemma length_flatten: "length (flatten xs) + length (filter (\<lambda>x. x = None) xs) = length xs"
  by (induction xs) (auto simp: flatten_def)

lemma region_cells_nonempty: "region_ok r \<Longrightarrow> r_begin r div 2 ^ 16 \<in> region_cells r"
  by (simp add: region_ok_def cells_def div_le_mono)

lemma contains_cell: "region_contains a r \<Longrightarrow> a div 2 ^ 16 \<in> region_cells r"
  by (simp add: region_contains_def cells_def div_le_mono)

lemma flatten_clear:
  assumes "slots_disjoint xs" "\<forall>r \<in> set (flatten xs). region_ok r" "i < length xs" "xs ! i = Some r"
  shows "set (flatten (xs[i := None])) = set (flatten xs) - {r}"
proof -
  have "r \<in> set (flatten xs)" using assms(3,4) by (auto simp: in_flatten)
  with assms(2) have "region_cells r \<noteq> {}" using region_cells_nonempty by blast
  with assms(1,3,4) have "j = i" if "j < length xs" "xs ! j = Some r" for j
    using that unfolding slots_disjoint_def by (metis inf.idem)
  then have "s \<in> set (flatten (xs[i := None])) \<longleftrightarrow> s \<in> set (flatten xs) \<and> s \<noteq> r" for s
    unfolding in_flatten_update [OF assms(3)] unfolding in_flatten using assms(4) by fastforce
  then show ?thesis by blast
qed

lemma region_unique:
  assumes "mmio_inv m" "r \<in> set (mmio_regions m)" "s \<in> set (mmio_regions m)"
    and "region_cells r \<inter> region_cells s \<noteq> {}"
  shows "r = s"
  using assms unfolding mmio_inv_def mmio_regions_def in_flatten slots_disjoint_def
  by (metis option.inject)

lemma find_unique:
  "\<forall>r \<in> set xs. \<forall>s \<in> set xs. P r \<longrightarrow> P s \<longrightarrow> r = s \<Longrightarrow> find P xs = Some r \<longleftrightarrow> r \<in> set xs \<and> P r"
  by (induction xs) auto

lemma mmio_find_iff:
  assumes "mmio_inv m"
  shows "mmio_find a m = Some r \<longleftrightarrow> r \<in> set (mmio_regions m) \<and> region_contains a r"
proof -
  have "index_ok m" using assms by (simp add: mmio_inv_def)
  moreover have "r = s" if "r \<in> set (mmio_regions m)" "s \<in> set (mmio_regions m)"
      "region_contains a r" "region_contains a s" for r s
    using region_unique [OF assms that(1,2)] contains_cell that(3,4) by blast
  ultimately show ?thesis
    using find_unique [of "mmio_regions m" "region_contains a"] by (simp add: mmio_find_scan)
qed

lemma mmio_lookup_iff:
  assumes "mmio_inv m"
  shows "mmio_lookup a m = Some h \<longleftrightarrow> (\<exists>r \<in> set (mmio_regions m). region_contains a r \<and>
     h = \<lparr>h_token = r_token r, h_offset = a - r_begin r\<rparr>)"
  using mmio_find_iff [OF assms] by (auto simp: mmio_lookup_def)

lemma lookup_eqI:
  assumes "mmio_inv m" "mmio_inv m'"
    and "\<And>r. region_contains a r \<Longrightarrow> r \<in> set (mmio_regions m) \<longleftrightarrow> r \<in> set (mmio_regions m')"
  shows "mmio_lookup a m = mmio_lookup a m'"
proof (rule option.expand)
  have "mmio_lookup a m = Some h \<longleftrightarrow> mmio_lookup a m' = Some h" for h
    using assms(3) unfolding mmio_lookup_iff [OF assms(1)] mmio_lookup_iff [OF assms(2)] by blast
  then show "(mmio_lookup a m = None) = (mmio_lookup a m' = None)"
    "\<lbrakk>mmio_lookup a m \<noteq> None; mmio_lookup a m' \<noteq> None\<rbrakk> \<Longrightarrow>
       the (mmio_lookup a m) = the (mmio_lookup a m')"
    by (metis option.exhaust option.discI, metis option.exhaust_sel)
qed

section \<open>Registration keeps the invariant\<close>

abbreviation region :: "u16 \<Rightarrow> phys \<Rightarrow> phys \<Rightarrow> mmio_region" where
  "region token bgn fin \<equiv> \<lparr>r_begin = bgn, r_end = fin, r_token = token\<rparr>"

lemma map_region_cases:
  assumes "mmio_inv m" "fin < 2 ^ 64" "mmio_map_region token bgn fin m = (res, m')"
  shows "case res of
      Inl e \<Rightarrow> m' = m
    | Inr _ \<Rightarrow> bgn \<le> fin \<and> mmio_inv m' \<and> region token bgn fin \<notin> set (mmio_regions m) \<and>
        set (mmio_regions m') = insert (region token bgn fin) (set (mmio_regions m))"
proof (cases res)
  case (Inr u)
  let ?r = "region token bgn fin"
  from assms(3) Inr obtain i where le: "bgn \<le> fin" and ov: "\<not> would_overlap bgn fin None m"
    and i: "find_slot (\<lambda>s. s = None) (m_regions m) = Some i"
    and m': "m' = reindex (m\<lparr>m_regions := (m_regions m)[i := Some ?r]\<rparr>)"
    by (auto simp: mmio_map_region_def split: if_splits option.splits)
  from find_slot_Some [OF i] have slot: "i < length (m_regions m)" "m_regions m ! i = None" by auto
  have set': "set (mmio_regions m') = insert ?r (set (mmio_regions m))"
    using flatten_fill [OF slot, of ?r] by (simp add: m' mmio_regions_def)
  have ok: "region_ok ?r" using le assms(2) by (simp add: region_ok_def)
  have free: "cells bgn fin \<inter> region_cells s = {}" if "s \<in> set (mmio_regions m)" for s
    using would_overlap_complete [OF assms(2) that, of None bgn] ov by auto
  then have new: "?r \<notin> set (mmio_regions m)" using region_cells_nonempty [OF ok] by fastforce
  have "slots_disjoint (m_regions m')"
    using assms(1) free slot unfolding m' slots_disjoint_def mmio_inv_def
    by (auto simp: nth_list_update_if mmio_regions_def in_flatten Int_commute split: if_splits)
  then have "mmio_inv m'"
    using assms(1) set' ok by (simp add: mmio_inv_def m' reindex_ok)
  with Inr le set' new show ?thesis by simp
qed (use assms(3) in \<open>auto simp: mmio_map_region_def split: if_splits option.splits\<close>)

lemma unmap_region_cases:
  assumes "mmio_inv m" "mmio_unmap_region token bgn fin m = (res, m')"
  shows "case res of
      Inl e \<Rightarrow> m' = m \<and> fin < bgn
    | Inr _ \<Rightarrow> mmio_inv m' \<and> set (mmio_regions m') = set (mmio_regions m) - {region token bgn fin} \<and>
        (region token bgn fin \<notin> set (mmio_regions m) \<longrightarrow> m' = m) \<and>
        (region token bgn fin \<in> set (mmio_regions m) \<longrightarrow> None \<in> set (m_regions m'))"
proof (cases "fin < bgn")
  case True
  then show ?thesis using assms(2) by (auto simp: mmio_unmap_region_def)
next
  case False
  let ?r = "region token bgn fin"
  show ?thesis
  proof (cases "find_slot (\<lambda>s. s = Some ?r) (m_regions m)")
    case None
    then have "\<forall>x \<in> set (m_regions m). x \<noteq> Some ?r" unfolding find_slot_None .
    then have "?r \<notin> set (mmio_regions m)"
      unfolding mmio_regions_def in_flatten using nth_mem by blast
    moreover from None False assms(2) have "res = Inr ()" "m' = m"
      by (simp_all add: mmio_unmap_region_def)
    ultimately show ?thesis using assms(1) by simp
  next
    case (Some i)
    from find_slot_Some [OF Some] have i: "i < length (m_regions m)" "m_regions m ! i = Some ?r"
      by auto
    from Some False assms(2) have r: "res = Inr ()"
      and m': "m' = reindex (m\<lparr>m_regions := (m_regions m)[i := None]\<rparr>)"
      by (simp_all add: mmio_unmap_region_def)
    have set': "set (mmio_regions m') = set (mmio_regions m) - {?r}"
      using flatten_clear [OF _ _ i] assms(1) by (simp add: m' mmio_regions_def mmio_inv_def)
    have "slots_disjoint (m_regions m')"
      using assms(1) i(1) unfolding m' slots_disjoint_def mmio_inv_def
      by (auto simp: nth_list_update_if split: if_splits)
    then have "mmio_inv m'" using assms(1) set' by (simp add: mmio_inv_def m' reindex_ok)
    moreover have "?r \<in> set (mmio_regions m)" using i by (auto simp: mmio_regions_def in_flatten)
    moreover have "None \<in> set (m_regions m')" using i(1) by (simp add: m' set_update_memI)
    ultimately show ?thesis using r set' by simp
  qed
qed

lemma mmio_new_inv: "mmio_inv mmio_new"
proof -
  have "mmio_regions mmio_new = []"
    by (simp add: mmio_regions_def mmio_new_def flatten_def)
  moreover have "index_ok mmio_new"
    unfolding index_ok_def calculation by (simp add: mmio_new_def mmio_sizes less_mult_imp_div_less)
  ultimately show ?thesis
    by (simp add: mmio_inv_def slots_disjoint_def) (simp add: mmio_new_def)
qed

section \<open>Relocation\<close>

lemma overlap_ignoring:
  assumes "set (mmio_regions m1) = set (mmio_regions m) - {region t b e}"
  shows "would_overlap bgn fin None m1 = would_overlap bgn fin (Some (b, e, t)) m"
proof -
  have "(b, e, t) \<noteq> (r_begin r, r_end r, r_token r) \<longleftrightarrow> r \<noteq> region t b e" for r :: mmio_region
    by (cases r) auto
  then show ?thesis using assms unfolding would_overlap_def list_ex_iff by auto
qed

lemma map_region_succeeds:
  assumes "bgn \<le> fin" "\<not> would_overlap bgn fin None m" "None \<in> set (m_regions m)"
  shows "fst (mmio_map_region token bgn fin m) = Inr ()"
  using assms find_slot_None [of "\<lambda>s. s = None" "m_regions m"]
  by (auto simp: mmio_map_region_def split: option.splits)

definition old_set :: "u16 \<Rightarrow> (phys \<times> phys) option \<Rightarrow> mmio_region set" where
  "old_set t r = (case r of None \<Rightarrow> {} | Some (b, e) \<Rightarrow> {region t b e})"

lemma vacate:
  assumes "mmio_inv m" "\<not> bad_range old"
  obtains m1 where
    "(case old of None \<Rightarrow> (Inr (), m) | Some (b, e) \<Rightarrow> mmio_unmap_region t b e m) = (Inr (), m1)"
    "mmio_inv m1" "set (mmio_regions m1) = set (mmio_regions m) - old_set t old"
    "m1 = m \<or> None \<in> set (m_regions m1)"
proof (cases old)
  case None
  with that assms(1) show thesis by (simp add: old_set_def)
next
  case (Some be)
  obtain b e where be: "be = (b, e)" by (cases be)
  obtain res m1 where u: "mmio_unmap_region t b e m = (res, m1)"
    by (cases "mmio_unmap_region t b e m")
  from unmap_region_cases [OF assms(1) u] assms(2) Some be have "res = Inr ()"
    by (cases res) (simp_all add: bad_range_def)
  with unmap_region_cases [OF assms(1) u] u Some be that [of m1] show thesis
    by (auto simp: old_set_def)
qed

lemma overlap_vacated:
  assumes "set (mmio_regions m1) = set (mmio_regions m) - old_set t old"
  shows "would_overlap b e None m1 = would_overlap b e (map_option (\<lambda>(b, e). (b, e, t)) old) m"
proof (cases old)
  case None
  then show ?thesis using assms by (simp add: would_overlap_def list_ex_iff old_set_def)
next
  case (Some be)
  then show ?thesis using assms overlap_ignoring [of m1 m, where t = t]
    by (cases be) (simp add: old_set_def)
qed

lemma relocate_cases:
  assumes inv: "mmio_inv m" and fits: "\<And>b f. new = Some (b, f) \<Longrightarrow> f < 2 ^ 64"
    and rel: "mmio_relocate t old new m = (res, m')"
  shows "case res of
      Inl e \<Rightarrow> m' = m
    | Inr _ \<Rightarrow> mmio_inv m' \<and>
        set (mmio_regions m') = set (mmio_regions m) - old_set t old \<union> old_set t new"
proof (cases "bad_range old \<or> bad_range new")
  case True
  then show ?thesis using rel by (auto simp: mmio_relocate_def)
next
  case False
  then obtain m1 where m1: "(case old of None \<Rightarrow> (Inr (), m)
        | Some (b, e) \<Rightarrow> mmio_unmap_region t b e m) = (Inr (), m1)"
    and i1: "mmio_inv m1" and s1: "set (mmio_regions m1) = set (mmio_regions m) - old_set t old"
    and free: "m1 = m \<or> None \<in> set (m_regions m1)"
    using vacate [OF inv] by blast
  show ?thesis
  proof (cases new)
    case None
    with rel False m1 have "res = Inr ()" "m' = m1" by (auto simp: mmio_relocate_def)
    with i1 s1 None show ?thesis by (simp add: old_set_def)
  next
    case (Some be)
    obtain b e where be: "new = Some (b, e)" using Some by (cases be) simp
    show ?thesis
    proof (cases "res = Inr () \<and> mmio_map_region t b e m1 = (Inr (), m')")
      case True
      with map_region_cases [OF i1 fits [OF be], of t b "Inr ()" m'] s1 be show ?thesis
        by (simp add: old_set_def)
    next
      case refused: False
      have "m' = m \<and> (\<exists>x. res = Inl x)"
      proof (cases "would_overlap b e (map_option (\<lambda>(b, e). (b, e, t)) old) m \<or>
          length (filter (\<lambda>s. s = None) (m_regions m)) + (if old \<noteq> None then 1 else 0) = 0")
        case True
        with rel False be show ?thesis by (auto simp: mmio_relocate_def split: if_splits)
      next
        case checked: False
        with rel False be m1 have mp: "mmio_map_region t b e m1 = (res, m')"
          by (cases old) (simp_all add: mmio_relocate_def)
        with refused have "res \<noteq> Inr ()" by auto
        moreover from this have "m' = m1"
          using map_region_cases [OF i1 fits [OF be] mp] by (cases res) simp_all
        moreover have "m1 = m"
          using free map_region_succeeds [of b e m1 t] overlap_vacated [OF s1, of b e] checked False
            be mp \<open>res \<noteq> Inr ()\<close> by (auto simp: bad_range_def)
        ultimately show ?thesis by (cases res) simp_all
      qed
      then show ?thesis by auto
    qed
  qed
qed

section \<open>The contract of a window table\<close>

text \<open>
  What a device that owns a window relies on: a successful registration makes exactly its own
  addresses answer with its token and offset, removing it makes them silent again, and a
  refused registration changes nothing.
\<close>

locale window_table =
  fixes inv :: "'m \<Rightarrow> bool"
    and look :: "phys \<Rightarrow> 'm \<Rightarrow> mmio_hit option"
    and mapped :: "u16 \<Rightarrow> phys \<Rightarrow> phys \<Rightarrow> 'm \<Rightarrow> bool"
    and enter :: "u16 \<Rightarrow> phys \<Rightarrow> phys \<Rightarrow> 'm \<Rightarrow> (memory_error + unit) \<times> 'm"
    and remove :: "u16 \<Rightarrow> phys \<Rightarrow> phys \<Rightarrow> 'm \<Rightarrow> (memory_error + unit) \<times> 'm"
  assumes enter_refused: "inv m \<Longrightarrow> e < 2 ^ 64 \<Longrightarrow> enter t b e m = (Inl err, m') \<Longrightarrow> m' = m"
    and enter_done: "inv m \<Longrightarrow> e < 2 ^ 64 \<Longrightarrow> enter t b e m = (Inr (), m') \<Longrightarrow>
      b \<le> e \<and> inv m' \<and> mapped t b e m' \<and>
      look a m' = (if b \<le> a \<and> a \<le> e then Some \<lparr>h_token = t, h_offset = a - b\<rparr> else look a m)"
    and remove_done: "inv m \<Longrightarrow> mapped t b e m \<Longrightarrow> b \<le> e \<Longrightarrow>
      \<exists>m'. remove t b e m = (Inr (), m') \<and> inv m' \<and>
        (\<forall>a. look a m' = (if b \<le> a \<and> a \<le> e then None else look a m))"
begin

lemma enter_then_remove:
  assumes "inv m" "e < 2 ^ 64" "enter t b e m = (Inr (), m1)" "\<And>a. b \<le> a \<Longrightarrow> a \<le> e \<Longrightarrow> look a m = None"
  shows "\<exists>m2. remove t b e m1 = (Inr (), m2) \<and> inv m2 \<and> (\<forall>a. look a m2 = look a m)"
proof -
  from enter_done [OF assms(1-3)] have "b \<le> e" "inv m1" "mapped t b e m1" by blast+
  then obtain m2 where "remove t b e m1 = (Inr (), m2)" "inv m2"
    "\<And>a. look a m2 = (if b \<le> a \<and> a \<le> e then None else look a m1)"
    using remove_done by blast
  then show ?thesis using enter_done [OF assms(1-3)] assms(4) by auto
qed

lemma move_window:
  assumes "inv m" "mapped t b e m" "b \<le> e" "remove t b e m = (Inr (), m1)"
    and "e' < 2 ^ 64" "enter t' b' e' m1 = (Inr (), m2)"
  shows "inv m2 \<and> look a m2 =
     (if b' \<le> a \<and> a \<le> e' then Some \<lparr>h_token = t', h_offset = a - b'\<rparr>
      else if b \<le> a \<and> a \<le> e then None else look a m)"
proof -
  have m1: "inv m1" "\<And>a. look a m1 = (if b \<le> a \<and> a \<le> e then None else look a m)"
    using remove_done [OF assms(1-3)] assms(4) by auto
  with enter_done [OF m1(1) assms(5,6)] show ?thesis by simp
qed

end

section \<open>The table keeps the contract\<close>

definition mmio_mapped :: "u16 \<Rightarrow> phys \<Rightarrow> phys \<Rightarrow> mmio_map \<Rightarrow> bool" where
  "mmio_mapped t b e m \<longleftrightarrow> region t b e \<in> set (mmio_regions m)"

lemma lookup_after_insert:
  assumes "mmio_inv m" "mmio_inv m'"
    and "set (mmio_regions m') = insert (region t b e) (set (mmio_regions m))"
  shows "mmio_lookup a m' =
    (if b \<le> a \<and> a \<le> e then Some \<lparr>h_token = t, h_offset = a - b\<rparr> else mmio_lookup a m)"
proof (cases "b \<le> a \<and> a \<le> e")
  case True
  then show ?thesis
    using mmio_lookup_iff [OF assms(2), of a "\<lparr>h_token = t, h_offset = a - b\<rparr>"]
    unfolding assms(3) by (simp add: region_contains_def)
next
  case False
  then have "\<not> region_contains a (region t b e)" by (simp add: region_contains_def)
  then have "mmio_lookup a m' = mmio_lookup a m"
    by (intro lookup_eqI assms(1,2)) (metis assms(3) insert_iff)
  with False show ?thesis by auto
qed

lemma lookup_after_delete:
  assumes "mmio_inv m" "mmio_inv m'" "region t b e \<in> set (mmio_regions m)"
    and "set (mmio_regions m') = set (mmio_regions m) - {region t b e}"
  shows "mmio_lookup a m' = (if b \<le> a \<and> a \<le> e then None else mmio_lookup a m)"
proof (cases "b \<le> a \<and> a \<le> e")
  case True
  have "mmio_lookup a m' = None"
  proof (cases "mmio_lookup a m'")
    case (Some h)
    then obtain r where r: "r \<in> set (mmio_regions m')" "region_contains a r"
      using mmio_lookup_iff [OF assms(2)] by blast
    moreover have "region_contains a (region t b e)" using True by (simp add: region_contains_def)
    ultimately have "mmio_find a m = Some r" "mmio_find a m = Some (region t b e)"
      using assms(3,4) by (simp_all add: mmio_find_iff [OF assms(1)])
    then have "r = region t b e" by (simp only: option.inject)
    with r(1) show ?thesis unfolding assms(4) by blast
  qed
  with True show ?thesis by (simp only: simp_thms if_True)
next
  case False
  then have "\<not> region_contains a (region t b e)" by (simp add: region_contains_def)
  then have "mmio_lookup a m' = mmio_lookup a m"
    by (intro lookup_eqI assms(1,2)) (metis assms(4) Diff_iff singletonD)
  with False show ?thesis by auto
qed

interpretation mmiow: window_table mmio_inv mmio_lookup mmio_mapped mmio_map_region mmio_unmap_region
proof unfold_locales
  fix m m' :: mmio_map and t b e err a
  show "m' = m" if "mmio_inv m" "e < 2 ^ 64" "mmio_map_region t b e m = (Inl err, m')"
    using map_region_cases [OF that] by simp
  show "b \<le> e \<and> mmio_inv m' \<and> mmio_mapped t b e m' \<and> mmio_lookup a m' =
      (if b \<le> a \<and> a \<le> e then Some \<lparr>h_token = t, h_offset = a - b\<rparr> else mmio_lookup a m)"
    if "mmio_inv m" "e < 2 ^ 64" "mmio_map_region t b e m = (Inr (), m')"
    using map_region_cases [OF that] lookup_after_insert [OF that(1), where m' = m' and t = t and b = b and e = e and a = a]
    by (simp add: mmio_mapped_def)
  show "\<exists>m'. mmio_unmap_region t b e m = (Inr (), m') \<and> mmio_inv m' \<and>
      (\<forall>a. mmio_lookup a m' = (if b \<le> a \<and> a \<le> e then None else mmio_lookup a m))"
    if "mmio_inv m" "mmio_mapped t b e m" "b \<le> e"
  proof -
    obtain res m1 where u: "mmio_unmap_region t b e m = (res, m1)"
      by (cases "mmio_unmap_region t b e m")
    from unmap_region_cases [OF that(1) u] that(3) have "res = Inr ()" by (cases res) simp_all
    with unmap_region_cases [OF that(1) u] u lookup_after_delete [OF that(1), where m' = m1 and t = t and b = b and e = e] that(2)
    show ?thesis by (auto simp: mmio_mapped_def)
  qed
qed

section \<open>Reachable tables\<close>

inductive mmio_reachable :: "mmio_map \<Rightarrow> bool" where
  mmio_start: "mmio_reachable mmio_new"
| mmio_map_step: "mmio_reachable m \<Longrightarrow> e < 2 ^ 64 \<Longrightarrow> mmio_reachable (snd (mmio_map_region t b e m))"
| mmio_unmap_step: "mmio_reachable m \<Longrightarrow> mmio_reachable (snd (mmio_unmap_region t b e m))"
| mmio_relocate_step: "mmio_reachable m \<Longrightarrow> (\<forall>b e. new = Some (b, e) \<longrightarrow> e < 2 ^ 64) \<Longrightarrow>
    mmio_reachable (snd (mmio_relocate t old new m))"

lemma mmio_reachable_inv: "mmio_reachable m \<Longrightarrow> mmio_inv m"
proof (induction rule: mmio_reachable.induct)
  case (mmio_map_step m e t b)
  obtain res m' where r: "mmio_map_region t b e m = (res, m')" by (cases "mmio_map_region t b e m")
  from map_region_cases [OF mmio_map_step.IH mmio_map_step.hyps(2) r] mmio_map_step.IH r
  show ?case by (cases res) simp_all
next
  case (mmio_unmap_step m t b e)
  obtain res m' where r: "mmio_unmap_region t b e m = (res, m')"
    by (cases "mmio_unmap_region t b e m")
  from unmap_region_cases [OF mmio_unmap_step.IH r] mmio_unmap_step.IH r
  show ?case by (cases res) simp_all
next
  case (mmio_relocate_step m new t old)
  obtain res m' where r: "mmio_relocate t old new m = (res, m')"
    by (cases "mmio_relocate t old new m")
  from relocate_cases [OF mmio_relocate_step.IH _ r] mmio_relocate_step r
  show ?case by (cases res) simp_all
qed (rule mmio_new_inv)

lemma mmio_new_empty: "mmio_regions mmio_new = []"
  by (simp add: mmio_regions_def mmio_new_def flatten_def)

lemma mmio_map_new:
  "b \<le> e \<Longrightarrow> fst (mmio_map_region t b e mmio_new) = Inr ()"
  by (rule map_region_succeeds) (simp_all add: would_overlap_def mmio_new_empty list_ex_iff,
      simp add: mmio_new_def mmio_sizes)

section \<open>Properties\<close>

text \<open>
  C7. In every table reachable by registering, removing and relocating regions, the occupancy
  index never hides a region: the indexed lookup answers exactly like a scan of all mapped
  regions, with the token of the region and the offset of the address in it, and no two of them
  contain a common address, so the owner it names is the only one.
\<close>

theorem mmio_lookup_complete:
  assumes "mmio_reachable m"
  shows "mmio_find addr m = find (region_contains addr) (mmio_regions m) \<and>
    mmio_lookup addr m = map_option (\<lambda>r. \<lparr>h_token = r_token r, h_offset = addr - r_begin r\<rparr>)
      (find (region_contains addr) (mmio_regions m)) \<and>
    (\<forall>r s. r \<in> set (mmio_regions m) \<and> s \<in> set (mmio_regions m) \<and>
       region_contains addr r \<and> region_contains addr s \<longrightarrow> r = s)"
proof -
  note inv = mmio_reachable_inv [OF assms]
  then have "index_ok m" by (simp add: mmio_inv_def)
  moreover have "r = s" if "r \<in> set (mmio_regions m)" "s \<in> set (mmio_regions m)"
      "region_contains addr r" "region_contains addr s" for r s
    using region_unique [OF inv that(1,2)] contains_cell that(3,4) by blast
  ultimately show ?thesis using mmio_find_scan [of m addr] by (auto simp: mmio_lookup_def)
qed

theorem mmio_lookup_complete_witness:
  "mmio_reachable (snd (mmio_map_region 2 0xFEC00000 0xFEC00FFF mmio_new)) \<and>
   mmio_lookup 0xFEC00010 (snd (mmio_map_region 2 0xFEC00000 0xFEC00FFF mmio_new)) =
     map_option (\<lambda>r. \<lparr>h_token = r_token r, h_offset = 0xFEC00010 - r_begin r\<rparr>) (find (region_contains 0xFEC00010)
       (mmio_regions (snd (mmio_map_region 2 0xFEC00000 0xFEC00FFF mmio_new))))"
proof -
  have "mmio_reachable (snd (mmio_map_region 2 0xFEC00000 0xFEC00FFF mmio_new))"
    by (rule mmio_map_step [OF mmio_start]) simp
  then show ?thesis using mmio_lookup_complete by blast
qed

text \<open>
  Registration below the last megabyte of the address space succeeds exactly when the
  range is not reversed, shares no 64 KB sub-range with a mapped region, and a slot is free;
  then its addresses, and only those, change owner, and a refusal leaves the table as it was.
\<close>

theorem mmio_map_exact:
  assumes "mmio_reachable m" "e < 2 ^ 64 - 2 ^ 20"
  shows "(fst (mmio_map_region t b e m) = Inr () \<longleftrightarrow>
      b \<le> e \<and> list_all (\<lambda>r. cells b e \<inter> region_cells r = {}) (mmio_regions m) \<and> mmio_len m < 16) \<and>
    mmio_lookup a (snd (mmio_map_region t b e m)) =
      (if fst (mmio_map_region t b e m) = Inr () \<and> b \<le> a \<and> a \<le> e
       then Some \<lparr>h_token = t, h_offset = a - b\<rparr> else mmio_lookup a m)"
proof
  note inv = mmio_reachable_inv [OF assms(1)]
  have e: "e < 2 ^ 64" using assms(2) by simp
  have "None \<in> set (m_regions m) \<longleftrightarrow> filter (\<lambda>x. x = None) (m_regions m) \<noteq> []"
    by (auto simp: filter_empty_conv)
  then have free: "mmio_len m < 16 \<longleftrightarrow> None \<in> set (m_regions m)"
    using inv length_flatten [of "m_regions m"]
      length_greater_0_conv [of "filter (\<lambda>x. x = None) (m_regions m)"]
    unfolding mmio_len_def mmio_regions_def mmio_inv_def mmio_sizes by linarith
  have ov: "would_overlap b e None m \<longleftrightarrow>
      \<not> list_all (\<lambda>r. cells b e \<inter> region_cells r = {}) (mmio_regions m)"
    using would_overlap_complete [OF e, of _ m None b] would_overlap_sound [OF _ assms(2), of b None m]
    unfolding list_all_iff by blast
  show "fst (mmio_map_region t b e m) = Inr () \<longleftrightarrow>
      b \<le> e \<and> list_all (\<lambda>r. cells b e \<inter> region_cells r = {}) (mmio_regions m) \<and> mmio_len m < 16"
    using find_slot_None [of "\<lambda>s. s = None" "m_regions m"]
    unfolding free by (auto simp: mmio_map_region_def ov split: option.splits)
  obtain res m' where r: "mmio_map_region t b e m = (res, m')" by (cases "mmio_map_region t b e m")
  then show "mmio_lookup a (snd (mmio_map_region t b e m)) =
      (if fst (mmio_map_region t b e m) = Inr () \<and> b \<le> a \<and> a \<le> e
       then Some \<lparr>h_token = t, h_offset = a - b\<rparr> else mmio_lookup a m)"
    using mmiow.enter_refused [OF inv e] mmiow.enter_done [OF inv e, of t b m' a]
    by (cases res) auto
qed

theorem mmio_map_exact_witness:
  "mmio_reachable mmio_new \<and>
   mmio_lookup 0xA0010 (snd (mmio_map_region 1 0xA0000 0xBFFFF mmio_new)) =
     Some \<lparr>h_token = 1, h_offset = 0x10\<rparr>"
  using mmio_map_exact [OF mmio_start, of "0xBFFFF" 1 "0xA0000" "0xA0010"] mmio_start
    mmio_map_new [of "0xA0000" "0xBFFFF" 1] by simp

text \<open>
  C31. Relocation is atomic: when it fails, the table is unchanged; when it succeeds, the old
  range has gone, the new one answers for its token, and every other region is untouched.
\<close>

theorem mmio_relocate_atomic:
  assumes "mmio_reachable m" "\<forall>b e. new = Some (b, e) \<longrightarrow> e < 2 ^ 64"
  shows "case mmio_relocate t old new m of
      (Inl _, m') \<Rightarrow> m' = m
    | (Inr _, m') \<Rightarrow> mmio_inv m' \<and>
        set (mmio_regions m') = set (mmio_regions m) - old_set t old \<union> old_set t new"
proof -
  obtain res m' where r: "mmio_relocate t old new m = (res, m')"
    by (cases "mmio_relocate t old new m")
  from relocate_cases [OF mmio_reachable_inv [OF assms(1)] _ r] assms(2) r show ?thesis
    by (cases res) simp_all
qed

theorem mmio_relocate_atomic_witness:
  "mmio_reachable mmio_new \<and>
   (case mmio_relocate 1 None (Some (0xA0000, 0xBFFFF)) mmio_new of
      (Inl _, m') \<Rightarrow> m' = mmio_new
    | (Inr _, m') \<Rightarrow> mmio_inv m' \<and>
        set (mmio_regions m') = set (mmio_regions mmio_new) - old_set 1 None \<union>
          old_set 1 (Some (0xA0000, 0xBFFFF)))"
  using mmio_relocate_atomic [OF mmio_start, of "Some (0xA0000, 0xBFFFF)" 1 None] mmio_start by simp

end
