(* ===== verification/Io_Apic.thy ===== *)
theory Io_Apic
  imports Snap Mmio_Map
begin

text \<open>
  The 82093AA I/O APIC of \<^verbatim>\<open>rusty_box/src/iodev/ioapic.rs\<close>: redirection entries, the
  IOREGSEL/IOWIN register window with its byte-level handlers, the input pins, the servicing
  scan that turns requests into queued APIC-bus messages, completion of a deferred message,
  the enabling of its memory window, and the snapshot section.

  The queue of pending deliveries is the list of its live entries (the array slots above the
  count are never read). The vector of an ExtINT entry comes from the source of type
  \<open>'e \<Rightarrow> u8 \<times> 'e\<close> passed to the scan (the trait \<^verbatim>\<open>ExtIntVector\<close>). Byte order is that of a
  little-endian host. Logging and the diagnostic dumps are left out.
\<close>

section \<open>Constants and entries\<close>

definition IOAPIC_BASE_ADDR :: u32 where "IOAPIC_BASE_ADDR = 0xFEC00000"
definition IOAPIC_NUM_PINS :: nat where "IOAPIC_NUM_PINS = 0x18"
definition IOAPIC_PENDING_DELIVERY_CAPACITY :: nat where "IOAPIC_PENDING_DELIVERY_CAPACITY = 256"
definition IOAPIC_VERSION_ID :: u32 where
  "IOAPIC_VERSION_ID = push_bit 16 (of_nat IOAPIC_NUM_PINS - 1) OR 0x11"
definition IOAPIC_DEFAULT_ID :: u32 where "IOAPIC_DEFAULT_ID = 1"
definition APIC_ID_MASK :: u32 where "APIC_ID_MASK = 0xFF"
definition IOAPIC_MMIO_SIZE :: u32 where "IOAPIC_MMIO_SIZE = 0x1000"
definition REDIRECT_ENTRY_DEFAULT_LO :: u32 where "REDIRECT_ENTRY_DEFAULT_LO = 0x00010000"
definition REDIRECT_LO_WRITE_MASK :: u32 where "REDIRECT_LO_WRITE_MASK = 0xFFFFAFFF"
definition IOREGSEL_ID :: u32 where "IOREGSEL_ID = 0x00"
definition IOREGSEL_VERSION :: u32 where "IOREGSEL_VERSION = 0x01"
definition IOREGSEL_ARB_ID :: u32 where "IOREGSEL_ARB_ID = 0x02"
definition IOREGSEL_REDTBL_BASE :: u32 where "IOREGSEL_REDTBL_BASE = 0x10"

lemmas ioregsel = IOREGSEL_ID_def IOREGSEL_VERSION_def IOREGSEL_ARB_ID_def IOREGSEL_REDTBL_BASE_def

datatype delivery_mode = Fixed | LowPriority | Smi | Reserved3 | Nmi | Init | Reserved6 | ExtInt

definition delivery_mode_from_raw :: "u8 \<Rightarrow> delivery_mode" where
  "delivery_mode_from_raw val =
     (let v = val AND 7 in
      if v = 0 then Fixed else if v = 1 then LowPriority else if v = 2 then Smi
      else if v = 3 then Reserved3 else if v = 4 then Nmi else if v = 5 then Init
      else if v = 6 then Reserved6 else ExtInt)"

text \<open>The discriminants of the enumeration (\<^verbatim>\<open>as u8\<close>).\<close>

fun delivery_mode_raw :: "delivery_mode \<Rightarrow> u8" where
  "delivery_mode_raw Fixed = 0"
| "delivery_mode_raw LowPriority = 1"
| "delivery_mode_raw Smi = 2"
| "delivery_mode_raw Reserved3 = 3"
| "delivery_mode_raw Nmi = 4"
| "delivery_mode_raw Init = 5"
| "delivery_mode_raw Reserved6 = 6"
| "delivery_mode_raw ExtInt = 7"

record redirect_entry =
  e_lo :: u32
  e_hi :: u32

definition entry_default :: redirect_entry where
  "entry_default = \<lparr>e_lo = REDIRECT_ENTRY_DEFAULT_LO, e_hi = 0\<rparr>"

definition entry_destination :: "redirect_entry \<Rightarrow> u8" where
  "entry_destination e = ucast (drop_bit 24 (e_hi e))"

definition is_masked :: "redirect_entry \<Rightarrow> bool" where
  "is_masked e \<longleftrightarrow> drop_bit 16 (e_lo e) AND 1 \<noteq> 0"

definition entry_trigger_mode :: "redirect_entry \<Rightarrow> u8" where
  "entry_trigger_mode e = ucast (drop_bit 15 (e_lo e) AND 1)"

definition remote_irr :: "redirect_entry \<Rightarrow> bool" where
  "remote_irr e \<longleftrightarrow> drop_bit 14 (e_lo e) AND 1 \<noteq> 0"

definition pin_polarity :: "redirect_entry \<Rightarrow> u8" where
  "pin_polarity e = ucast (drop_bit 13 (e_lo e) AND 1)"

definition delivery_status :: "redirect_entry \<Rightarrow> bool" where
  "delivery_status e \<longleftrightarrow> drop_bit 12 (e_lo e) AND 1 \<noteq> 0"

definition destination_mode :: "redirect_entry \<Rightarrow> u8" where
  "destination_mode e = ucast (drop_bit 11 (e_lo e) AND 1)"

definition entry_delivery_mode :: "redirect_entry \<Rightarrow> u8" where
  "entry_delivery_mode e = ucast (drop_bit 8 (e_lo e) AND 7)"

definition entry_vector :: "redirect_entry \<Rightarrow> u8" where
  "entry_vector e = ucast (e_lo e AND 0xFF)"

definition set_delivery_status :: "redirect_entry \<Rightarrow> redirect_entry" where
  "set_delivery_status e = e\<lparr>e_lo := e_lo e OR bitm 12\<rparr>"

definition clear_delivery_status :: "redirect_entry \<Rightarrow> redirect_entry" where
  "clear_delivery_status e = e\<lparr>e_lo := e_lo e AND NOT (bitm 12)\<rparr>"

definition set_remote_irr :: "redirect_entry \<Rightarrow> redirect_entry" where
  "set_remote_irr e = e\<lparr>e_lo := e_lo e OR bitm 14\<rparr>"

definition clear_remote_irr :: "redirect_entry \<Rightarrow> redirect_entry" where
  "clear_remote_irr e = e\<lparr>e_lo := e_lo e AND NOT (bitm 14)\<rparr>"

definition set_lo_part :: "u32 \<Rightarrow> redirect_entry \<Rightarrow> redirect_entry" where
  "set_lo_part value e = e\<lparr>e_lo := value AND REDIRECT_LO_WRITE_MASK\<rparr>"

definition set_hi_part :: "u32 \<Rightarrow> redirect_entry \<Rightarrow> redirect_entry" where
  "set_hi_part value e = e\<lparr>e_hi := value\<rparr>"

section \<open>The controller\<close>

datatype service_request = Needed | NotNeeded

record pending_delivery =
  d_pin :: u8
  d_vector :: u8
  d_delivery_mode :: u8
  d_trigger_mode :: u8
  d_dest :: u32
  d_dest_mode :: u8
  d_needs_pic_iac :: bool

record ioapic =
  io_enabled :: bool
  io_base_addr :: u32
  io_id :: u32
  io_ioregsel :: u32
  io_intin :: u32
  io_irr :: u32
  io_ioredtbl :: "redirect_entry list"
  io_stuck_count :: u32
  io_pending :: "pending_delivery list"

definition ioapic_new :: ioapic where
  "ioapic_new =
     \<lparr>io_enabled = False, io_base_addr = IOAPIC_BASE_ADDR, io_id = IOAPIC_DEFAULT_ID,
      io_ioregsel = 0, io_intin = 0, io_irr = 0,
      io_ioredtbl = replicate IOAPIC_NUM_PINS entry_default, io_stuck_count = 0, io_pending = []\<rparr>"

definition ioapic_set_id :: "u32 \<Rightarrow> ioapic \<Rightarrow> ioapic" where
  "ioapic_set_id new_id a = a\<lparr>io_id := new_id AND APIC_ID_MASK\<rparr>"

definition ioapic_reset :: "ioapic \<Rightarrow> ioapic" where
  "ioapic_reset a = a
     \<lparr>io_ioredtbl := map (\<lambda>e. set_hi_part 0 (set_lo_part REDIRECT_ENTRY_DEFAULT_LO e)) (io_ioredtbl a),
      io_intin := 0, io_irr := 0, io_ioregsel := 0, io_stuck_count := 0, io_pending := []\<rparr>"

definition pin_state :: "u8 \<Rightarrow> ioapic \<Rightarrow> bool \<times> bool" where
  "pin_state pin a = (io_intin a AND bitm (unat pin) \<noteq> 0, io_irr a AND bitm (unat pin) \<noteq> 0)"

subsection \<open>Registers\<close>

definition raw_index :: "ioapic \<Rightarrow> nat" where
  "raw_index a = unat (drop_bit 1 (io_ioregsel a - IOREGSEL_REDTBL_BASE))"

definition read_aligned :: "u64 \<Rightarrow> ioapic \<Rightarrow> u32" where
  "read_aligned address a =
     (let offset = (ucast address :: u32) AND 0xFF in
      if offset = 0 then io_ioregsel a
      else if offset \<noteq> 0x10 then 0
      else if io_ioregsel a = IOREGSEL_ID then push_bit 24 (io_id a AND APIC_ID_MASK)
      else if io_ioregsel a = IOREGSEL_VERSION then IOAPIC_VERSION_ID
      else if io_ioregsel a = IOREGSEL_ARB_ID then 0
      else if raw_index a < IOAPIC_NUM_PINS
      then if io_ioregsel a AND 1 \<noteq> 0 then e_hi (io_ioredtbl a ! raw_index a)
           else e_lo (io_ioredtbl a ! raw_index a)
      else 0)"

definition write_aligned :: "u64 \<Rightarrow> u32 \<Rightarrow> ioapic \<Rightarrow> service_request \<times> ioapic" where
  "write_aligned address value a =
     (let offset = (ucast address :: u32) AND 0xFF in
      if offset = 0 then (NotNeeded, a\<lparr>io_ioregsel := value\<rparr>)
      else if offset \<noteq> 0x10 then (NotNeeded, a)
      else if io_ioregsel a = IOREGSEL_ID
      then (NotNeeded, a\<lparr>io_id := drop_bit 24 value AND APIC_ID_MASK\<rparr>)
      else if io_ioregsel a = IOREGSEL_VERSION \<or> io_ioregsel a = IOREGSEL_ARB_ID then (NotNeeded, a)
      else if raw_index a < IOAPIC_NUM_PINS
      then (Needed, a\<lparr>io_ioredtbl := (io_ioredtbl a)[raw_index a :=
             (if io_ioregsel a AND 1 \<noteq> 0 then set_hi_part value (io_ioredtbl a ! raw_index a)
              else set_lo_part value (io_ioredtbl a ! raw_index a))]\<rparr>)
      else (NotNeeded, a))"

text \<open>
  \<^verbatim>\<open>mem_read\<close> answers the bytes it stores at the front of the caller's buffer (none when the access
  is refused).
\<close>

definition mem_read :: "u64 \<Rightarrow> u32 \<Rightarrow> ioapic \<Rightarrow> bytes" where
  "mem_read addr len a =
     (if addr AND NOT 3 \<noteq> (addr + ucast len - 1) AND NOT 3 then []
      else
        let value = read_aligned (addr AND NOT 3) a;
            shifted = drop_bit (unat (addr AND 3) * 8) value
        in if len = 4 then to_le_bytes 4 value
           else if len = 2 then to_le_bytes 2 (ucast shifted :: u16)
           else if len = 1 then [ucast (shifted AND 0xFF)]
           else [])"

definition mem_write :: "u64 \<Rightarrow> u32 \<Rightarrow> bytes \<Rightarrow> ioapic \<Rightarrow> service_request \<times> ioapic" where
  "mem_write addr len data a =
     (if addr AND 0xF \<noteq> 0 then (NotNeeded, a)
      else if len = 4 then
        if length data < 4 then (NotNeeded, a)
        else write_aligned addr (from_le_bytes (take 4 data)) a
      else if (ucast (addr AND 0xFF) :: u32) \<noteq> 0 then (NotNeeded, a)
      else if len = 2 \<and> 2 \<le> length data
      then write_aligned addr (ucast (from_le_bytes (take 2 data) :: u16)) a
      else if len = 1 \<and> 1 \<le> length data then write_aligned addr (ucast (hd data)) a
      else (NotNeeded, a))"

subsection \<open>Pins\<close>

definition set_pin_level :: "u8 \<Rightarrow> bool \<Rightarrow> ioapic \<Rightarrow> service_request \<times> ioapic" where
  "set_pin_level int_in0 level a =
     (let int_in = (if int_in0 = 0 then 2 else int_in0) in
      if unat int_in \<ge> IOAPIC_NUM_PINS then (NotNeeded, a)
      else
        let b = bitm (unat int_in) :: u32;
            level_bit = (if level then b else 0);
            entry = io_ioredtbl a ! unat int_in
        in if level_bit = io_intin a AND b then (NotNeeded, a)
           else if entry_trigger_mode entry \<noteq> 0
           then if level
                then (Needed, a\<lparr>io_intin := io_intin a OR b, io_irr := io_irr a OR b\<rparr>)
                else (NotNeeded, a\<lparr>io_intin := io_intin a AND NOT b, io_irr := io_irr a AND NOT b\<rparr>)
           else if level
           then if \<not> is_masked entry
                then (Needed, a\<lparr>io_intin := io_intin a OR b, io_irr := io_irr a OR b\<rparr>)
                else (NotNeeded, a\<lparr>io_intin := io_intin a OR b\<rparr>)
           else (NotNeeded, a\<lparr>io_intin := io_intin a AND NOT b\<rparr>))"

definition ioapic_receive_eoi :: "u8 \<Rightarrow> ioapic \<Rightarrow> ioapic" where
  "ioapic_receive_eoi vector a = a"

definition has_asserted_level_entry :: "u8 \<Rightarrow> ioapic \<Rightarrow> bool" where
  "has_asserted_level_entry vector a =
     list_ex (\<lambda>pin. let entry = io_ioredtbl a ! pin in
        entry_vector entry = vector \<and> entry_trigger_mode entry \<noteq> 0 \<and> io_irr a AND bitm pin \<noteq> 0)
       [0..<IOAPIC_NUM_PINS]"

subsection \<open>Servicing\<close>

definition enqueue_delivery :: "pending_delivery \<Rightarrow> ioapic \<Rightarrow> bool \<times> ioapic" where
  "enqueue_delivery d a =
     (if length (io_pending a) < IOAPIC_PENDING_DELIVERY_CAPACITY
      then (True, a\<lparr>io_pending := io_pending a @ [d]\<rparr>) else (False, a))"

definition service_pin :: "('e \<Rightarrow> u8 \<times> 'e) \<Rightarrow> nat \<Rightarrow> ioapic \<times> 'e \<Rightarrow> ioapic \<times> 'e" where
  "service_pin acknowledge pin = (\<lambda>(a, ext).
     let entry = io_ioredtbl a ! pin in
     if io_irr a AND bitm pin = 0 \<or> is_masked entry then (a, ext)
     else
       let (vector, ext1) =
             (if entry_delivery_mode entry = delivery_mode_raw ExtInt then acknowledge ext
              else (entry_vector entry, ext));
           trigger = entry_trigger_mode entry;
           mode = entry_delivery_mode entry;
           dest_mode = destination_mode entry;
           (queued, a1) =
             (if mode = delivery_mode_raw LowPriority \<and> dest_mode = 0 then (False, a)
              else enqueue_delivery
                \<lparr>d_pin = of_nat pin, d_vector = vector, d_delivery_mode = mode,
                 d_trigger_mode = trigger, d_dest = ucast (entry_destination entry),
                 d_dest_mode = dest_mode, d_needs_pic_iac = False\<rparr> a);
           a2 = a1\<lparr>io_ioredtbl := (io_ioredtbl a1)[pin := set_delivery_status (io_ioredtbl a1 ! pin)]\<rparr>
       in if queued
          then (if trigger = 0 then a2\<lparr>io_irr := io_irr a2 AND NOT (bitm pin)\<rparr> else a2, ext1)
          else (a2\<lparr>io_stuck_count := io_stuck_count a2 + 1\<rparr>, ext1))"

definition ioapic_service :: "('e \<Rightarrow> u8 \<times> 'e) \<Rightarrow> ioapic \<Rightarrow> 'e \<Rightarrow> ioapic \<times> 'e" where
  "ioapic_service acknowledge a ext = fold (service_pin acknowledge) [0..<IOAPIC_NUM_PINS] (a, ext)"

definition take_pending_deliveries :: "ioapic \<Rightarrow> pending_delivery list \<times> ioapic" where
  "take_pending_deliveries a = (io_pending a, a\<lparr>io_pending := []\<rparr>)"

definition complete_deferred_delivery :: "pending_delivery \<Rightarrow> bool \<Rightarrow> ioapic \<Rightarrow> ioapic" where
  "complete_deferred_delivery d done a =
     (let pin = unat (d_pin d) in
      if pin \<ge> IOAPIC_NUM_PINS then a
      else if done
      then a\<lparr>io_irr := (if d_trigger_mode d = 0 then io_irr a AND NOT (bitm pin) else io_irr a),
             io_ioredtbl := (io_ioredtbl a)[pin := clear_delivery_status (io_ioredtbl a ! pin)],
             io_stuck_count := 0\<rparr>
      else a\<lparr>io_irr := (if d_trigger_mode d = 0 then io_irr a OR bitm pin else io_irr a),
             io_ioredtbl := (io_ioredtbl a)[pin := set_delivery_status (io_ioredtbl a ! pin)],
             io_stuck_count := io_stuck_count a + 1\<rparr>)"

subsection \<open>The memory window\<close>

text \<open>
  \<^verbatim>\<open>DevSlot::mmio_window_token\<close> packs the slot and the window number; the I/O APIC is slot 13 and
  uses its first window. \<^verbatim>\<open>register_memory_handlers\<close> and \<^verbatim>\<open>unregister_memory_handlers\<close> forward to
  the table of \<open>Mmio_Map\<close>. A failing call leaves the fields written before it.
\<close>

definition mmio_window_token :: "u8 \<Rightarrow> u8 \<Rightarrow> u16" where
  "mmio_window_token slot window = ucast slot OR push_bit 8 (ucast window)"

definition DevSlot_IOAPIC :: u8 where "DevSlot_IOAPIC = 13"

definition IOAPIC_TOKEN :: u16 where
  "IOAPIC_TOKEN = mmio_window_token DevSlot_IOAPIC 0"

definition window_base :: "ioapic \<Rightarrow> nat" where
  "window_base a = unat (io_base_addr a)"

definition window_end :: "ioapic \<Rightarrow> nat" where
  "window_end a = unat (io_base_addr a) + unat IOAPIC_MMIO_SIZE - 1"

definition set_enabled_with_mem ::
  "bool \<Rightarrow> u16 \<Rightarrow> ioapic \<Rightarrow> mmio_map \<Rightarrow> (memory_error + bool) \<times> ioapic \<times> mmio_map" where
  "set_enabled_with_mem new_enabled base_offset a m =
     (if new_enabled \<noteq> io_enabled a then
        if new_enabled then
          let a1 = a\<lparr>io_base_addr := IOAPIC_BASE_ADDR OR ucast base_offset\<rparr> in
          (case mmio_map_region IOAPIC_TOKEN (window_base a1) (window_end a1) m of
             (Inl e, m1) \<Rightarrow> (Inl e, a1, m1)
           | (Inr _, m1) \<Rightarrow> (Inr True, a1\<lparr>io_enabled := new_enabled\<rparr>, m1))
        else
          (case mmio_unmap_region IOAPIC_TOKEN (window_base a) (window_end a) m of
             (Inl e, m1) \<Rightarrow> (Inl e, a, m1)
           | (Inr _, m1) \<Rightarrow> (Inr True, a\<lparr>io_enabled := new_enabled\<rparr>, m1))
      else if io_enabled a \<and> ucast base_offset \<noteq> io_base_addr a AND 0xFFFF then
        (case mmio_unmap_region IOAPIC_TOKEN (window_base a) (window_end a) m of
           (Inl e, m1) \<Rightarrow> (Inl e, a, m1)
         | (Inr _, m1) \<Rightarrow>
             let a1 = a\<lparr>io_base_addr := IOAPIC_BASE_ADDR OR ucast base_offset\<rparr> in
             (case mmio_map_region IOAPIC_TOKEN (window_base a1) (window_end a1) m1 of
                (Inl e, m2) \<Rightarrow> (Inl e, a1, m2)
              | (Inr _, m2) \<Rightarrow> (Inr True, a1, m2)))
      else (Inr False, a, m))"

section \<open>Snapshot\<close>


definition ioapic_queue_capacity :: "snap_error + nat" where
  "ioapic_queue_capacity =
     (if IOAPIC_PENDING_DELIVERY_CAPACITY > MAX_SNAPSHOT_QUEUE_LEN
      then Inl (Invalid ''IOAPIC pending queue capacity exceeds snapshot bounds'')
      else Inr IOAPIC_PENDING_DELIVERY_CAPACITY)"

definition valid_ioapic_delivery_mode :: "u8 \<Rightarrow> bool" where
  "valid_ioapic_delivery_mode mode \<longleftrightarrow> mode \<in> {0, 1, 2, 4, 5, 7}"

definition ioapic_mode_requires_vector :: "u8 \<Rightarrow> bool" where
  "ioapic_mode_requires_vector mode \<longleftrightarrow> mode \<in> {0, 1}"

definition validate_ioapic_configuration ::
  "ioapic \<Rightarrow> bool \<Rightarrow> u32 \<Rightarrow> u32 \<Rightarrow> u32 \<Rightarrow> u32 \<Rightarrow> snap_error + unit" where
  "validate_ioapic_configuration live enabled base_addr ident intin irr =
     (let pin_mask = bitm IOAPIC_NUM_PINS - 1 in
      if enabled \<noteq> io_enabled live \<or> base_addr \<noteq> io_base_addr live
      then Inl (Invalid ''IOAPIC MMIO configuration does not match live topology'')
      else if ident AND NOT APIC_ID_MASK \<noteq> 0 then Inl (Invalid ''IOAPIC ID exceeds capability'')
      else if intin AND NOT pin_mask \<noteq> 0 \<or> irr AND NOT pin_mask \<noteq> 0
      then Inl (Invalid ''IOAPIC pin state exceeds capability'')
      else Inr ())"

definition validate_ioapic_route :: "u32 \<Rightarrow> u32 \<Rightarrow> snap_error + unit" where
  "validate_ioapic_route lo hi =
     (if lo AND NOT 0x0001FFFF \<noteq> 0 \<or> hi AND 0x00FFFFFF \<noteq> 0
      then Inl (Invalid ''IOAPIC redirection entry contains reserved bits'')
      else
        let mode = ucast (drop_bit 8 lo AND 7);
            vector = ucast (lo AND 0xFF) :: u8;
            destination = ucast (drop_bit 24 hi) :: u8
        in if \<not> valid_ioapic_delivery_mode mode then Inl (Invalid ''IOAPIC delivery mode is reserved'')
           else if ioapic_mode_requires_vector mode \<and> vector < 0x10 \<and> lo AND bitm 16 = 0
           then Inl (Invalid ''IOAPIC interrupt vector is invalid'')
           else if lo AND bitm 14 \<noteq> 0 \<and> lo AND bitm 15 = 0
           then Inl (Invalid ''IOAPIC edge-triggered route has remote IRR set'')
           else if ucast destination > APIC_ID_MASK
           then Inl (Invalid ''IOAPIC destination exceeds capability'')
           else Inr ())"

definition validate_ioapic_delivery :: "pending_delivery \<Rightarrow> snap_error + unit" where
  "validate_ioapic_delivery d =
     (if unat (d_pin d) \<ge> IOAPIC_NUM_PINS \<or> \<not> valid_ioapic_delivery_mode (d_delivery_mode d) \<or>
         d_trigger_mode d > 1 \<or> d_dest_mode d > 1 \<or> d_dest d > APIC_ID_MASK \<or>
         (ioapic_mode_requires_vector (d_delivery_mode d) \<and> d_vector d < 0x10) \<or>
         (d_needs_pic_iac d \<and> (d_delivery_mode d \<noteq> 7 \<or> d_vector d \<noteq> 0))
      then Inl (Invalid ''IOAPIC pending delivery is invalid'') else Inr ())"

text \<open>A loop that validates the elements in order and stops at the first error.\<close>

definition validate_ioapic_snapshot_state :: "ioapic \<Rightarrow> snap_error + unit" where
  "validate_ioapic_snapshot_state a =
     attempt (validate_ioapic_configuration a (io_enabled a) (io_base_addr a) (io_id a)
       (io_intin a) (io_irr a)) (\<lambda>_.
     attempt (validate_each (\<lambda>e. validate_ioapic_route (e_lo e) (e_hi e)) (io_ioredtbl a)) (\<lambda>_.
     attempt ioapic_queue_capacity (\<lambda>capacity.
     if length (io_pending a) > capacity
     then Inl (Invalid ''IOAPIC pending queue exceeds capacity'')
     else validate_each validate_ioapic_delivery (io_pending a))))"

definition ioapic_snapshot_len :: "ioapic \<Rightarrow> snap_error + u64" where
  "ioapic_snapshot_len a =
     attempt (validate_ioapic_snapshot_state a) (\<lambda>_.
     attempt (checked_snapshot_len_mul 24 8) (\<lambda>routes.
     attempt (checked_snapshot_len_mul (of_nat (length (io_pending a))) 10) (\<lambda>queue.
     attempt (checked_snapshot_len_add 25 routes) (\<lambda>fields_and_routes.
     attempt (checked_snapshot_len_add fields_and_routes 4) (\<lambda>queue_prefix.
     checked_snapshot_len_add queue_prefix queue)))))"

definition save_ioapic_delivery :: "pending_delivery \<Rightarrow> writer" where
  "save_ioapic_delivery d w = attempt (validate_ioapic_delivery d) (\<lambda>_. write_seq
     [write_u8 (d_pin d), write_u8 (d_vector d), write_u8 (d_delivery_mode d),
      write_u8 (d_trigger_mode d), write_u32 (d_dest d), write_u8 (d_dest_mode d),
      write_bool (d_needs_pic_iac d)] w)"

definition restore_ioapic_delivery :: "pending_delivery reader" where
  "restore_ioapic_delivery =
     rd_bind read_u8 (\<lambda>pin. rd_bind read_u8 (\<lambda>vector. rd_bind read_u8 (\<lambda>mode.
     rd_bind read_u8 (\<lambda>trigger. rd_bind read_u32 (\<lambda>dest. rd_bind read_u8 (\<lambda>dest_mode.
     rd_bind read_bool (\<lambda>needs.
     let d = \<lparr>d_pin = pin, d_vector = vector, d_delivery_mode = mode, d_trigger_mode = trigger,
              d_dest = dest, d_dest_mode = dest_mode, d_needs_pic_iac = needs\<rparr>
     in rd_bind (rd_lift (validate_ioapic_delivery d)) (\<lambda>_. rd_return d))))))))"

definition save_entry :: "redirect_entry \<Rightarrow> writer" where
  "save_entry e = write_seq [write_u32 (e_lo e), write_u32 (e_hi e)]"

definition restore_entry :: "redirect_entry reader" where
  "restore_entry =
     rd_bind read_u32 (\<lambda>lo. rd_bind read_u32 (\<lambda>hi.
     rd_bind (rd_lift (validate_ioapic_route lo hi)) (\<lambda>_. rd_return \<lparr>e_lo = lo, e_hi = hi\<rparr>)))"

definition ioapic_save :: "ioapic \<Rightarrow> writer" where
  "ioapic_save a w = attempt (ioapic_snapshot_len a) (\<lambda>_. write_seq
     [write_u32 SNAPSHOT_SECTION_VERSION, write_bool (io_enabled a), write_u32 (io_base_addr a),
      write_u32 (io_id a), write_u32 (io_ioregsel a), write_u32 (io_intin a), write_u32 (io_irr a),
      write_each save_entry (io_ioredtbl a), write_u32 (of_nat (length (io_pending a))),
      write_each save_ioapic_delivery (io_pending a)] w)"

text \<open>\<^verbatim>\<open>restore\<close> updates the live controller \<open>live\<close>, whose window configuration must match.\<close>

definition ioapic_restore :: "ioapic \<Rightarrow> ioapic reader" where
  "ioapic_restore live =
     rd_bind read_u32 (\<lambda>version.
     if version \<noteq> SNAPSHOT_SECTION_VERSION
     then rd_fail (Invalid ''unsupported IOAPIC snapshot section version'') else
     rd_bind read_bool (\<lambda>enabled. rd_bind read_u32 (\<lambda>base_addr. rd_bind read_u32 (\<lambda>ident.
     rd_bind read_u32 (\<lambda>ioregsel. rd_bind read_u32 (\<lambda>intin. rd_bind read_u32 (\<lambda>irr.
     rd_bind (rd_lift (validate_ioapic_configuration live enabled base_addr ident intin irr)) (\<lambda>_.
     rd_bind (read_each restore_entry IOAPIC_NUM_PINS) (\<lambda>ioredtbl.
     rd_bind (rd_lift ioapic_queue_capacity) (\<lambda>capacity.
     rd_bind (read_count capacity) (\<lambda>pending_count.
     rd_bind (read_each restore_ioapic_delivery pending_count) (\<lambda>pending.
     rd_return (live\<lparr>io_id := ident, io_ioregsel := ioregsel, io_intin := intin, io_irr := irr,
       io_ioredtbl := ioredtbl, io_pending := pending\<rparr>)))))))))))))"

end
