(* ===== verification/Io_Apic_Laws.thy ===== *)
theory Io_Apic_Laws
  imports Io_Apic
begin

text \<open>
  Correctness of the I/O APIC: the invariant every operation keeps, the meaning of a pin change,
  the register window, the effect of a servicing scan on every pin, the consistency of its
  memory window with the region table, and the snapshot round trip of the states the snapshot
  validation admits.
\<close>

section \<open>Entries read as bits\<close>

lemma and_1_bit: "drop_bit k x AND 1 \<noteq> 0 \<longleftrightarrow> bit x k" for x :: "'a::len word"
  by (simp add: bit_iff_odd_drop_bit and_one_eq odd_iff_mod_2_eq_one)

lemma ucast_and_1: "ucast (drop_bit k x AND 1 :: u32) = (0 :: u8) \<longleftrightarrow> \<not> bit x k"
proof -
  have "drop_bit k x AND 1 = of_bool (bit x k)"
    by (simp add: and_one_eq bit_iff_odd_drop_bit mod_2_eq_odd)
  then show ?thesis by simp
qed

lemma and_bitm_if: "x AND bitm p = (if bit x p then bitm p else 0)" for x :: u32
  by (rule bit_word_eqI) (auto simp: bits bit_and_iff)

lemma bitm_nonzero: "p < 32 \<Longrightarrow> (bitm p :: u32) \<noteq> 0"
  using bit_bitm [of p p, where ?'a = 32] by fastforce

lemma is_masked_bit [simp]: "is_masked e \<longleftrightarrow> bit (e_lo e) 16"
  by (simp add: is_masked_def and_1_bit)

lemma trigger_bit [simp]: "entry_trigger_mode e = 0 \<longleftrightarrow> \<not> bit (e_lo e) 15"
  by (simp add: entry_trigger_mode_def ucast_and_1)

section \<open>The invariant\<close>

definition pins_only :: "u32 \<Rightarrow> bool" where
  "pins_only w \<longleftrightarrow> (\<forall>k. bit w k \<longrightarrow> k < IOAPIC_NUM_PINS)"

definition ioapic_inv :: "ioapic \<Rightarrow> bool" where
  "ioapic_inv a \<longleftrightarrow>
     length (io_ioredtbl a) = IOAPIC_NUM_PINS \<and> pins_only (io_intin a) \<and> pins_only (io_irr a) \<and>
     io_id a AND NOT APIC_ID_MASK = 0 \<and> length (io_pending a) \<le> IOAPIC_PENDING_DELIVERY_CAPACITY"

lemma pins_only_simps [simp]:
  "pins_only 0" "pins_only x \<Longrightarrow> pins_only (x AND y)"
  "pins_only (x OR bitm k) \<longleftrightarrow> pins_only x \<and> (k < 32 \<longrightarrow> k < IOAPIC_NUM_PINS)"
  by (auto simp: pins_only_def bits bit_and_iff)

lemma id_mask [simp]: "x AND APIC_ID_MASK AND NOT APIC_ID_MASK = 0" for x :: u32
  by (simp add: APIC_ID_MASK_def)

lemma id_mask' [simp]: "(x AND APIC_ID_MASK) AND NOT APIC_ID_MASK = 0" for x :: u32
  by (simp add: and.assoc)

lemma ioapic_new_inv: "ioapic_inv ioapic_new"
  by (simp add: ioapic_inv_def ioapic_new_def IOAPIC_DEFAULT_ID_def APIC_ID_MASK_def
      IOAPIC_PENDING_DELIVERY_CAPACITY_def)

lemma ioapic_reset_inv: "ioapic_inv a \<Longrightarrow> ioapic_inv (ioapic_reset a)"
  by (simp add: ioapic_inv_def ioapic_reset_def)

lemma write_aligned_inv: "ioapic_inv a \<Longrightarrow> ioapic_inv (snd (write_aligned addr v a))"
  by (simp add: ioapic_inv_def write_aligned_def Let_def)

lemma mem_write_inv: "ioapic_inv a \<Longrightarrow> ioapic_inv (snd (mem_write addr len data a))"
  by (simp add: mem_write_def write_aligned_inv)

lemma set_pin_level_inv: "ioapic_inv a \<Longrightarrow> ioapic_inv (snd (set_pin_level n l a))"
  by (simp add: ioapic_inv_def set_pin_level_def Let_def)

lemma complete_inv: "ioapic_inv a \<Longrightarrow> ioapic_inv (complete_deferred_delivery d b a)"
  by (simp add: ioapic_inv_def complete_deferred_delivery_def Let_def)

lemma take_pending_inv: "ioapic_inv a \<Longrightarrow> ioapic_inv (snd (take_pending_deliveries a))"
  by (simp add: ioapic_inv_def take_pending_deliveries_def)

lemma service_pin_inv:
  "ioapic_inv a \<Longrightarrow> ioapic_inv (fst (service_pin ack pin (a, x)))"
  by (auto simp: ioapic_inv_def service_pin_def enqueue_delivery_def Let_def split: prod.splits
      if_splits)

lemma service_inv: "ioapic_inv a \<Longrightarrow> ioapic_inv (fst (ioapic_service ack a x))"
proof -
  have "ioapic_inv a \<Longrightarrow> ioapic_inv (fst (fold (service_pin ack) ps (a, x)))" for ps a x
  proof (induction ps arbitrary: a x)
    case (Cons p ps)
    obtain a1 x1 where s: "service_pin ack p (a, x) = (a1, x1)" by (cases "service_pin ack p (a, x)")
    with service_pin_inv [OF Cons.prems, of ack p x] Cons.IH [of a1 x1] show ?case by simp
  qed simp
  then show "ioapic_inv a \<Longrightarrow> ?thesis" by (simp add: ioapic_service_def)
qed

section \<open>Servicing one pin\<close>

definition active :: "ioapic \<Rightarrow> nat \<Rightarrow> bool" where
  "active a pin \<longleftrightarrow> bit (io_irr a) pin \<and> \<not> is_masked (io_ioredtbl a ! pin)"

definition sendable :: "redirect_entry \<Rightarrow> bool" where
  "sendable e \<longleftrightarrow> \<not> (entry_delivery_mode e = 1 \<and> destination_mode e = 0)"

text \<open>The message a pin's entry calls for; the vector of an ExtINT entry is the source's.\<close>

definition message_of :: "redirect_entry \<Rightarrow> nat \<Rightarrow> pending_delivery \<Rightarrow> bool" where
  "message_of e pin d \<longleftrightarrow>
     d_pin d = of_nat pin \<and> d_delivery_mode d = entry_delivery_mode e \<and>
     d_trigger_mode d = entry_trigger_mode e \<and> d_dest d = ucast (entry_destination e) \<and>
     d_dest_mode d = destination_mode e \<and> \<not> d_needs_pic_iac d \<and>
     (entry_delivery_mode e \<noteq> 7 \<longrightarrow> d_vector d = entry_vector e)"

text \<open>
  The effect of servicing the pins \<open>ps\<close>: delivery status on every active pin, one message per
  active pin whose entry can be sent, in order, and the request of an edge-triggered pin
  consumed by its message.
\<close>

definition serviced :: "nat list \<Rightarrow> ioapic \<Rightarrow> ioapic \<Rightarrow> bool" where
  "serviced ps a b \<longleftrightarrow>
     length (io_ioredtbl b) = length (io_ioredtbl a) \<and> io_intin b = io_intin a \<and>
     (\<forall>k < IOAPIC_NUM_PINS.
        io_ioredtbl b ! k = (if k \<in> set ps \<and> active a k then set_delivery_status (io_ioredtbl a ! k)
                             else io_ioredtbl a ! k) \<and>
        (bit (io_irr b) k \<longleftrightarrow> bit (io_irr a) k \<and>
           \<not> (k \<in> set ps \<and> active a k \<and> sendable (io_ioredtbl a ! k) \<and>
              \<not> bit (e_lo (io_ioredtbl a ! k)) 15))) \<and>
     (\<exists>new. io_pending b = io_pending a @ new \<and>
        list_all2 (\<lambda>k. message_of (io_ioredtbl a ! k) k)
          (filter (\<lambda>k. active a k \<and> sendable (io_ioredtbl a ! k)) ps) new)"

lemma service_pin_serviced:
  assumes "p < length (io_ioredtbl a)" "length (io_pending a) < IOAPIC_PENDING_DELIVERY_CAPACITY"
  shows "serviced [p] a (fst (service_pin ack p (a, x)))"
proof (cases "active a p")
  case False
  then have "service_pin ack p (a, x) = (a, x)"
    by (auto simp: service_pin_def active_def bits Let_def)
  with False show ?thesis by (auto simp: serviced_def)
next
  case True
  then have act: "\<not> (io_irr a AND bitm p = 0 \<or> is_masked (io_ioredtbl a ! p))"
    by (simp add: active_def bits)
  show ?thesis
  proof (cases "sendable (io_ioredtbl a ! p)")
    case True
    moreover have "p < 32" using act bit_imp_le_length [of "io_irr a" p] by (simp add: bits)
    ultimately show ?thesis
      using act assms \<open>active a p\<close>
      by (simp add: service_pin_def serviced_def sendable_def enqueue_delivery_def Let_def
          message_of_def nth_list_update_if bits split: prod.splits) auto
  next
    case False
    then show ?thesis
      using act assms \<open>active a p\<close>
      by (simp add: service_pin_def serviced_def sendable_def Let_def nth_list_update_if
          split: prod.splits)
  qed
qed

lemma serviced_other:
  assumes "serviced [p] a b" "k \<noteq> p" "k < IOAPIC_NUM_PINS"
  shows "io_ioredtbl b ! k = io_ioredtbl a ! k" "active b k = active a k"
    "bit (io_irr b) k = bit (io_irr a) k"
  using assms by (simp_all add: serviced_def active_def)

lemma serviced_same:
  assumes "serviced ps b c" "k \<notin> set ps" "k < IOAPIC_NUM_PINS"
  shows "io_ioredtbl c ! k = io_ioredtbl b ! k" "bit (io_irr c) k = bit (io_irr b) k"
  using assms by (simp_all add: serviced_def)

lemma serviced_Cons:
  assumes ab: "serviced [p] a b" and bc: "serviced ps b c"
    and dist: "p \<notin> set ps" "\<forall>k \<in> set ps. k < IOAPIC_NUM_PINS"
  shows "serviced (p # ps) a c"
proof -
  let ?P = "\<lambda>a k. active a k \<and> sendable (io_ioredtbl a ! k)"
  have other: "io_ioredtbl b ! k = io_ioredtbl a ! k \<and> active b k = active a k \<and>
      bit (io_irr b) k = bit (io_irr a) k" if "k \<noteq> p" "k < IOAPIC_NUM_PINS" for k
    using serviced_other [OF ab that] by blast
  from ab obtain n1 where n1: "io_pending b = io_pending a @ n1"
    "list_all2 (\<lambda>k. message_of (io_ioredtbl a ! k) k) (filter (?P a) [p]) n1"
    by (auto simp: serviced_def)
  from bc obtain n2 where n2: "io_pending c = io_pending b @ n2"
    "list_all2 (\<lambda>k. message_of (io_ioredtbl b ! k) k) (filter (?P b) ps) n2"
    by (auto simp: serviced_def)
  have in_ps: "k \<in> set ps \<Longrightarrow> io_ioredtbl b ! k = io_ioredtbl a ! k \<and> active b k = active a k" for k
    using other [of k] dist by (cases "k = p") simp_all
  then have "filter (?P b) ps = filter (?P a) ps"
    by (intro filter_cong) auto
  with n2(2) have "list_all2 (\<lambda>k. message_of (io_ioredtbl b ! k) k) (filter (?P a) ps) n2" by simp
  then have m2: "list_all2 (\<lambda>k. message_of (io_ioredtbl a ! k) k) (filter (?P a) ps) n2"
    by (rule list.rel_mono_strong) (use in_ps in auto)
  have "filter (?P a) (p # ps) = filter (?P a) [p] @ filter (?P a) ps" by simp
  with list_all2_appendI [OF n1(2) m2] have msgs:
    "list_all2 (\<lambda>k. message_of (io_ioredtbl a ! k) k) (filter (?P a) (p # ps)) (n1 @ n2)"
    by (simp only:)
  have pins: "io_ioredtbl c ! k = (if k \<in> set (p # ps) \<and> active a k
        then set_delivery_status (io_ioredtbl a ! k) else io_ioredtbl a ! k) \<and>
      (bit (io_irr c) k \<longleftrightarrow> bit (io_irr a) k \<and> \<not> (k \<in> set (p # ps) \<and> active a k \<and>
         sendable (io_ioredtbl a ! k) \<and> \<not> bit (e_lo (io_ioredtbl a ! k)) 15))"
    if k: "k < IOAPIC_NUM_PINS" for k
  proof (cases "k = p")
    case True
    with serviced_same [OF bc, of p] k dist(1) ab show ?thesis by (simp add: serviced_def)
  next
    case False
    with other [OF False k] bc k show ?thesis by (simp add: serviced_def)
  qed
  have "io_pending c = io_pending a @ n1 @ n2" using n1(1) n2(1) by simp
  moreover have "length (io_ioredtbl c) = length (io_ioredtbl a)" "io_intin c = io_intin a"
    using ab bc by (simp_all add: serviced_def)
  ultimately show ?thesis unfolding serviced_def using msgs pins by blast
qed

lemma service_pins_serviced:
  "distinct ps \<Longrightarrow> \<forall>k \<in> set ps. k < IOAPIC_NUM_PINS \<Longrightarrow> length (io_ioredtbl a) = IOAPIC_NUM_PINS \<Longrightarrow>
   length (io_pending a) + length ps \<le> IOAPIC_PENDING_DELIVERY_CAPACITY \<Longrightarrow>
   serviced ps a (fst (fold (service_pin ack) ps (a, x)))"
proof (induction ps arbitrary: a x)
  case Nil
  then show ?case by (auto simp: serviced_def)
next
  case (Cons p ps)
  obtain b y where s: "service_pin ack p (a, x) = (b, y)" by (cases "service_pin ack p (a, x)")
  have ab: "serviced [p] a b"
    using service_pin_serviced [of p a ack x] Cons.prems s by simp
  then obtain new where "io_pending b = io_pending a @ new"
    "list_all2 (\<lambda>k. message_of (io_ioredtbl a ! k) k)
       (filter (\<lambda>k. active a k \<and> sendable (io_ioredtbl a ! k)) [p]) new"
    by (auto simp: serviced_def)
  then have "length (io_pending b) \<le> length (io_pending a) + 1"
    by (auto dest: list_all2_lengthD split: if_splits)
  then have "serviced ps b (fst (fold (service_pin ack) ps (b, y)))"
    using Cons.IH [of b y] Cons.prems ab by (simp add: serviced_def)
  with serviced_Cons [OF ab] Cons.prems s show ?case by simp
qed

section \<open>Register window\<close>

definition entry_select :: "bool \<Rightarrow> nat \<Rightarrow> u32" where
  "entry_select hi i = of_nat (0x10 + 2 * i + (if hi then 1 else 0))"

lemma entry_select_props:
  assumes "i < IOAPIC_NUM_PINS"
  shows "unat (drop_bit 1 (entry_select hi i - IOREGSEL_REDTBL_BASE)) = i"
    "entry_select hi i AND 1 \<noteq> 0 \<longleftrightarrow> hi"
    "entry_select hi i \<notin> {IOREGSEL_ID, IOREGSEL_VERSION, IOREGSEL_ARB_ID}"
proof -
  have u: "unat (entry_select hi i) = 0x10 + 2 * i + (if hi then 1 else 0)"
    using assms unfolding entry_select_def
    by (intro unat_of_nat_small) (simp add: IOAPIC_NUM_PINS_def)
  then have "unat (entry_select hi i - IOREGSEL_REDTBL_BASE) = 2 * i + (if hi then 1 else 0)"
    by (subst unat_sub) (simp_all add: word_le_nat_alt ioregsel)
  then show "unat (drop_bit 1 (entry_select hi i - IOREGSEL_REDTBL_BASE)) = i"
    by (simp add: drop_bit_eq_div unat_div_distrib)
  have "entry_select hi i AND 1 \<noteq> 0 \<longleftrightarrow> bit (unat (entry_select hi i)) 0"
    using and_1_bit [of 0 "entry_select hi i"] by (simp only: drop_bit_0 id_apply bit_unsigned_iff) simp
  then show "entry_select hi i AND 1 \<noteq> 0 \<longleftrightarrow> hi" by (simp add: u bit_0)
  show "entry_select hi i \<notin> {IOREGSEL_ID, IOREGSEL_VERSION, IOREGSEL_ARB_ID}"
    using u by (auto simp: ioregsel word_unat_eq_iff)
qed

section \<open>The memory window\<close>

definition window_ok :: "ioapic \<Rightarrow> mmio_map \<Rightarrow> bool" where
  "window_ok a m \<longleftrightarrow>
     mmio_inv m \<and> (io_enabled a \<longrightarrow> mmio_mapped IOAPIC_TOKEN (window_base a) (window_end a) m)"

lemma window_end_bound: "window_base a \<le> window_end a" "window_end a < 2 ^ 64"
  using unat_bound [of "io_base_addr a"]
  by (simp_all add: window_base_def window_end_def IOAPIC_MMIO_SIZE_def)

section \<open>Snapshot codecs\<close>

definition entry_enc :: "redirect_entry \<Rightarrow> bytes" where
  "entry_enc e = to_le_bytes 4 (e_lo e) @ to_le_bytes 4 (e_hi e)"

definition entry_storable :: "redirect_entry \<Rightarrow> bool" where
  "entry_storable e \<longleftrightarrow> validate_ioapic_route (e_lo e) (e_hi e) = Inr ()"

definition delivery_enc :: "pending_delivery \<Rightarrow> bytes" where
  "delivery_enc d = [d_pin d] @ [d_vector d] @ [d_delivery_mode d] @ [d_trigger_mode d] @
     to_le_bytes 4 (d_dest d) @ [d_dest_mode d] @ enc_bool (d_needs_pic_iac d)"

definition delivery_storable :: "pending_delivery \<Rightarrow> bool" where
  "delivery_storable d \<longleftrightarrow> validate_ioapic_delivery d = Inr ()"

interpretation entryc: snap_codec save_entry restore_entry entry_enc entry_storable
  by unfold_locales
    (auto simp: save_entry_def restore_entry_def entry_enc_def entry_storable_def rd_bind_iff
      rd_lift_iff scalar_iff)

interpretation delivc: snap_codec save_ioapic_delivery restore_ioapic_delivery delivery_enc
    delivery_storable
proof unfold_locales
  fix d :: pending_delivery and w r bs
  show "save_ioapic_delivery d w = Inr (w @ delivery_enc d)" if "delivery_storable d"
    using that by (simp add: save_ioapic_delivery_def delivery_storable_def delivery_enc_def)
  show "restore_ioapic_delivery (delivery_enc d @ r) = Inr (d, r)" if "delivery_storable d"
    using that
    by (cases d) (simp add: restore_ioapic_delivery_def delivery_storable_def delivery_enc_def)
  show "delivery_storable d \<and> bs = delivery_enc d @ r"
    if "restore_ioapic_delivery bs = Inr (d, r)"
    using that
    by (auto simp: restore_ioapic_delivery_def rd_bind_iff rd_lift_iff scalar_iff Let_def
        delivery_storable_def delivery_enc_def)
qed

lemma queue_capacity: "ioapic_queue_capacity = Inr 256"
  by (simp add: ioapic_queue_capacity_def IOAPIC_PENDING_DELIVERY_CAPACITY_def MAX_SNAPSHOT_QUEUE_LEN_def)

lemma validate_state_iff:
  "validate_ioapic_snapshot_state a = Inr () \<longleftrightarrow>
     validate_ioapic_configuration a (io_enabled a) (io_base_addr a) (io_id a) (io_intin a)
       (io_irr a) = Inr () \<and>
     (\<forall>e \<in> set (io_ioredtbl a). entry_storable e) \<and> length (io_pending a) \<le> 256 \<and>
     (\<forall>d \<in> set (io_pending a). delivery_storable d)"
  by (auto simp: validate_ioapic_snapshot_state_def attempt_Inr_iff validate_each_iff queue_capacity
      entry_storable_def delivery_storable_def split: if_splits)

lemma snapshot_len_val:
  assumes "validate_ioapic_snapshot_state a = Inr ()"
  shows "ioapic_snapshot_len a = Inr (of_nat (221 + 10 * length (io_pending a)))"
proof -
  have n: "length (io_pending a) \<le> 256" using assms by (simp add: validate_state_iff)
  define q where "q = length (io_pending a)"
  have u: "unat (of_nat q :: u64) = q" "unat (of_nat (10 * q) :: u64) = 10 * q"
    "unat (of_nat (221 + 10 * q) :: u64) = 221 + 10 * q"
    using n unfolding q_def by (intro unat_of_nat_small; simp)+
  have bound: "(of_nat MAX_SECTION_LEN :: u64) = 4294967296" by (simp add: MAX_SECTION_LEN_def)
  have mul: "checked_snapshot_len_mul (of_nat q) 10 = Inr (of_nat (10 * q))"
    unfolding checked_snapshot_len_mul_def checked_len_mul_iff bound word_le_nat_alt u
    using n by (simp add: q_def)
  moreover have "checked_snapshot_len_mul 24 8 = Inr 192" "checked_snapshot_len_add 25 192 = Inr 217"
    "checked_snapshot_len_add 217 4 = Inr 221"
    by (simp_all add: checked_snapshot_len_mul_def checked_snapshot_len_add_def checked_len_mul_def
        checked_len_add_def MAX_SECTION_LEN_def)
  moreover have "checked_snapshot_len_add 221 (of_nat (10 * q)) = Inr (of_nat (221 + 10 * q))"
    unfolding checked_snapshot_len_add_def checked_len_add_iff bound word_le_nat_alt u
    using n by (simp add: q_def)
  ultimately show ?thesis
    using assms mul unfolding ioapic_snapshot_len_def q_def by simp
qed

definition ioapic_enc :: "ioapic \<Rightarrow> bytes" where
  "ioapic_enc a =
     to_le_bytes 4 SNAPSHOT_SECTION_VERSION @ enc_bool (io_enabled a) @
     to_le_bytes 4 (io_base_addr a) @ to_le_bytes 4 (io_id a) @ to_le_bytes 4 (io_ioregsel a) @
     to_le_bytes 4 (io_intin a) @ to_le_bytes 4 (io_irr a) @
     concat (map entry_enc (io_ioredtbl a)) @ to_le_bytes 4 (of_nat (length (io_pending a)) :: u32) @
     concat (map delivery_enc (io_pending a))"

lemma ioapic_save_enc:
  assumes "validate_ioapic_snapshot_state a = Inr ()"
  shows "ioapic_save a w = Inr (w @ ioapic_enc a)"
  using assms
  by (simp add: ioapic_save_def snapshot_len_val ioapic_enc_def validate_state_iff
      entryc.write_each_enc delivc.write_each_enc)

lemma length_ioapic_enc:
  assumes "length (io_ioredtbl a) = 24"
  shows "length (ioapic_enc a) = 221 + 10 * length (io_pending a)"
proof -
  have "length (concat (map entry_enc es)) = 8 * length es" for es
    by (induction es) (simp_all add: entry_enc_def)
  moreover have "length (concat (map delivery_enc ds)) = 10 * length ds" for ds
    by (induction ds) (simp_all add: delivery_enc_def enc_bool_def)
  ultimately show ?thesis using assms by (simp add: ioapic_enc_def enc_bool_def)
qed

lemma ioapic_restore_enc:
  assumes "validate_ioapic_snapshot_state a = Inr ()" "length (io_ioredtbl a) = IOAPIC_NUM_PINS"
    and "io_enabled live = io_enabled a" "io_base_addr live = io_base_addr a"
  shows "ioapic_restore live (ioapic_enc a @ r) =
    Inr (a\<lparr>io_stuck_count := io_stuck_count live\<rparr>, r)"
proof -
  from assms(1) have v: "\<forall>e \<in> set (io_ioredtbl a). entry_storable e" "length (io_pending a) \<le> 256"
    "\<forall>d \<in> set (io_pending a). delivery_storable d"
    by (simp_all add: validate_state_iff)
  have "validate_ioapic_configuration live (io_enabled a) (io_base_addr a) (io_id a) (io_intin a)
      (io_irr a) = Inr ()"
    using assms by (simp add: validate_state_iff validate_ioapic_configuration_def)
  moreover have "length (io_pending a) \<le> MAX_COUNT" using v(2) by (simp add: MAX_COUNT_def)
  moreover have "live\<lparr>io_id := io_id a, io_ioregsel := io_ioregsel a, io_intin := io_intin a,
      io_irr := io_irr a, io_ioredtbl := io_ioredtbl a, io_pending := io_pending a\<rparr> =
      a\<lparr>io_stuck_count := io_stuck_count live\<rparr>"
    using assms(3,4) by simp
  ultimately show ?thesis
    using v assms(2)
    by (simp add: ioapic_restore_def ioapic_enc_def queue_capacity entryc.read_each_enc
        delivc.read_each_enc)
qed

section \<open>Reachable controllers\<close>

inductive ioapic_reachable :: "ioapic \<Rightarrow> bool" where
  ioapic_start: "ioapic_reachable ioapic_new"
| ioapic_write: "ioapic_reachable a \<Longrightarrow> ioapic_reachable (snd (mem_write addr len data a))"
| ioapic_pin: "ioapic_reachable a \<Longrightarrow> ioapic_reachable (snd (set_pin_level n level a))"
| ioapic_scan: "ioapic_reachable a \<Longrightarrow> ioapic_reachable (fst (ioapic_service ack a (x :: u8 list)))"
| ioapic_take: "ioapic_reachable a \<Longrightarrow> ioapic_reachable (snd (take_pending_deliveries a))"
| ioapic_complete: "ioapic_reachable a \<Longrightarrow> ioapic_reachable (complete_deferred_delivery d ok a)"
| ioapic_resets: "ioapic_reachable a \<Longrightarrow> ioapic_reachable (ioapic_reset a)"
| ioapic_ident: "ioapic_reachable a \<Longrightarrow> ioapic_reachable (ioapic_set_id i a)"

lemma ioapic_reachable_inv: "ioapic_reachable a \<Longrightarrow> ioapic_inv a"
  by (induction rule: ioapic_reachable.induct)
    (auto simp: ioapic_new_inv mem_write_inv set_pin_level_inv service_inv take_pending_inv
      complete_inv ioapic_reset_inv ioapic_set_id_def ioapic_inv_def [of "a\<lparr>io_id := b\<rparr>" for a b]
      ioapic_inv_def [THEN iffD1])

lemma ioapic_new_storable: "validate_ioapic_snapshot_state ioapic_new = Inr ()"
  unfolding validate_state_iff entry_storable_def
  by (simp add: ioapic_new_def validate_ioapic_configuration_def IOAPIC_DEFAULT_ID_def
      APIC_ID_MASK_def validate_ioapic_route_def entry_default_def REDIRECT_ENTRY_DEFAULT_LO_def
      valid_ioapic_delivery_mode_def ioapic_mode_requires_vector_def bitm_def)

section \<open>Driving a pin\<close>

lemma pin_level_effect:
  assumes "ioapic_inv a" "p = (if n = 0 then 2 else unat n)" "p < IOAPIC_NUM_PINS"
    and "lvl = bit (e_lo (io_ioredtbl a ! p)) 15" "msk = bit (e_lo (io_ioredtbl a ! p)) 16"
    and "changed = (bit (io_intin a) p \<noteq> level)"
  shows "bit (io_intin (snd (set_pin_level n level a))) k =
      (if k = p then level else bit (io_intin a) k) \<and>
    bit (io_irr (snd (set_pin_level n level a))) k =
      (if k = p \<and> changed then (if lvl then level else (level \<and> \<not> msk) \<or> bit (io_irr a) p)
       else bit (io_irr a) k) \<and>
    (fst (set_pin_level n level a) = Needed \<longleftrightarrow> changed \<and> level \<and> (lvl \<or> \<not> msk)) \<and>
    io_ioredtbl (snd (set_pin_level n level a)) = io_ioredtbl a"
proof -
  define n' where "n' = (if n = 0 then 2 else n)"
  have p: "unat n' = p" "p < 24" using assms(2,3) by (auto simp: n'_def IOAPIC_NUM_PINS_def)
  have "(if level then bitm p else 0) = io_intin a AND bitm p \<longleftrightarrow> \<not> changed"
    using p(2) assms(6) by (simp add: and_bitm_if bitm_nonzero)
  then show ?thesis
    using p assms(3) unfolding assms(4,5)
    by (auto simp: set_pin_level_def Let_def n'_def [symmetric] bits assms(6))
qed

section \<open>Properties\<close>

text \<open>
  C32. A servicing scan with room in the queue handles every pin exactly once: each requested,
  unmasked pin gets its delivery status set; each of them whose entry can be sent (anything but
  lowest-priority delivery in physical mode) queues exactly one message, in pin order, carrying
  the entry's fields; an edge-triggered request is consumed by its message, a level-triggered
  one stays; nothing else changes.
\<close>

theorem ioapic_service_handles_every_pin:
  assumes "ioapic_inv a" "length (io_pending a) + IOAPIC_NUM_PINS \<le> IOAPIC_PENDING_DELIVERY_CAPACITY"
  shows "serviced [0..<IOAPIC_NUM_PINS] a (fst (ioapic_service ack a ext))"
  using service_pins_serviced [of "[0..<IOAPIC_NUM_PINS]" a ack ext] assms
  by (simp add: ioapic_service_def ioapic_inv_def)

text \<open>A controller with pin 5 routed to vector 0x31 and its line raised.\<close>

definition routed_ioapic :: ioapic where
  "routed_ioapic = snd (set_pin_level 5 True
     (ioapic_new\<lparr>io_ioredtbl := (io_ioredtbl ioapic_new)[5 := \<lparr>e_lo = 0x31, e_hi = 0\<rparr>]\<rparr>))"

lemma routed_ioapic_eq:
  "routed_ioapic = ioapic_new\<lparr>io_ioredtbl := (replicate IOAPIC_NUM_PINS entry_default)[5 := \<lparr>e_lo = 0x31, e_hi = 0\<rparr>],
     io_intin := bitm 5, io_irr := bitm 5\<rparr>"
  by (simp add: routed_ioapic_def set_pin_level_def Let_def ioapic_new_def IOAPIC_NUM_PINS_def
      entry_trigger_mode_def is_masked_def bitm_def)

lemma routed_ioapic_active: "filter (\<lambda>k. active routed_ioapic k \<and> sendable (io_ioredtbl routed_ioapic ! k))
    [0..<IOAPIC_NUM_PINS] = [5]"
proof -
  have "active routed_ioapic k \<and> sendable (io_ioredtbl routed_ioapic ! k) \<longleftrightarrow> k = 5" if "k < IOAPIC_NUM_PINS" for k
    using that by (auto simp: routed_ioapic_eq active_def sendable_def bits nth_list_update
        is_masked_def entry_delivery_mode_def entry_default_def REDIRECT_ENTRY_DEFAULT_LO_def
        IOAPIC_NUM_PINS_def)
  then have "filter (\<lambda>k. active routed_ioapic k \<and> sendable (io_ioredtbl routed_ioapic ! k)) [0..<IOAPIC_NUM_PINS]
      = filter (\<lambda>k. k = 5) [0..<IOAPIC_NUM_PINS]" by (intro filter_cong) simp_all
  then show ?thesis by (simp add: IOAPIC_NUM_PINS_def upt_rec)
qed

theorem ioapic_service_handles_every_pin_witness:
  "\<exists>d. io_pending (fst (ioapic_service (\<lambda>x. (0, x)) routed_ioapic ())) = [d] \<and> d_pin d = 5 \<and> d_vector d = 0x31"
proof -
  have "ioapic_inv routed_ioapic"
    unfolding routed_ioapic_def by (rule set_pin_level_inv) (use ioapic_new_inv in \<open>simp add: ioapic_inv_def\<close>)
  then have "serviced [0..<IOAPIC_NUM_PINS] routed_ioapic (fst (ioapic_service (\<lambda>x. (0, x)) routed_ioapic ()))"
    by (rule ioapic_service_handles_every_pin)
      (simp add: routed_ioapic_eq ioapic_new_def IOAPIC_NUM_PINS_def IOAPIC_PENDING_DELIVERY_CAPACITY_def)
  then show ?thesis
    unfolding serviced_def routed_ioapic_active
    by (auto simp: list_all2_Cons1 message_of_def routed_ioapic_eq ioapic_new_def IOAPIC_NUM_PINS_def
        entry_delivery_mode_def entry_vector_def)
qed

text \<open>
  The input pins: driving pin \<open>n\<close> (pin 0 being wired to pin 2) sets exactly that pin's input
  bit; a level-triggered request follows the line, an edge-triggered one is latched by a rising
  edge of an unmasked pin and survives the falling edge; a scan is asked for exactly when a
  request was set.
\<close>

theorem set_pin_level_effect:
  assumes "ioapic_inv a" "p = (if n = 0 then 2 else unat n)" "p < IOAPIC_NUM_PINS"
    and "lvl = bit (e_lo (io_ioredtbl a ! p)) 15" "msk = bit (e_lo (io_ioredtbl a ! p)) 16"
    and "changed = (bit (io_intin a) p \<noteq> level)"
  shows "bit (io_intin (snd (set_pin_level n level a))) k =
      (if k = p then level else bit (io_intin a) k) \<and>
    bit (io_irr (snd (set_pin_level n level a))) k =
      (if k = p \<and> changed then (if lvl then level else (level \<and> \<not> msk) \<or> bit (io_irr a) p)
       else bit (io_irr a) k) \<and>
    (fst (set_pin_level n level a) = Needed \<longleftrightarrow> changed \<and> level \<and> (lvl \<or> \<not> msk)) \<and>
    io_ioredtbl (snd (set_pin_level n level a)) = io_ioredtbl a"
  using assms by (rule pin_level_effect)

theorem set_pin_level_effect_witness:
  "ioapic_inv ioapic_new \<and> bit (io_intin (snd (set_pin_level 0 True ioapic_new))) 2"
  using set_pin_level_effect [OF ioapic_new_inv, of 2 0 _ _ _ True 2] ioapic_new_inv
  by (simp add: IOAPIC_NUM_PINS_def)

text \<open>
  The register window: selecting the low or high word of entry \<open>i\<close> and writing it through
  IOWIN asks for a scan, changes only that word, and reads back what was written, with the
  delivery-status and remote-IRR bits (12 and 14) of a low word cleared.
\<close>

theorem redirection_register_round_trip:
  assumes "ioapic_inv a" "i < IOAPIC_NUM_PINS"
    and "b = snd (write_aligned 0 (entry_select hi i) a)"
  shows "fst (write_aligned 0x10 v b) = Needed \<and>
    read_aligned 0x10 (snd (write_aligned 0x10 v b)) = (if hi then v else v AND 0xFFFFAFFF) \<and>
    io_ioredtbl (snd (write_aligned 0x10 v b)) = (io_ioredtbl a)
      [i := (if hi then (io_ioredtbl a ! i)\<lparr>e_hi := v\<rparr>
             else (io_ioredtbl a ! i)\<lparr>e_lo := v AND 0xFFFFAFFF\<rparr>)]"
proof -
  have b: "b = a\<lparr>io_ioregsel := entry_select hi i\<rparr>" using assms(3) by (simp add: write_aligned_def)
  have "raw_index (b\<lparr>io_ioredtbl := t\<rparr>) = i" "raw_index b = i" for t
    using entry_select_props(1) [OF assms(2)] by (simp_all add: raw_index_def b)
  then show ?thesis
    using assms(1,2) entry_select_props(2,3) [OF assms(2), of hi] b
    by (auto simp: write_aligned_def read_aligned_def ioapic_inv_def set_hi_part_def
        set_lo_part_def REDIRECT_LO_WRITE_MASK_def)
qed

theorem redirection_register_round_trip_witness:
  "ioapic_inv ioapic_new \<and>
   read_aligned 0x10 (snd (write_aligned 0x10 0x8931 (snd (write_aligned 0 0x12 ioapic_new)))) = 0x8931"
  using redirection_register_round_trip [OF ioapic_new_inv, of 1 _ False "0x8931", OF _ refl]
    ioapic_new_inv by (simp add: IOAPIC_NUM_PINS_def entry_select_def)



text \<open>
  C35. The guest can make the machine unsaveable: after it writes a reserved bit into the high
  word of any redirection entry, which the register accepts and keeps, saving the controller
  fails whatever its state was.
\<close>

theorem guest_write_blocks_snapshot:
  assumes "ioapic_inv a" "i < IOAPIC_NUM_PINS"
  shows "\<exists>e. ioapic_save (snd (write_aligned 0x10 1 (snd (write_aligned 0 (entry_select True i) a)))) w =
    Inl e"
proof -
  let ?b = "snd (write_aligned 0 (entry_select True i) a)"
  let ?c = "snd (write_aligned 0x10 1 ?b)"
  have b: "?b = a\<lparr>io_ioregsel := entry_select True i\<rparr>" by (simp add: write_aligned_def)
  have "raw_index ?b = i" using entry_select_props(1) [OF assms(2)] by (simp add: raw_index_def b)
  then have c: "io_ioredtbl ?c = (io_ioredtbl a)[i := set_hi_part 1 (io_ioredtbl a ! i)]"
    using assms entry_select_props(2,3) [OF assms(2), of True] b
    by (auto simp: write_aligned_def)
  have "\<not> entry_storable (set_hi_part 1 e)" for e
    by (simp add: entry_storable_def validate_ioapic_route_def set_hi_part_def)
  moreover have "set_hi_part 1 (io_ioredtbl a ! i) \<in> set (io_ioredtbl ?c)"
    unfolding c using assms by (intro set_update_memI) (simp add: ioapic_inv_def)
  ultimately have "validate_ioapic_snapshot_state ?c \<noteq> Inr ()" unfolding validate_state_iff by blast
  then obtain e where "validate_ioapic_snapshot_state ?c = Inl e"
    by (cases "validate_ioapic_snapshot_state ?c") auto
  then show ?thesis by (simp add: ioapic_save_def ioapic_snapshot_len_def)
qed

theorem guest_write_blocks_snapshot_witness:
  "(\<exists>bs. ioapic_save ioapic_new [] = Inr bs) \<and>
   (\<exists>e. ioapic_save (snd (write_aligned 0x10 1 (snd (write_aligned 0 0x11 ioapic_new)))) [] = Inl e)"
proof -
  have "validate_ioapic_snapshot_state ioapic_new = Inr ()" by (rule ioapic_new_storable)
  then show ?thesis
    using guest_write_blocks_snapshot [OF ioapic_new_inv, of 0 "[]"] ioapic_save_enc [of ioapic_new "[]"]
    by (simp add: IOAPIC_NUM_PINS_def entry_select_def)
qed

end
