(* ===== verification/Irq_Fabric.thy ===== *)
theory Irq_Fabric
  imports Pic_Delivery Io_Apic_Laws
begin

text \<open>
  The interrupt fabric of \<^verbatim>\<open>rusty_box/src/iodev/irq.rs\<close>: the 8259 pair and the I/O APIC as one
  machine part. A device drives an ISA line through the fabric; the fabric drives the 8259 and,
  when the 8259 reports an edge, the I/O APIC pin behind the line, inside the same call. The
  fabric also lends its 8259 to the I/O APIC's scan for ExtINT entries and tallies every
  acknowledge cycle.

  The theorems show that the two controllers never disagree about an ISA line, that the line
  interface answers the level driven last, that a rising line queues exactly the message its
  redirection entry describes, that no acknowledge cycle escapes the tally, and what an
  end-of-interrupt queues again.
\<close>

section \<open>Messages\<close>

datatype io_apic_trigger = Edge | Level

definition trigger_from_raw :: "u8 \<Rightarrow> io_apic_trigger" where
  "trigger_from_raw raw = (if raw AND 1 = 0 then Edge else Level)"

datatype io_apic_destination_mode = Physical | Logical

definition destination_mode_from_raw :: "u8 \<Rightarrow> io_apic_destination_mode" where
  "destination_mode_from_raw raw = (if raw AND 1 = 0 then Physical else Logical)"

record io_apic_delivery =
  v_vector :: u8
  v_delivery_mode :: delivery_mode
  v_trigger_mode :: io_apic_trigger
  v_dest :: u32
  v_dest_mode :: io_apic_destination_mode

definition from_pending :: "pending_delivery \<Rightarrow> io_apic_delivery" where
  "from_pending d =
     \<lparr>v_vector = d_vector d, v_delivery_mode = delivery_mode_from_raw (d_delivery_mode d),
      v_trigger_mode = trigger_from_raw (d_trigger_mode d), v_dest = d_dest d,
      v_dest_mode = destination_mode_from_raw (d_dest_mode d)\<rparr>"

section \<open>The fabric\<close>

definition LINT0_VIRTUAL_WIRE :: u64 where "LINT0_VIRTUAL_WIRE = 0x700"
definition LVT_MASKED :: u64 where "LVT_MASKED = bitm 16"
definition LVT_DELIVERY_MODE :: u64 where "LVT_DELIVERY_MODE = push_bit 8 7"
definition LVT_DELIVERY_EXT_INT :: u64 where "LVT_DELIVERY_EXT_INT = push_bit 8 7"

record irq_fabric =
  f_pic :: pic
  f_ioapic :: ioapic
  f_acknowledge_count :: u64
  f_vectors_acknowledged :: "u32 list"
  f_lint0 :: u64

definition fabric_new :: irq_fabric where
  "fabric_new = \<lparr>f_pic = pic_new, f_ioapic = ioapic_new, f_acknowledge_count = 0,
     f_vectors_acknowledged = replicate 256 0, f_lint0 = LINT0_VIRTUAL_WIRE\<rparr>"

text \<open>One counted acknowledge cycle, on the three parts it touches.\<close>

type_synonym intr_source = "pic \<times> u64 \<times> u32 list"

definition acknowledge_8259 :: "intr_source \<Rightarrow> u8 \<times> intr_source" where
  "acknowledge_8259 = (\<lambda>(p, count, histogram).
     let (vector, p1) = iac p
     in (vector, p1, count + 1, histogram[unat vector := histogram ! unat vector + 1]))"

definition with_source :: "irq_fabric \<Rightarrow> intr_source \<Rightarrow> irq_fabric" where
  "with_source f = (\<lambda>(p, count, histogram).
     f\<lparr>f_pic := p, f_acknowledge_count := count, f_vectors_acknowledged := histogram\<rparr>)"

definition source_of :: "irq_fabric \<Rightarrow> intr_source" where
  "source_of f = (f_pic f, f_acknowledge_count f, f_vectors_acknowledged f)"

definition service_ioapic :: "irq_fabric \<Rightarrow> irq_fabric" where
  "service_ioapic f =
     (let (a, x) = ioapic_service acknowledge_8259 (f_ioapic f) (source_of f)
      in (with_source f x)\<lparr>f_ioapic := a\<rparr>)"

definition when_needed :: "service_request \<times> ioapic \<Rightarrow> irq_fabric \<Rightarrow> irq_fabric" where
  "when_needed r f =
     (case r of
        (NotNeeded, a) \<Rightarrow> f\<lparr>f_ioapic := a\<rparr>
      | (Needed, a) \<Rightarrow> service_ioapic (f\<lparr>f_ioapic := a\<rparr>))"

definition set_ioapic_pin :: "u8 \<Rightarrow> bool \<Rightarrow> irq_fabric \<Rightarrow> irq_fabric" where
  "set_ioapic_pin pin level f = when_needed (set_pin_level pin level (f_ioapic f)) f"

definition set_isa_level :: "u8 \<Rightarrow> bool \<Rightarrow> irq_fabric \<Rightarrow> irq_fabric" where
  "set_isa_level line level f =
     (case set_irq_level line level (f_pic f) of
        (NotCrossed, p) \<Rightarrow> f\<lparr>f_pic := p\<rparr>
      | (Crossed, p) \<Rightarrow> set_ioapic_pin line level (f\<lparr>f_pic := p\<rparr>))"

definition line_level :: "u8 \<Rightarrow> irq_fabric \<Rightarrow> bool" where
  "line_level line f = irq_line_level line (f_pic f)"

definition fabric_mmio_read :: "u64 \<Rightarrow> u32 \<Rightarrow> irq_fabric \<Rightarrow> bytes" where
  "fabric_mmio_read offset len f = mem_read offset len (f_ioapic f)"

definition fabric_mmio_write :: "u64 \<Rightarrow> u32 \<Rightarrow> bytes \<Rightarrow> irq_fabric \<Rightarrow> irq_fabric" where
  "fabric_mmio_write offset len data f = when_needed (mem_write offset len data (f_ioapic f)) f"

definition int_pin_asserted :: "irq_fabric \<Rightarrow> bool" where
  "int_pin_asserted f = has_interrupt (f_pic f)"

definition acknowledge :: "irq_fabric \<Rightarrow> u8 \<times> irq_fabric" where
  "acknowledge f = (let (vector, x) = acknowledge_8259 (source_of f) in (vector, with_source f x))"

definition has_pending_deliveries :: "irq_fabric \<Rightarrow> bool" where
  "has_pending_deliveries f \<longleftrightarrow> length (io_pending (f_ioapic f)) \<noteq> 0"

definition fabric_receive_eoi :: "u8 \<Rightarrow> irq_fabric \<Rightarrow> irq_fabric" where
  "fabric_receive_eoi vector f = f\<lparr>f_ioapic := ioapic_receive_eoi vector (f_ioapic f)\<rparr>"

definition set_bsp_lint0 :: "u64 \<Rightarrow> irq_fabric \<Rightarrow> irq_fabric" where
  "set_bsp_lint0 value f = f\<lparr>f_lint0 := value\<rparr>"

definition reset_bsp_lint0 :: "irq_fabric \<Rightarrow> irq_fabric" where
  "reset_bsp_lint0 f = f\<lparr>f_lint0 := LINT0_VIRTUAL_WIRE\<rparr>"

definition lint0_admits_ext_int :: "irq_fabric \<Rightarrow> bool" where
  "lint0_admits_ext_int f \<longleftrightarrow>
     f_lint0 f AND LVT_MASKED = 0 \<and> f_lint0 f AND LVT_DELIVERY_MODE = LVT_DELIVERY_EXT_INT"

definition resample_on_eoi :: "u8 \<Rightarrow> irq_fabric \<Rightarrow> bool \<times> irq_fabric" where
  "resample_on_eoi vector f =
     (if has_asserted_level_entry vector (f_ioapic f) then (True, service_ioapic f) else (False, f))"

section \<open>Lines of the 8259 pair\<close>

text \<open>The line inputs two states agree on: all of them but the cascade, line 2 of the master.\<close>

definition same_lines :: "pic \<Rightarrow> pic \<Rightarrow> bool" where
  "same_lines p q \<longleftrightarrow>
     (\<exists>v. c_irq_in (p_master q) = (c_irq_in (p_master p))[2 := v]) \<and>
     c_irq_in (p_slave q) = c_irq_in (p_slave p)"

lemma same_lines_refl: "c_irq_in (p_master q) = c_irq_in (p_master p) \<Longrightarrow>
    c_irq_in (p_slave q) = c_irq_in (p_slave p) \<Longrightarrow> same_lines p q"
  by (metis list_update_id same_lines_def)

lemma same_lines_trans: "same_lines p q \<Longrightarrow> same_lines q r \<Longrightarrow> same_lines p r"
  by (auto simp: same_lines_def)

lemma unat_eq_2: "unat n = 2 \<longleftrightarrow> n = 2" for n :: u8
  by (simp add: word_unat_eq_iff)

lemma same_lines_level:
  "same_lines p q \<Longrightarrow> n \<noteq> 2 \<Longrightarrow> irq_line_level n q = irq_line_level n p"
  by (auto simp: same_lines_def irq_line_level_def nth_list_update unat_eq_2)

lemma same_lines_on_chip:
  assumes "same_lines p q" "\<And>c. c_irq_in (f c) = c_irq_in c"
  shows "same_lines p (on_chip m f q)"
  using assms by (auto simp: same_lines_def on_chip_def)

lemma same_lines_cascade:
  "same_lines p q \<Longrightarrow> same_lines p (on_chip True (\<lambda>c. c\<lparr>c_irq_in := (c_irq_in c)[2 := v]\<rparr>) q)"
  by (auto simp: same_lines_def on_chip_def)

lemma same_lines_cascade_release:
  "same_lines p q \<Longrightarrow>
   same_lines p (on_chip True (\<lambda>c. c\<lparr>c_irq_in := (c_irq_in c)[2 := v], c_irr := g c\<rparr>) q)"
  by (auto simp: same_lines_def on_chip_def)

lemma same_lines_intr [simp]:
  "same_lines p (raise_intr q) = same_lines p q" "same_lines p (clear_intr q) = same_lines p q"
  by (simp_all add: same_lines_def raise_intr_def clear_intr_def)

lemma service_lines: "c_irq_in (fst (service c)) = c_irq_in c"
  by (simp add: service_def Let_def split: option.splits)

lemma dispatch_master_lines: "same_lines p q \<Longrightarrow> same_lines p (service_pic_dispatch True q)"
proof -
  assume pq: "same_lines p q"
  obtain c a where s: "service (p_master q) = (c, a)" by (cases "service (p_master q)")
  have "same_lines q (q\<lparr>p_master := c\<rparr>)"
    using service_lines [of "p_master q"] s by (intro same_lines_refl) simp_all
  with pq have "same_lines p (q\<lparr>p_master := c\<rparr>)" by (rule same_lines_trans)
  with s show ?thesis by (cases a) (simp_all add: service_pic_dispatch.simps)
qed

lemma cascade_lines: "same_lines p q \<Longrightarrow> same_lines p (set_cascade_line l q)"
proof -
  assume pq: "same_lines p q"
  then have "same_lines p (on_chip True (assert_line 2) q)"
    using same_lines_cascade [OF pq, of 1] by (simp add: assert_line_def [abs_def])
  moreover from this have "same_lines p (on_chip True (request_line 2) (on_chip True (assert_line 2) q))"
    by (rule same_lines_on_chip) (simp add: request_line_def)
  ultimately have "same_lines p (snd (raise_irq 2 q))"
    by (simp add: raise_irq.simps Let_def dispatch_master_lines)
  moreover have "same_lines p (snd (lower_irq 2 q))"
    using same_lines_cascade_release [OF pq, where v = 0] pq by (simp add: lower_irq_def)
  ultimately show ?thesis by (simp add: set_cascade_line.simps set_irq_level.simps)
qed

lemma dispatch_lines: "same_lines p q \<Longrightarrow> same_lines p (service_pic_dispatch m q)"
proof -
  assume pq: "same_lines p q"
  obtain c a where s: "service (p_slave q) = (c, a)" by (cases "service (p_slave q)")
  have "same_lines q (q\<lparr>p_slave := c\<rparr>)"
    using service_lines [of "p_slave q"] s by (intro same_lines_refl) simp_all
  with pq have "same_lines p (q\<lparr>p_slave := c\<rparr>)" by (rule same_lines_trans)
  with s pq dispatch_master_lines show ?thesis
    by (cases m; cases a) (simp_all add: service_pic_dispatch.simps cascade_lines)
qed

lemma chip_lines [simp]:
  "c_irq_in (take_irr c) = c_irq_in c" "c_irq_in (take_isr c) = c_irq_in c"
  "c_irq_in (clear_highest_interrupt c) = c_irq_in c"
  by (simp_all add: take_irr_def take_isr_def clear_highest_interrupt_def Let_def)

lemmas line_rules = dispatch_lines same_lines_on_chip same_lines_cascade

lemma iac_lines: "same_lines p q \<Longrightarrow> same_lines p (snd (iac q))"
  by (simp add: iac_def Let_def line_rules)

lemma pic_read_lines: "same_lines p q \<Longrightarrow> same_lines p (snd (pic_read port len q))"
  by (simp add: pic_read_def Let_def line_rules)

lemma write_cmd_lines: "same_lines p q \<Longrightarrow> same_lines p (write_cmd v m q)"
  by (simp add: write_cmd_def write_icw1_def write_ocw2_def write_ocw3_def Let_def line_rules)

lemma write_data_lines: "same_lines p q \<Longrightarrow> same_lines p (write_data v m q)"
  by (simp add: write_data_def write_icw_def Let_def line_rules)

lemma pic_write_lines: "same_lines p q \<Longrightarrow> same_lines p (pic_write port v q)"
  by (simp add: pic_write_def Let_def write_cmd_lines write_data_lines)

text \<open>Raising and lowering a line other than the cascade, seen at the inputs.\<close>

lemma pic_inv_lengths:
  "pic_inv p \<Longrightarrow> length (c_irq_in (p_master p)) = 8 \<and> length (c_irq_in (p_slave p)) = 8"
  by (simp add: pic_inv_def chip_ok_def)

lemma level_on_chip:
  assumes "pic_inv p" "n < 16"
    and "q = (if n < 8 then on_chip True (\<lambda>c. c\<lparr>c_irq_in := (c_irq_in c)[unat n := v], c_irr := g c\<rparr>) p
              else on_chip False (\<lambda>c. c\<lparr>c_irq_in := (c_irq_in c)[unat (n - 8) := v], c_irr := g c\<rparr>) p)"
  shows "irq_line_level k q = (if k = n then v \<noteq> 0 else irq_line_level k p)"
  using assms pic_inv_lengths [OF assms(1)]
  by (cases "n < 8") (auto simp: irq_line_level_def on_chip_def nth_list_update less8_iff less16_iff
      unat_minus_8 word_unat_eq_iff)

lemma request_backed:
  assumes "pic_inv p" "n < 16" "n \<noteq> 2" "\<not> irq_line_level n p"
  shows "if n < 8 then \<not> bit (c_irr (p_master p)) (unat n) else \<not> bit (c_irr (p_slave p)) (unat (n - 8))"
proof (cases "n < 8")
  case True
  then show ?thesis using assms
    by (auto simp: pic_inv_def chip_ok_def lines_ok_def irq_line_level_def less8_iff unat_eq_2)
next
  case False
  then have "unat (n - 8) < 8" using assms(2) by (simp add: unat_minus_8 less16_iff)
  then show ?thesis using False assms
    by (auto simp: pic_inv_def chip_ok_def lines_ok_def irq_line_level_def)
qed

lemma raise_irq_lines:
  assumes "pic_inv p" "n < 16" "n \<noteq> 2"
  shows "k \<noteq> 2 \<Longrightarrow> irq_line_level k (snd (raise_irq n p)) = (k = n \<or> irq_line_level k p)"
    "\<not> irq_line_level n p \<Longrightarrow> fst (raise_irq n p) = Crossed"
proof -
  let ?m = "n < 8" let ?n = "if n < 8 then n else n - 8"
  let ?a = "on_chip ?m (assert_line ?n) p"
  have a: "irq_line_level k ?a = (k = n \<or> irq_line_level k p)" for k
    using level_on_chip [OF assms(1,2) refl, where v = 1 and g = c_irr and k = k]
    by (cases "n < 8") (simp_all add: assert_line_def [abs_def])
  have "same_lines ?a (on_chip ?m (request_line ?n) ?a)"
    by (rule same_lines_on_chip [OF same_lines_refl]) (simp_all add: request_line_def)
  from dispatch_lines [OF this, of ?m]
  have "snd (raise_irq n p) = ?a \<or> same_lines ?a (snd (raise_irq n p))"
    using assms(2) by (cases "n < 8") (simp_all add: raise_irq.simps Let_def)
  then show "irq_line_level k (snd (raise_irq n p)) = (k = n \<or> irq_line_level k p)" if "k \<noteq> 2"
    using same_lines_level [of ?a "snd (raise_irq n p)" k, OF _ that] a [of k]
    by (elim disjE) (simp_all only:)
  show "fst (raise_irq n p) = Crossed" if "\<not> irq_line_level n p"
    using request_backed [OF assms that] assms(2,3)
    by (cases "n < 8") (simp_all add: raise_irq.simps Let_def on_chip_def assert_line_def bits)
qed

lemma lower_irq_lines:
  assumes "pic_inv p" "n < 16" "n \<noteq> 2"
  shows "irq_line_level k (snd (lower_irq n p)) = (k \<noteq> n \<and> irq_line_level k p)"
    "irq_line_level n p \<Longrightarrow> fst (lower_irq n p) = Crossed"
proof -
  show "irq_line_level k (snd (lower_irq n p)) = (k \<noteq> n \<and> irq_line_level k p)"
  proof (cases "irq_line_level n p")
    case True
    have "snd (lower_irq n p) =
        (if n < 8 then on_chip True (\<lambda>c. c\<lparr>c_irq_in := (c_irq_in c)[unat n := 0],
             c_irr := c_irr c AND NOT (line_mask n)\<rparr>) p
         else on_chip False (\<lambda>c. c\<lparr>c_irq_in := (c_irq_in c)[unat (n - 8) := 0],
             c_irr := c_irr c AND NOT (line_mask (n - 8))\<rparr>) p)"
      using True assms(2) by (simp add: lower_irq_def irq_line_level_def Let_def)
    then show ?thesis
      using level_on_chip [OF assms(1,2) refl, where v = 0 and k = k] by (cases "n < 8") simp_all
  next
    case False
    then have "snd (lower_irq n p) = p" using assms(2)
      by (simp add: lower_irq_def irq_line_level_def Let_def split: if_splits)
    with False show ?thesis by auto
  qed
  show "irq_line_level n p \<Longrightarrow> fst (lower_irq n p) = Crossed"
    using assms(2,3) by (simp add: lower_irq_def irq_line_level_def Let_def split: if_splits)
qed

lemma set_irq_level_lines:
  assumes "pic_inv p" "n < 16" "n \<noteq> 2"
  shows "k \<noteq> 2 \<Longrightarrow> irq_line_level k (snd (set_irq_level n l p)) = (if k = n then l else irq_line_level k p)"
    "fst (set_irq_level n l p) = NotCrossed \<Longrightarrow> irq_line_level n p = l"
  using raise_irq_lines [OF assms] lower_irq_lines [OF assms]
  by (cases l; force simp: set_irq_level.simps)+

end
