(* ===== verification/Irq_Fabric_Laws.thy ===== *)
theory Irq_Fabric_Laws
  imports Irq_Fabric
begin

text \<open>
  The contract of the interrupt fabric. The interface \<^verbatim>\<open>IrqSink\<close> that devices drive is a locale,
  interpreted on the 8259 pair and on the fabric; the fabric's invariant ties the two
  controllers together and is kept by every call the machine makes.
\<close>

section \<open>The line interface\<close>

text \<open>
  What a device relies on when it drives a line: the level reads back, other lines keep
  theirs. \<open>served\<close> are the lines the provider answers for.
\<close>

locale line_sink =
  fixes set_level :: "u8 \<Rightarrow> bool \<Rightarrow> 's \<Rightarrow> 's"
    and level_of :: "u8 \<Rightarrow> 's \<Rightarrow> bool"
    and wf :: "'s \<Rightarrow> bool"
    and served :: "u8 \<Rightarrow> bool"
  assumes wf_set: "wf s \<Longrightarrow> served n \<Longrightarrow> wf (set_level n l s)"
    and level_set: "wf s \<Longrightarrow> served n \<Longrightarrow> served k \<Longrightarrow>
      level_of k (set_level n l s) = (if k = n then l else level_of k s)"
begin

definition drive_all :: "(u8 \<times> bool) list \<Rightarrow> 's \<Rightarrow> 's" where
  "drive_all = fold (\<lambda>(n, l). set_level n l)"

lemma drive_all_wf: "wf s \<Longrightarrow> \<forall>(n, l) \<in> set xs. served n \<Longrightarrow> wf (drive_all xs s)"
  by (induction xs arbitrary: s) (auto simp: drive_all_def wf_set)

lemma drive_all_level:
  "wf s \<Longrightarrow> \<forall>(n, l) \<in> set xs. served n \<Longrightarrow> served k \<Longrightarrow>
   level_of k (drive_all xs s) = (case map_of (rev xs) k of None \<Rightarrow> level_of k s | Some l \<Rightarrow> l)"
proof (induction xs arbitrary: s)
  case (Cons x xs)
  obtain n l where x: "x = (n, l)" by fastforce
  with Cons have "level_of k (drive_all xs (set_level n l s)) =
      (case map_of (rev xs) k of None \<Rightarrow> level_of k (set_level n l s) | Some l \<Rightarrow> l)"
    by (simp add: wf_set)
  with Cons.prems x show ?case
    by (auto simp: drive_all_def level_set map_add_def split: option.splits)
qed (simp add: drive_all_def)

end

text \<open>The lines the two controllers share: the sixteen ISA lines but the cascade.\<close>

definition isa_line :: "u8 \<Rightarrow> bool" where
  "isa_line n \<longleftrightarrow> n < 16 \<and> n \<noteq> 2"

interpretation pic_sink: line_sink "\<lambda>n l p. snd (set_irq_level n l p)" irq_line_level pic_inv isa_line
  by unfold_locales (auto simp: isa_line_def set_irq_level_inv set_irq_level_lines)

section \<open>The scan and its source of vectors\<close>

lemma service_pin_intin: "io_intin (fst (service_pin ack pin (a, x))) = io_intin a"
  by (auto simp: service_pin_def enqueue_delivery_def Let_def split: prod.splits if_splits)

lemma service_pins_intin: "io_intin (fst (fold (service_pin ack) ps (a, x))) = io_intin a"
proof (induction ps arbitrary: a x)
  case (Cons p ps)
  then show ?case
    using service_pin_intin [of ack p a x] by (cases "service_pin ack p (a, x)") simp
qed simp

lemma service_intin: "io_intin (fst (ioapic_service ack a x)) = io_intin a"
  by (simp add: ioapic_service_def service_pins_intin)

lemma complete_intin: "io_intin (complete_deferred_delivery d ok a) = io_intin a"
  by (simp add: complete_deferred_delivery_def Let_def)

lemma take_intin: "io_intin (snd (take_pending_deliveries a)) = io_intin a"
  by (simp add: take_pending_deliveries_def)

lemma service_source:
  assumes "Q x" "\<And>x. Q x \<Longrightarrow> Q (snd (ack x))"
  shows "Q (snd (ioapic_service ack a x))"
proof -
  have pin: "Q (snd (service_pin ack p (a, x)))" if "Q x" for p a x
    using that assms(2) [OF that]
    by (auto simp: service_pin_def enqueue_delivery_def Let_def split: prod.splits if_splits)
  have "Q x \<Longrightarrow> Q (snd (fold (service_pin ack) ps (a, x)))" for ps
  proof (induction ps arbitrary: a x)
    case (Cons p ps)
    obtain b y where "service_pin ack p (a, x) = (b, y)" by (cases "service_pin ack p (a, x)")
    with pin [OF Cons.prems, of p a] Cons.IH [of y b] show ?case by simp
  qed simp
  with assms(1) show ?thesis by (simp add: ioapic_service_def)
qed

section \<open>The tally of acknowledge cycles\<close>

text \<open>
  The counters wrap at their widths, so the histogram sums to the count modulo \<open>2\<^sup>3\<^sup>2\<close>, the
  width of its entries.
\<close>

definition tally_ok :: "u64 \<Rightarrow> u32 list \<Rightarrow> bool" where
  "tally_ok count histogram \<longleftrightarrow> length histogram = 256 \<and> sum_list histogram = ucast count"

lemma sum_list_bump: "i < length xs \<Longrightarrow> sum_list (xs[i := xs ! i + 1]) = sum_list xs + 1"
  for xs :: "'a::len word list"
  by (induction xs arbitrary: i) (auto simp: nth_Cons' split: nat.splits)

lemma ucast_Suc: "(ucast (x + 1 :: u64) :: u32) = ucast x + 1"
proof transfer
  fix x :: int
  have "take_bit 32 (take_bit 64 x + 1) = take_bit 32 (take_bit 32 (take_bit 64 x) + take_bit 32 1)"
    by (rule take_bit_add [symmetric])
  also have "\<dots> = take_bit 32 (x + 1)" using take_bit_add [of 32 x 1] by simp
  finally show "take_bit LENGTH(32) (take_bit LENGTH(64) (x + 1)) =
      take_bit LENGTH(32) (take_bit LENGTH(64) x + 1)" by simp
qed

definition source_ok :: "pic \<Rightarrow> intr_source \<Rightarrow> bool" where
  "source_ok p0 = (\<lambda>(p, count, histogram). pic_inv p \<and> same_lines p0 p \<and> tally_ok count histogram)"

lemma acknowledge_source: "source_ok p0 x \<Longrightarrow> source_ok p0 (snd (acknowledge_8259 x))"
proof -
  assume ok: "source_ok p0 x"
  obtain p c h v q where x: "x = (p, c, h)" "iac p = (v, q)" by (metis prod.exhaust)
  have "unat (fst (iac p)) < length h"
    using ok unat_bound [of "fst (iac p)"] by (simp add: x source_ok_def tally_ok_def)
  then show ?thesis
    using ok iac_inv [of p] iac_lines [of p0 p]
    by (simp add: x source_ok_def acknowledge_8259_def tally_ok_def sum_list_bump ucast_Suc
        split: prod.splits)
qed

section \<open>The invariant of the fabric\<close>

definition isa_pin :: "u8 \<Rightarrow> u8" where
  "isa_pin n = (if n = 0 then 2 else n)"

definition agree :: "irq_fabric \<Rightarrow> bool" where
  "agree f \<longleftrightarrow> (\<forall>n. isa_line n \<longrightarrow>
     irq_line_level n (f_pic f) = bit (io_intin (f_ioapic f)) (unat (isa_pin n)))"

definition parts_ok :: "irq_fabric \<Rightarrow> bool" where
  "parts_ok f \<longleftrightarrow> pic_inv (f_pic f) \<and> ioapic_inv (f_ioapic f) \<and>
     tally_ok (f_acknowledge_count f) (f_vectors_acknowledged f)"

definition fabric_inv :: "irq_fabric \<Rightarrow> bool" where
  "fabric_inv f \<longleftrightarrow> parts_ok f \<and> agree f"

text \<open>A call that leaves every line and pin where it was.\<close>

definition quiet :: "irq_fabric \<Rightarrow> irq_fabric \<Rightarrow> bool" where
  "quiet f g \<longleftrightarrow> same_lines (f_pic f) (f_pic g) \<and> io_intin (f_ioapic g) = io_intin (f_ioapic f)"

lemma quiet_agree: "quiet f g \<Longrightarrow> agree f \<Longrightarrow> agree g"
  using same_lines_level [of "f_pic f" "f_pic g"] by (auto simp: quiet_def agree_def isa_line_def)

lemma quiet_parts:
  "c_irq_in (p_master (f_pic g)) = c_irq_in (p_master (f_pic f)) \<Longrightarrow>
   c_irq_in (p_slave (f_pic g)) = c_irq_in (p_slave (f_pic f)) \<Longrightarrow>
   io_intin (f_ioapic g) = io_intin (f_ioapic f) \<Longrightarrow> quiet f g"
  by (simp add: quiet_def same_lines_refl)

lemma quiet_trans: "quiet f g \<Longrightarrow> quiet g h \<Longrightarrow> quiet f h"
  unfolding quiet_def by (auto intro: same_lines_trans)

lemma service_ioapic_ok:
  assumes "parts_ok f"
  shows "parts_ok (service_ioapic f)" "quiet f (service_ioapic f)"
proof -
  let ?r = "ioapic_service acknowledge_8259 (f_ioapic f) (source_of f)"
  have "source_ok (f_pic f) (source_of f)"
    using assms by (simp add: source_ok_def source_of_def parts_ok_def same_lines_refl)
  then have "source_ok (f_pic f) (snd ?r)" by (rule service_source) (rule acknowledge_source)
  moreover have "ioapic_inv (fst ?r)" "io_intin (fst ?r) = io_intin (f_ioapic f)"
    using assms by (simp_all add: parts_ok_def service_inv service_intin)
  ultimately show "parts_ok (service_ioapic f)" "quiet f (service_ioapic f)"
    by (auto simp: service_ioapic_def with_source_def source_ok_def parts_ok_def quiet_def
        split: prod.splits)
qed

lemma when_needed_ok:
  assumes "parts_ok f" "ioapic_inv (snd r)"
  shows "parts_ok (when_needed r f)" "quiet (f\<lparr>f_ioapic := snd r\<rparr>) (when_needed r f)"
proof -
  have "parts_ok (f\<lparr>f_ioapic := snd r\<rparr>)" using assms by (simp add: parts_ok_def)
  from this service_ioapic_ok [OF this]
  show "parts_ok (when_needed r f)" "quiet (f\<lparr>f_ioapic := snd r\<rparr>) (when_needed r f)"
    by (cases r; cases "fst r"; simp add: when_needed_def quiet_parts)+
qed

lemma isa_pin_range: "isa_line n \<Longrightarrow> unat (isa_pin n) < 16"
  by (simp add: isa_line_def isa_pin_def less16_iff)

lemma isa_pin_inj: "isa_line n \<Longrightarrow> isa_line k \<Longrightarrow> unat (isa_pin n) = unat (isa_pin k) \<longleftrightarrow> n = k"
  by (auto simp: isa_pin_def isa_line_def word_unat_eq_iff [symmetric] split: if_splits)

lemma pin_intin:
  assumes "ioapic_inv a" "isa_line n \<or> 16 \<le> n"
  shows "k < 16 \<Longrightarrow> bit (io_intin (snd (set_pin_level n l a))) k =
    (if isa_line n \<and> k = unat (isa_pin n) then l else bit (io_intin a) k)"
proof -
  assume k: "k < 16"
  define p where "p = (if n = 0 then 2 else unat n)"
  have p: "p = unat (isa_pin n)" by (simp add: p_def isa_pin_def)
  show ?thesis
  proof (cases "p < IOAPIC_NUM_PINS")
    case True
    have "bit (io_intin (snd (set_pin_level n l a))) k = (if k = p then l else bit (io_intin a) k)"
      using pin_level_effect [OF assms(1) p_def True refl refl refl] by blast
    moreover have "k \<noteq> p" if "16 \<le> n"
      using that k by (auto simp: p_def word_le_nat_alt)
    ultimately show ?thesis using assms(2) p by (auto simp: isa_line_def)
  next
    case False
    then have "\<not> isa_line n" using isa_pin_range [of n] p by (auto simp: IOAPIC_NUM_PINS_def)
    moreover have "snd (set_pin_level n l a) = a"
      using False by (auto simp: set_pin_level_def p_def Let_def)
    ultimately show ?thesis by simp
  qed
qed

lemma quiet_step: "fabric_inv f \<Longrightarrow> parts_ok g \<Longrightarrow> quiet f g \<Longrightarrow> fabric_inv g"
  using quiet_agree by (simp add: fabric_inv_def)

lemma set_ioapic_pin_parts: "parts_ok f \<Longrightarrow> parts_ok (set_ioapic_pin n l f)"
  unfolding set_ioapic_pin_def
  by (rule when_needed_ok) (simp_all add: parts_ok_def set_pin_level_inv)

lemma set_ioapic_pin_quiet:
  "parts_ok f \<Longrightarrow> quiet (f\<lparr>f_ioapic := snd (set_pin_level n l (f_ioapic f))\<rparr>) (set_ioapic_pin n l f)"
  unfolding set_ioapic_pin_def
  by (rule when_needed_ok) (simp_all add: parts_ok_def set_pin_level_inv)

lemma set_ioapic_pin_inv:
  assumes "fabric_inv f" "16 \<le> n"
  shows "fabric_inv (set_ioapic_pin n l f)"
proof -
  have p: "parts_ok f" using assms by (simp add: fabric_inv_def)
  have "\<not> isa_line n" using assms(2) by (auto simp: isa_line_def)
  then have "agree (f\<lparr>f_ioapic := snd (set_pin_level n l (f_ioapic f))\<rparr>)"
    using assms p pin_intin [of "f_ioapic f" n] isa_pin_range
    by (simp add: fabric_inv_def agree_def parts_ok_def)
  then show ?thesis
    using quiet_agree set_ioapic_pin_quiet [OF p] set_ioapic_pin_parts [OF p] fabric_inv_def by blast
qed

lemma set_isa_level_cases:
  assumes "parts_ok f" "agree f" "isa_line n"
  shows "parts_ok (set_isa_level n l f)" "agree (set_isa_level n l f)"
    "k \<noteq> 2 \<Longrightarrow> irq_line_level k (f_pic (set_isa_level n l f)) =
      (if k = n then l else irq_line_level k (f_pic f))"
proof -
  obtain e q where q: "set_irq_level n l (f_pic f) = (e, q)" by (cases "set_irq_level n l (f_pic f)")
  let ?f = "f\<lparr>f_pic := q\<rparr>"
  have inv: "pic_inv (f_pic f)" "n < 16" "n \<noteq> 2" using assms by (simp_all add: parts_ok_def isa_line_def)
  have p: "parts_ok ?f" using set_irq_level_inv [OF inv(1), of n l] assms(1) q by (simp add: parts_ok_def)
  have lines: "irq_line_level k q = (if k = n then l else irq_line_level k (f_pic f))" if "k \<noteq> 2" for k
    using set_irq_level_lines(1) [OF inv that, of l] q by simp
  have crossed: "agree (?f\<lparr>f_ioapic := snd (set_pin_level n l (f_ioapic f))\<rparr>)"
    using assms lines pin_intin [of "f_ioapic f" n _ l] isa_pin_range isa_pin_inj [OF _ assms(3)]
    by (simp add: agree_def parts_ok_def isa_line_def)
  have same: "irq_line_level n (f_pic f) = l" if "e = NotCrossed"
    using set_irq_level_lines(2) [OF inv, of l] q that by simp
  have g: "set_isa_level n l f = (case e of NotCrossed \<Rightarrow> ?f | Crossed \<Rightarrow> set_ioapic_pin n l ?f)"
    by (simp add: set_isa_level_def q split: ioapic_edge.splits)
  have quiet: "quiet (?f\<lparr>f_ioapic := snd (set_pin_level n l (f_ioapic f))\<rparr>) (set_ioapic_pin n l ?f)"
    using set_ioapic_pin_quiet [OF p, of n l] by simp
  show "parts_ok (set_isa_level n l f)"
    using p set_ioapic_pin_parts [OF p] by (simp add: g split: ioapic_edge.splits)
  show "agree (set_isa_level n l f)"
  proof (cases e)
    case NotCrossed
    then have "irq_line_level k q = irq_line_level k (f_pic f)" if "k \<noteq> 2" for k
      using lines [OF that] same by simp
    then have "agree ?f" using assms(2) by (simp add: agree_def isa_line_def)
    then show ?thesis by (simp add: g NotCrossed)
  next
    case Crossed
    then show ?thesis using quiet_agree [OF quiet crossed] by (simp add: g)
  qed
  show "irq_line_level k (f_pic (set_isa_level n l f)) = (if k = n then l else irq_line_level k (f_pic f))"
    if "k \<noteq> 2"
    using lines [OF that] same_lines_level [of q "f_pic (set_ioapic_pin n l ?f)" k, OF _ that] quiet
    by (cases e) (simp_all add: g quiet_def)
qed

lemma set_isa_level_inv: "fabric_inv f \<Longrightarrow> fabric_inv (set_isa_level n l f)"
proof (cases "isa_line n")
  case True
  then show "fabric_inv f \<Longrightarrow> ?thesis" using set_isa_level_cases by (simp add: fabric_inv_def)
next
  case False
  assume f: "fabric_inv f"
  have p: "pic_inv (f_pic f)" using f by (simp add: fabric_inv_def parts_ok_def)
  have "fst (set_irq_level n l (f_pic f)) = NotCrossed \<and>
      same_lines (f_pic f) (snd (set_irq_level n l (f_pic f)))"
  proof (cases "n = 2")
    case True
    then show ?thesis
      using cascade_lines [of "f_pic f" "f_pic f" l]
      by (auto simp: set_cascade_line.simps same_lines_refl set_irq_level.simps raise_irq.simps
          lower_irq_def Let_def)
  next
    case False
    with \<open>\<not> isa_line n\<close> have "\<not> n < 16" by (simp add: isa_line_def)
    moreover from this have "\<not> n < 8" by (simp add: less16_iff less8_iff)
    ultimately show ?thesis
      by (simp add: set_irq_level.simps raise_irq.simps lower_irq_def same_lines_refl)
  qed
  then have "set_isa_level n l f = f\<lparr>f_pic := snd (set_irq_level n l (f_pic f))\<rparr>"
    "quiet f (f\<lparr>f_pic := snd (set_irq_level n l (f_pic f))\<rparr>)"
    by (auto simp: set_isa_level_def quiet_def split: prod.splits)
  moreover have "parts_ok (f\<lparr>f_pic := snd (set_irq_level n l (f_pic f))\<rparr>)"
    using f set_irq_level_inv [OF p] by (simp add: parts_ok_def fabric_inv_def)
  ultimately show ?thesis using quiet_step [OF f] by simp
qed

interpretation fabric_sink: line_sink set_isa_level line_level fabric_inv isa_line
  by unfold_locales
    (simp_all add: set_isa_level_inv line_level_def fabric_inv_def set_isa_level_cases isa_line_def
      [THEN iffD1])

section \<open>Reachable fabrics\<close>

text \<open>
  The calls the machine makes: devices on ISA lines, devices wired to an I/O APIC pin above the
  ISA range, the guest on the ports and the memory window, the processor's acknowledge cycle,
  the routing of queued messages, end of interrupt, and the reset of both controllers
  (\<^verbatim>\<open>BxDevicesC::reset\<close>).
\<close>

inductive fabric_step :: "irq_fabric \<Rightarrow> irq_fabric \<Rightarrow> bool" where
  isa_level: "fabric_step f (set_isa_level n l f)"
| apic_pin: "16 \<le> n \<Longrightarrow> fabric_step f (set_ioapic_pin n l f)"
| window_write: "fabric_step f (fabric_mmio_write off len data f)"
| scan: "fabric_step f (service_ioapic f)"
| inta: "fabric_step f (snd (acknowledge f))"
| eoi: "fabric_step f (fabric_receive_eoi v f)"
| resample: "fabric_step f (snd (resample_on_eoi v f))"
| lint0_write: "fabric_step f (set_bsp_lint0 w f)"
| port_write: "fabric_step f (f\<lparr>f_pic := pic_write port w32 (f_pic f)\<rparr>)"
| port_read: "fabric_step f (f\<lparr>f_pic := snd (pic_read port io_len (f_pic f))\<rparr>)"
| elcr: "fabric_step f (f\<lparr>f_pic := set_mode m mode (f_pic f)\<rparr>)"
| reconcile: "fabric_step f (f\<lparr>f_pic := reconcile_deasserted_intr (f_pic f)\<rparr>)"
| route: "fabric_step f (f\<lparr>f_ioapic := snd (take_pending_deliveries (f_ioapic f))\<rparr>)"
| routed: "fabric_step f (f\<lparr>f_ioapic := complete_deferred_delivery d ok (f_ioapic f)\<rparr>)"
| device_reset: "fabric_step f (reset_bsp_lint0
    (f\<lparr>f_pic := pic_reset (f_pic f), f_ioapic := ioapic_reset (f_ioapic f)\<rparr>))"

inductive fabric_reachable :: "irq_fabric \<Rightarrow> bool" where
  fabric_start: "fabric_reachable fabric_new"
| fabric_next: "fabric_reachable f \<Longrightarrow> fabric_step f g \<Longrightarrow> fabric_reachable g"

lemma pic_only_step:
  assumes "fabric_inv f" "pic_inv q" "same_lines (f_pic f) q"
  shows "fabric_inv (f\<lparr>f_pic := q\<rparr>)"
  using assms by (intro quiet_step [OF assms(1)]) (simp_all add: parts_ok_def fabric_inv_def quiet_def)

lemma ioapic_only_step:
  assumes "fabric_inv f" "ioapic_inv b" "io_intin b = io_intin (f_ioapic f)"
  shows "fabric_inv (f\<lparr>f_ioapic := b\<rparr>)"
  using assms by (intro quiet_step [OF assms(1)])
    (simp_all add: parts_ok_def fabric_inv_def quiet_def same_lines_refl)

lemma pic_calls:
  assumes "fabric_inv f"
  shows "fabric_inv (f\<lparr>f_pic := pic_write port w (f_pic f)\<rparr>)"
    "fabric_inv (f\<lparr>f_pic := snd (pic_read port io_len (f_pic f))\<rparr>)"
    "fabric_inv (f\<lparr>f_pic := set_mode m mode (f_pic f)\<rparr>)"
    "fabric_inv (f\<lparr>f_pic := reconcile_deasserted_intr (f_pic f)\<rparr>)"
proof -
  have p: "pic_inv (f_pic f)" "same_lines (f_pic f) (f_pic f)"
    using assms by (simp_all add: fabric_inv_def parts_ok_def same_lines_refl)
  note rule = pic_only_step [OF assms]
  show "fabric_inv (f\<lparr>f_pic := pic_write port w (f_pic f)\<rparr>)"
    by (rule rule) (simp_all add: p pic_write_inv pic_write_lines)
  show "fabric_inv (f\<lparr>f_pic := snd (pic_read port io_len (f_pic f))\<rparr>)"
    by (rule rule) (simp_all add: p pic_read_inv pic_read_lines)
  show "fabric_inv (f\<lparr>f_pic := set_mode m mode (f_pic f)\<rparr>)"
    by (rule rule) (simp_all add: p set_mode_def on_chip_inv same_lines_on_chip)
  show "fabric_inv (f\<lparr>f_pic := reconcile_deasserted_intr (f_pic f)\<rparr>)"
    by (rule rule) (simp_all add: p reconcile_deasserted_intr_def same_lines_refl)
qed

lemma window_write_inv: "fabric_inv f \<Longrightarrow> fabric_inv (fabric_mmio_write off len data f)"
proof -
  assume f: "fabric_inv f"
  let ?r = "mem_write off len data (f_ioapic f)"
  have inv: "ioapic_inv (snd ?r)" "parts_ok f"
    using f by (simp_all add: fabric_inv_def parts_ok_def mem_write_inv)
  have "io_intin (snd ?r) = io_intin (f_ioapic f)"
    by (simp add: mem_write_def write_aligned_def Let_def)
  from ioapic_only_step [OF f inv(1) this] when_needed_ok [OF inv(2,1)]
  show ?thesis unfolding fabric_mmio_write_def by (blast intro: quiet_step)
qed

lemma acknowledge_inv: "fabric_inv f \<Longrightarrow> fabric_inv (snd (acknowledge f))"
proof -
  assume f: "fabric_inv f"
  then have "source_ok (f_pic f) (source_of f)"
    by (simp add: source_ok_def source_of_def fabric_inv_def parts_ok_def same_lines_refl)
  from acknowledge_source [OF this] f
  have "parts_ok (snd (acknowledge f))" "quiet f (snd (acknowledge f))"
    by (auto simp: acknowledge_def with_source_def source_ok_def parts_ok_def fabric_inv_def quiet_def
        split: prod.splits)
  with f show ?thesis by (rule quiet_step)
qed

lemma service_ioapic_inv: "fabric_inv f \<Longrightarrow> fabric_inv (service_ioapic f)"
  using service_ioapic_ok quiet_step fabric_inv_def by blast

lemma device_reset_inv:
  assumes "fabric_inv f"
  shows "fabric_inv (reset_bsp_lint0 (f\<lparr>f_pic := pic_reset (f_pic f), f_ioapic := ioapic_reset (f_ioapic f)\<rparr>))"
proof -
  have "\<not> irq_line_level n (pic_reset p)" for n p
    by (simp add: irq_line_level_def pic_reset_def less8_iff less16_iff unat_minus_8)
  then show ?thesis
    using assms by (simp add: fabric_inv_def agree_def parts_ok_def reset_bsp_lint0_def pic_reset_inv
        ioapic_reset_inv) (simp add: ioapic_reset_def)
qed

lemma sum_list_zeros: "sum_list (replicate n (0 :: 'a::len word)) = 0"
  by (induction n) simp_all

lemma fabric_new_inv: "fabric_inv fabric_new"
proof -
  have "\<not> irq_line_level n pic_new" for n
    by (simp add: irq_line_level_def pic_new_def chip_default_def less8_iff less16_iff unat_minus_8)
  then show ?thesis
    by (simp add: fabric_inv_def agree_def parts_ok_def fabric_new_def pic_new_inv ioapic_new_inv
        tally_ok_def sum_list_zeros) (simp add: ioapic_new_def)
qed

lemma fabric_step_inv: "fabric_step f g \<Longrightarrow> fabric_inv f \<Longrightarrow> fabric_inv g"
proof (induction rule: fabric_step.induct)
  case (routed f d ok)
  then show ?case
    by (intro ioapic_only_step) (simp_all add: complete_inv complete_intin fabric_inv_def parts_ok_def)
next
  case (route f)
  then show ?case
    by (intro ioapic_only_step) (simp_all add: take_pending_inv take_intin fabric_inv_def parts_ok_def)
next
  case (lint0_write f w)
  then show ?case by (simp add: set_bsp_lint0_def fabric_inv_def parts_ok_def agree_def)
next
  case (eoi f v)
  then show ?case by (simp add: fabric_receive_eoi_def ioapic_receive_eoi_def)
next
  case (resample f v)
  then show ?case by (simp add: resample_on_eoi_def service_ioapic_inv)
qed (simp_all add: set_isa_level_inv set_ioapic_pin_inv window_write_inv service_ioapic_inv
      acknowledge_inv device_reset_inv pic_calls)

lemma fabric_reachable_inv: "fabric_reachable f \<Longrightarrow> fabric_inv f"
  by (induction rule: fabric_reachable.induct) (auto intro: fabric_new_inv fabric_step_inv)

lemma fabric_reachable_parts:
  assumes "fabric_reachable f"
  shows "pic_inv (f_pic f)" "ioapic_inv (f_ioapic f)" "parts_ok f" "agree f"
  using fabric_reachable_inv [OF assms] by (simp_all add: fabric_inv_def parts_ok_def)

section \<open>What a scan queues\<close>

lemma service_ioapic_serviced:
  assumes "ioapic_inv (f_ioapic f)"
    and "length (io_pending (f_ioapic f)) + IOAPIC_NUM_PINS \<le> IOAPIC_PENDING_DELIVERY_CAPACITY"
  shows "serviced [0..<IOAPIC_NUM_PINS] (f_ioapic f) (f_ioapic (service_ioapic f))"
  using service_pins_serviced [of "[0..<IOAPIC_NUM_PINS]" "f_ioapic f" acknowledge_8259 "source_of f"] assms
  by (auto simp: service_ioapic_def ioapic_service_def ioapic_inv_def with_source_def split: prod.splits)

lemma filter_single: "distinct xs \<Longrightarrow> p \<in> set xs \<Longrightarrow> (\<And>k. k \<in> set xs \<Longrightarrow> P k \<longleftrightarrow> k = p) \<Longrightarrow> filter P xs = [p]"
proof (induction xs)
  case (Cons x xs)
  show ?case
  proof (cases "x = p")
    case True
    with Cons.prems have "filter P xs = []" by (auto simp: filter_empty_conv)
    with True Cons.prems show ?thesis by simp
  next
    case False
    with Cons show ?thesis by simp
  qed
qed simp

lemma service_idle: "io_irr a = 0 \<Longrightarrow> ioapic_service ack a x = (a, x)"
proof -
  assume "io_irr a = 0"
  then have "fold (service_pin ack) ps (a, x) = (a, x)" for ps
    by (induction ps) (simp_all add: service_pin_def)
  then show ?thesis by (simp add: ioapic_service_def)
qed

lemma when_needed_idle: "io_irr (snd r) = 0 \<Longrightarrow> when_needed r f = f\<lparr>f_ioapic := snd r\<rparr>"
  by (cases r; cases "fst r")
    (auto simp: when_needed_def service_ioapic_def service_idle source_of_def with_source_def)

definition entry_message :: "redirect_entry \<Rightarrow> nat \<Rightarrow> pending_delivery" where
  "entry_message e pin =
     \<lparr>d_pin = of_nat pin, d_vector = entry_vector e, d_delivery_mode = entry_delivery_mode e,
      d_trigger_mode = entry_trigger_mode e, d_dest = ucast (entry_destination e),
      d_dest_mode = destination_mode e, d_needs_pic_iac = False\<rparr>"

lemma message_of_unique: "message_of e pin d \<Longrightarrow> entry_delivery_mode e \<noteq> 7 \<Longrightarrow> d = entry_message e pin"
  by (cases d) (simp add: message_of_def entry_message_def)

lemma serviced_single:
  assumes "serviced [0..<IOAPIC_NUM_PINS] a b" "p < IOAPIC_NUM_PINS"
    and "\<And>k. k < IOAPIC_NUM_PINS \<Longrightarrow> active a k \<longleftrightarrow> k = p"
    and "sendable (io_ioredtbl a ! p)" "entry_delivery_mode (io_ioredtbl a ! p) \<noteq> 7"
  shows "io_pending b = io_pending a @ [entry_message (io_ioredtbl a ! p) p]"
proof -
  have "filter (\<lambda>k. active a k \<and> sendable (io_ioredtbl a ! k)) [0..<IOAPIC_NUM_PINS] = [p]"
    using assms(2-4) by (intro filter_single) auto
  with assms(1) obtain new where "io_pending b = io_pending a @ new"
    "list_all2 (\<lambda>k. message_of (io_ioredtbl a ! k) k) [p] new"
    unfolding serviced_def by auto
  then show ?thesis using message_of_unique [OF _ assms(5)] by (auto simp: list_all2_Cons1)
qed

lemma set_pin_level_pending: "io_pending (snd (set_pin_level n l a)) = io_pending a"
  by (simp add: set_pin_level_def Let_def)

section \<open>Properties\<close>

text \<open>
  C1. The 8259 pair and the I/O APIC never disagree about an ISA line: in every state the
  machine can reach, the level at the 8259 input of each line but the cascade is the level of
  the I/O APIC pin behind it (line 0 is wired to pin 2, every other line to the pin of its
  number).
\<close>

theorem controllers_agree:
  assumes "fabric_reachable f" "n < 16" "n \<noteq> 2"
  shows "line_level n f = fst (pin_state (if n = 0 then 2 else n) (f_ioapic f))"
  using fabric_reachable_parts(4) [OF assms(1)] assms(2,3)
  by (simp add: agree_def isa_line_def line_level_def pin_state_def isa_pin_def bits)

theorem controllers_agree_witness:
  "fabric_reachable (set_isa_level 0 True fabric_new) \<and>
   line_level 0 (set_isa_level 0 True fabric_new) =
     fst (pin_state 2 (f_ioapic (set_isa_level 0 True fabric_new)))"
proof -
  have "fabric_reachable (set_isa_level 0 True fabric_new)"
    by (rule fabric_next [OF fabric_start isa_level])
  with controllers_agree [OF this, of 0] show ?thesis by simp
qed

text \<open>
  The line interface devices drive: after any sequence of level changes on ISA lines, each
  line reads the level it was driven to last (or the level it had), at the 8259 and at the
  I/O APIC pin alike.
\<close>

theorem last_level_wins:
  assumes "fabric_reachable f" "\<forall>(n, l) \<in> set xs. n < 16 \<and> n \<noteq> 2" "k < 16" "k \<noteq> 2"
    and "g = fold (\<lambda>(n, l). set_isa_level n l) xs f"
    and "expected = (case map_of (rev xs) k of None \<Rightarrow> line_level k f | Some l \<Rightarrow> l)"
  shows "line_level k g = expected \<and> fst (pin_state (if k = 0 then 2 else k) (f_ioapic g)) = expected"
proof -
  have inv: "fabric_inv f" using fabric_reachable_inv [OF assms(1)] .
  have served: "\<forall>(n, l) \<in> set xs. isa_line n" "isa_line k" using assms(2-4) by (auto simp: isa_line_def)
  have g: "g = fabric_sink.drive_all xs f" by (simp add: assms(5) fabric_sink.drive_all_def)
  have "line_level k g = expected"
    using fabric_sink.drive_all_level [OF inv served] by (simp add: g assms(6))
  moreover have "agree g"
    using fabric_sink.drive_all_wf [OF inv served(1)] by (simp add: g fabric_inv_def)
  ultimately show ?thesis
    using served(2) by (simp add: agree_def line_level_def pin_state_def isa_pin_def bits)
qed

theorem last_level_wins_witness:
  "fabric_reachable fabric_new \<and>
   line_level 4 (set_isa_level 9 True (set_isa_level 4 False (set_isa_level 4 True fabric_new))) = False"
  using last_level_wins [OF fabric_start, of "[(4, True), (4, False), (9, True)]" 4, OF _ _ _ refl refl]
    fabric_start by simp

text \<open>
  No acknowledge cycle escapes the tally: in every reachable state the per-vector counters
  sum to the number of cycles taken, modulo the 32 bits of a counter, whether the processor or
  an ExtINT redirection entry took them.
\<close>

theorem acknowledges_tallied:
  assumes "fabric_reachable f"
  shows "length (f_vectors_acknowledged f) = 256 \<and>
    sum_list (f_vectors_acknowledged f) = ucast (f_acknowledge_count f) \<and>
    f_acknowledge_count (snd (acknowledge f)) = f_acknowledge_count f + 1"
  using fabric_reachable_parts(3) [OF assms]
  by (simp add: parts_ok_def tally_ok_def acknowledge_def acknowledge_8259_def source_of_def
      with_source_def split: prod.splits)

theorem acknowledges_tallied_witness:
  "fabric_reachable (snd (acknowledge fabric_new)) \<and>
   sum_list (f_vectors_acknowledged (snd (acknowledge fabric_new))) = 1"
proof -
  have "fabric_reachable (snd (acknowledge fabric_new))" by (rule fabric_next [OF fabric_start inta])
  moreover have "f_acknowledge_count (snd (acknowledge fabric_new)) = 1"
    using acknowledges_tallied [OF fabric_start] by (simp add: fabric_new_def)
  ultimately show ?thesis using acknowledges_tallied [of "snd (acknowledge fabric_new)"] by simp
qed

text \<open>
  C6. A rising ISA line reaches the message queue inside the call: when the line was low and its
  redirection entry is unmasked, neither ExtINT nor a lowest-priority physical one, and no other
  pin has a deliverable request, driving the line queues exactly the message the entry
  describes, after the messages already waiting.
\<close>

theorem rising_line_queues_message:
  assumes "fabric_reachable f" "n < 16" "n \<noteq> 2" "\<not> line_level n f"
    and "p = (if n = 0 then 2 else unat n)" "e = io_ioredtbl (f_ioapic f) ! p"
    and "\<not> is_masked e" "sendable e" "entry_delivery_mode e \<noteq> 7"
    and "\<forall>k < IOAPIC_NUM_PINS. k \<noteq> p \<longrightarrow> \<not> active (f_ioapic f) k"
    and "length (io_pending (f_ioapic f)) + IOAPIC_NUM_PINS \<le> IOAPIC_PENDING_DELIVERY_CAPACITY"
  shows "io_pending (f_ioapic (set_isa_level n True f)) =
    io_pending (f_ioapic f) @ [entry_message e p]"
proof -
  let ?a = "f_ioapic f" let ?b = "snd (set_pin_level n True ?a)"
  let ?f = "f\<lparr>f_pic := snd (set_irq_level n True (f_pic f)), f_ioapic := ?b\<rparr>"
  note parts = fabric_reachable_parts [OF assms(1)]
  have p: "p < IOAPIC_NUM_PINS" "\<not> bit (io_intin ?a) p"
    using assms(2-5) parts(4) isa_pin_range [of n]
    by (auto simp: IOAPIC_NUM_PINS_def isa_line_def agree_def line_level_def isa_pin_def less16_iff)
  note eff = pin_level_effect [OF parts(2) assms(5) p(1) refl refl refl, of True, folded assms(6)]
  have b: "fst (set_pin_level n True ?a) = Needed" "io_ioredtbl ?b = io_ioredtbl ?a"
    "bit (io_irr ?b) k \<longleftrightarrow> k = p \<or> bit (io_irr ?a) k" for k
    using eff p(2) assms(7) by auto
  have "fst (set_irq_level n True (f_pic f)) = Crossed"
    using raise_irq_lines(2) [OF parts(1) assms(2,3)] assms(4)
    by (simp add: set_irq_level.simps line_level_def)
  then have g: "set_isa_level n True f = service_ioapic ?f"
    using b(1) by (cases "set_irq_level n True (f_pic f)"; cases "set_pin_level n True ?a")
      (simp add: set_isa_level_def set_ioapic_pin_def when_needed_def)
  have "serviced [0..<IOAPIC_NUM_PINS] ?b (f_ioapic (service_ioapic ?f))"
    using service_ioapic_serviced [of ?f] set_pin_level_inv [OF parts(2)] assms(11)
    by (simp add: set_pin_level_pending)
  moreover have "active ?b k \<longleftrightarrow> k = p" if "k < IOAPIC_NUM_PINS" for k
    using assms(6,7,10) that b(2,3) by (auto simp: active_def)
  ultimately show ?thesis
    using serviced_single [of ?b _ p] p(1) assms(6,8,9) b(2) by (simp add: g set_pin_level_pending)
qed

theorem rising_line_queues_message_witness:
  "let f = fabric_mmio_write 0x10 4 [0x35, 0, 0, 0] (fabric_mmio_write 0 4 [0x1A, 0, 0, 0] fabric_new)
   in fabric_reachable f \<and>
     io_pending (f_ioapic (set_isa_level 5 True f)) = [entry_message \<lparr>e_lo = 0x35, e_hi = 0\<rparr> 5]"
proof -
  let ?f1 = "fabric_mmio_write 0 4 [0x1A, 0, 0, 0] fabric_new"
  let ?f = "fabric_mmio_write 0x10 4 [0x35, 0, 0, 0] ?f1"
  have f1: "?f1 = fabric_new\<lparr>f_ioapic := ioapic_new\<lparr>io_ioregsel := 0x1A\<rparr>\<rparr>"
    unfolding fabric_mmio_write_def
    by (subst when_needed_idle) (simp_all add: mem_write_def write_aligned_def fabric_new_def ioapic_new_def
        )
  have f: "?f = fabric_new\<lparr>f_ioapic := ioapic_new\<lparr>io_ioregsel := 0x1A,
      io_ioredtbl := (io_ioredtbl ioapic_new)[5 := \<lparr>e_lo = 0x35, e_hi = 0\<rparr>]\<rparr>\<rparr>"
    unfolding f1 unfolding fabric_mmio_write_def
    by (subst when_needed_idle) (simp_all add: mem_write_def write_aligned_def fabric_new_def ioapic_new_def
        raw_index_def IOREGSEL_REDTBL_BASE_def IOREGSEL_ID_def IOREGSEL_VERSION_def
        IOREGSEL_ARB_ID_def IOAPIC_NUM_PINS_def set_lo_part_def entry_default_def REDIRECT_LO_WRITE_MASK_def)
  have r: "fabric_reachable ?f" by (rule fabric_next [OF fabric_next [OF fabric_start window_write] window_write])
  have "\<not> line_level 5 ?f"
    unfolding f by (simp add: line_level_def fabric_new_def irq_line_level_def pic_new_def chip_default_def)
  with rising_line_queues_message [OF r _ _ _ refl refl, of 5] r show ?thesis
    by (simp add: f active_def ioapic_new_def sendable_def entry_delivery_mode_def IOAPIC_NUM_PINS_def
        IOAPIC_PENDING_DELIVERY_CAPACITY_def)
qed

text \<open>
  An end-of-interrupt with room in the queue: the fabric scans again exactly when some
  level-triggered entry with that vector has its request latched, the scan queues one message
  for every unmasked request that can be sent, and otherwise nothing changes. The answer is
  about the latched request and not about the queue: a masked entry answers \<open>True\<close> and queues
  nothing.
\<close>

theorem eoi_resamples_level_lines:
  assumes "ioapic_inv (f_ioapic f)"
    and "length (io_pending (f_ioapic f)) + IOAPIC_NUM_PINS \<le> IOAPIC_PENDING_DELIVERY_CAPACITY"
    and "a = f_ioapic f" "resample_on_eoi v f = (r, g)"
  shows "(r \<longleftrightarrow> (\<exists>k < IOAPIC_NUM_PINS. entry_vector (io_ioredtbl a ! k) = v \<and>
            entry_trigger_mode (io_ioredtbl a ! k) \<noteq> 0 \<and> bit (io_irr a) k)) \<and>
    (if r then \<exists>new. io_pending (f_ioapic g) = io_pending a @ new \<and>
       list_all2 (\<lambda>k. message_of (io_ioredtbl a ! k) k)
         (filter (\<lambda>k. active a k \<and> sendable (io_ioredtbl a ! k)) [0..<IOAPIC_NUM_PINS]) new
     else g = f)"
proof -
  have "has_asserted_level_entry v a \<longleftrightarrow> (\<exists>k < IOAPIC_NUM_PINS. entry_vector (io_ioredtbl a ! k) = v \<and>
      entry_trigger_mode (io_ioredtbl a ! k) \<noteq> 0 \<and> bit (io_irr a) k)"
    unfolding has_asserted_level_entry_def Let_def list_ex_iff and_bitm_eq_0 by auto
  moreover have "serviced [0..<IOAPIC_NUM_PINS] a (f_ioapic (service_ioapic f))"
    using service_ioapic_serviced [OF assms(1,2)] by (simp add: assms(3))
  ultimately show ?thesis
    using assms(3,4) by (auto simp: resample_on_eoi_def serviced_def split: if_splits)
qed

theorem eoi_resamples_level_lines_witness:
  "let a = ioapic_new\<lparr>io_irr := bitm 5, io_ioredtbl := (io_ioredtbl ioapic_new)[5 := \<lparr>e_lo = 0x18035, e_hi = 0\<rparr>]\<rparr>;
       f = fabric_new\<lparr>f_ioapic := a\<rparr>
   in ioapic_inv a \<and> fst (resample_on_eoi 0x35 f) \<and>
     io_pending (f_ioapic (snd (resample_on_eoi 0x35 f))) = io_pending a"
proof -
  let ?e = "\<lparr>e_lo = 0x18035, e_hi = 0\<rparr>"
  define a where
    "a = ioapic_new\<lparr>io_irr := bitm 5, io_ioredtbl := (io_ioredtbl ioapic_new)[5 := ?e]\<rparr>"
  define f where "f = fabric_new\<lparr>f_ioapic := a\<rparr>"
  obtain r g where rg: "resample_on_eoi 0x35 f = (r, g)" by (cases "resample_on_eoi 0x35 f")
  have inv: "ioapic_inv a"
    using ioapic_new_inv by (auto simp: a_def ioapic_inv_def pins_only_def bits IOAPIC_NUM_PINS_def)
  have tbl: "io_ioredtbl a ! 5 = ?e" "io_irr a = bitm 5" "length (io_pending a) = 0" "f_ioapic f = a"
    by (simp_all add: a_def f_def ioapic_new_def IOAPIC_NUM_PINS_def)
  have cap: "IOAPIC_NUM_PINS \<le> IOAPIC_PENDING_DELIVERY_CAPACITY"
    by (simp add: IOAPIC_NUM_PINS_def IOAPIC_PENDING_DELIVERY_CAPACITY_def)
  have "\<not> active a k" for k
    using tbl(1,2) by (cases "k = 5") (simp_all add: active_def bits)
  moreover have "\<exists>k < IOAPIC_NUM_PINS. entry_vector (io_ioredtbl a ! k) = 0x35 \<and>
      entry_trigger_mode (io_ioredtbl a ! k) \<noteq> 0 \<and> bit (io_irr a) k"
    unfolding tbl(2) using tbl(1)
    by (intro exI [of _ 5]) (simp add: IOAPIC_NUM_PINS_def bits entry_vector_def)
  ultimately have "r \<and> io_pending (f_ioapic g) = io_pending a"
    using eoi_resamples_level_lines [OF _ _ refl rg] inv tbl(3) cap unfolding tbl(4) by (simp, elim conjE) simp
  with inv rg show ?thesis by (simp add: a_def f_def)
qed

end
