(* ===== verification/Pc_System.thy ===== *)
theory Pc_System
  imports Snap Vm_Time
begin

text \<open>
  The PC system of \<^verbatim>\<open>rusty_box/src/pc_system.rs\<close>: the timer wheel (registration, arming, the
  countdown that \<^verbatim>\<open>tickn\<close> consumes and \<^verbatim>\<open>countdown_event\<close> recomputes, the buffer of fired
  owners), the A20 gate, the bus-request and interrupt flags, and the snapshot section.

  Tick counts (\<^verbatim>\<open>u64\<close>), countdowns and fire counts (\<^verbatim>\<open>u32\<close>) are natural numbers; an addition or
  subtraction that the source leaves unchecked wraps explicitly (\<open>add64\<close>, \<open>sub32\<close>), a checked
  or saturating one is written out. The fired-owner buffer is its live prefix. A loop whose
  end depends on the state it meets is a partial function into \<open>option\<close>: \<open>None\<close> is not
  returning. Operations that can fail answer a result and the state they leave behind.
\<close>

section \<open>Timers\<close>

definition BX_MAX_SMP_THREADS_SUPPORTED :: nat where "BX_MAX_SMP_THREADS_SUPPORTED = 254"
definition BX_FIXED_SERIAL_TIMER_OWNERS :: nat where "BX_FIXED_SERIAL_TIMER_OWNERS = 4"
definition HPET_NUM_TIMERS :: nat where "HPET_NUM_TIMERS = 3"
definition BX_MAX_TIMER_ID_LEN :: nat where "BX_MAX_TIMER_ID_LEN = 32"
definition BX_FIXED_TIMER_OWNER_COUNT :: nat where "BX_FIXED_TIMER_OWNER_COUNT = 21"
definition BX_MAX_TIMERS :: nat where
  "BX_MAX_TIMERS = BX_MAX_SMP_THREADS_SUPPORTED + BX_FIXED_TIMER_OWNER_COUNT"
definition NULL_TIMER_INTERVAL :: nat where "NULL_TIMER_INTERVAL = 0xFFFFFFFF"
definition MIN_ALLOWABLE_TIMER_PERIOD :: nat where "MIN_ALLOWABLE_TIMER_PERIOD = 1"

lemmas pc_consts = BX_MAX_SMP_THREADS_SUPPORTED_def BX_FIXED_SERIAL_TIMER_OWNERS_def
  HPET_NUM_TIMERS_def BX_MAX_TIMER_ID_LEN_def BX_FIXED_TIMER_OWNER_COUNT_def BX_MAX_TIMERS_def
  NULL_TIMER_INTERVAL_def MIN_ALLOWABLE_TIMER_PERIOD_def

datatype pc_system_error =
    TimerIndexOutOfBounds nat
  | TimerNotInUse nat
  | NullTimerModification
  | NoFreeTimerSlots
  | TimerStillActive nat
  | TimerDeadlineOverflow
  | TimeConversionOverflow

datatype timer_owner =
    NullTimer | PciIdeCh0 | PciIdeCh1 | Pit | Keyboard | CmosPeriodic | CmosOneSecond | CmosUip
  | AcpiPmOverflow | SerialFifo nat | SerialTx nat | Lapic nat | Slowdown | HdSeek nat | Hpet nat
  | VgaVertical

record timer_flags =
  tf_in_use :: bool
  tf_active :: bool
  tf_continuous :: bool

definition flags_empty :: timer_flags where
  "flags_empty = \<lparr>tf_in_use = False, tf_active = False, tf_continuous = False\<rparr>"

record timer =
  t_flags :: timer_flags
  t_period :: nat
  t_time_to_fire :: nat
  t_owner :: timer_owner
  t_id :: bytes

definition timer_default :: timer where
  "timer_default = \<lparr>t_flags = flags_empty, t_period = 0, t_time_to_fire = 0, t_owner = NullTimer,
     t_id = replicate BX_MAX_TIMER_ID_LEN 0\<rparr>"

abbreviation t_active :: "timer \<Rightarrow> bool" where
  "t_active t \<equiv> tf_active (t_flags t)"

abbreviation t_in_use :: "timer \<Rightarrow> bool" where
  "t_in_use t \<equiv> tf_in_use (t_flags t)"

abbreviation t_continuous :: "timer \<Rightarrow> bool" where
  "t_continuous t \<equiv> tf_continuous (t_flags t)"

definition set_active :: "bool \<Rightarrow> timer \<Rightarrow> timer" where
  "set_active b t = t\<lparr>t_flags := (t_flags t)\<lparr>tf_active := b\<rparr>\<rparr>"

definition set_continuous :: "bool \<Rightarrow> timer \<Rightarrow> timer" where
  "set_continuous b t = t\<lparr>t_flags := (t_flags t)\<lparr>tf_continuous := b\<rparr>\<rparr>"

section \<open>The machine part\<close>

datatype reset_reason = Software | Hardware
datatype device_clock = Ticks | HostTime

record pc_system =
  ps_timers :: "timer list"
  ps_num_timers :: nat
  ps_triggered_timer :: nat
  ps_curr_countdown :: nat
  ps_curr_countdown_period :: nat
  ps_ticks_total :: nat
  ps_last_time_usec :: u64
  ps_usec_since_last :: u64
  ps_a20_mask :: u64
  ps_enable_a20 :: bool
  ps_ips :: nat
  ps_hrq :: bool
  ps_hrq_pending :: bool
  ps_async_event_pending :: bool
  ps_intr_raised :: bool
  ps_intr_cleared :: bool
  ps_kill_bochs_request :: bool
  ps_reset_request :: "reset_reason option"
  ps_fired :: "(timer_owner \<times> nat) list"
  ps_device_clock :: device_clock

definition A20_ON :: u64 where "A20_ON = 0xFFFFFFFFFFFFFFFF"
definition A20_OFF :: u64 where "A20_OFF = 0xFFFFFFFFFFEFFFFF"

definition null_timer :: timer where
  "null_timer = timer_default
     \<lparr>t_flags := \<lparr>tf_in_use = True, tf_active = True, tf_continuous = True\<rparr>,
      t_period := NULL_TIMER_INTERVAL, t_time_to_fire := NULL_TIMER_INTERVAL, t_owner := NullTimer\<rparr>"

definition pc_new :: pc_system where
  "pc_new =
     \<lparr>ps_timers = (replicate BX_MAX_TIMERS timer_default)[0 := null_timer],
      ps_num_timers = 1, ps_triggered_timer = 0,
      ps_curr_countdown = NULL_TIMER_INTERVAL, ps_curr_countdown_period = NULL_TIMER_INTERVAL,
      ps_ticks_total = 0, ps_last_time_usec = 0, ps_usec_since_last = 0,
      ps_a20_mask = A20_OFF, ps_enable_a20 = False, ps_ips = 1000000, ps_hrq = False,
      ps_hrq_pending = False, ps_async_event_pending = False, ps_intr_raised = False,
      ps_intr_cleared = False, ps_kill_bochs_request = False, ps_reset_request = None,
      ps_fired = [], ps_device_clock = Ticks\<rparr>"

definition pc_initialize :: "nat \<Rightarrow> pc_system \<Rightarrow> pc_system" where
  "pc_initialize ips s = s
     \<lparr>ps_ticks_total := 0,
      ps_timers := (ps_timers s)[0 := (ps_timers s ! 0)\<lparr>t_time_to_fire := NULL_TIMER_INTERVAL\<rparr>],
      ps_curr_countdown := NULL_TIMER_INTERVAL, ps_curr_countdown_period := NULL_TIMER_INTERVAL,
      ps_last_time_usec := 0, ps_usec_since_last := 0, ps_triggered_timer := 0, ps_hrq := False,
      ps_hrq_pending := False, ps_kill_bochs_request := False, ps_reset_request := None,
      ps_ips := max ips 1\<rparr>"

definition set_device_clock :: "device_clock \<Rightarrow> pc_system \<Rightarrow> pc_system" where
  "set_device_clock clock s = s\<lparr>ps_device_clock := clock\<rparr>"

section \<open>Width-limited arithmetic\<close>

definition add64 :: "nat \<Rightarrow> nat \<Rightarrow> nat" where
  "add64 a b = (a + b) mod 2 ^ 64"

definition sub32 :: "nat \<Rightarrow> nat \<Rightarrow> nat" where
  "sub32 a b = (a + 2 ^ 32 - b) mod 2 ^ 32"

definition checked_add64 :: "nat \<Rightarrow> nat \<Rightarrow> nat option" where
  "checked_add64 a b = (if a + b < 2 ^ 64 then Some (a + b) else None)"

definition narrow64 :: "nat \<Rightarrow> pc_system_error + nat" where
  "narrow64 n = (if n < 2 ^ 64 then Inr n else Inl TimeConversionOverflow)"

section \<open>Reading time\<close>

definition time_ticks :: "pc_system \<Rightarrow> nat" where
  "time_ticks s = add64 (ps_ticks_total s) (sub32 (ps_curr_countdown_period s) (ps_curr_countdown s))"

definition time_usec_at_ticks :: "nat \<Rightarrow> pc_system \<Rightarrow> pc_system_error + nat" where
  "time_usec_at_ticks ticks s = narrow64 (ticks * 1000000 div ps_ips s)"

definition usec_to_ticks :: "nat \<Rightarrow> pc_system \<Rightarrow> pc_system_error + nat" where
  "usec_to_ticks useconds s = narrow64 (useconds * ps_ips s div 1000000)"

definition time_usec :: "pc_system \<Rightarrow> nat" where
  "time_usec s = (case time_usec_at_ticks (time_ticks s) s of Inl _ \<Rightarrow> 2 ^ 64 - 1 | Inr n \<Rightarrow> n)"

definition time_nsec :: "pc_system \<Rightarrow> nat" where
  "time_nsec s = (case narrow64 (time_ticks s * 1000000000 div ps_ips s) of Inl _ \<Rightarrow> 2 ^ 64 - 1 | Inr n \<Rightarrow> n)"

definition rate :: "pc_system \<Rightarrow> clock_hz" where
  "rate s = (case clock_hz_new (of_nat (ps_ips s)) of None \<Rightarrow> BOCHS_DEFAULT | Some r \<Rightarrow> r)"

definition clock_at :: "nat \<Rightarrow> pc_system \<Rightarrow> vm_clock" where
  "clock_at now_ticks s = \<lparr>vc_now = VmInstant (of_nat now_ticks), vc_rate = rate s\<rparr>"

definition clock_reading_micros :: "u64 \<Rightarrow> pc_system \<Rightarrow> vm_clock" where
  "clock_reading_micros usec s =
     \<lparr>vc_now = VmInstant (span_ticks (ticks_from_micros_ceil (rate s) usec)), vc_rate = rate s\<rparr>"

section \<open>The countdown\<close>

fun bump_fired :: "timer_owner \<Rightarrow> (timer_owner \<times> nat) list \<Rightarrow> (timer_owner \<times> nat) list option" where
  "bump_fired owner [] = None"
| "bump_fired owner ((o', n) # fs) =
     (if o' = owner then Some ((o', min (n + 1) (2 ^ 32 - 1)) # fs)
      else map_option ((#) (o', n)) (bump_fired owner fs))"

definition record_fired :: "timer_owner \<Rightarrow> (timer_owner \<times> nat) list \<Rightarrow> (timer_owner \<times> nat) list" where
  "record_fired owner fs =
     (if owner = NullTimer then fs
      else case bump_fired owner fs of
        Some fs' \<Rightarrow> fs'
      | None \<Rightarrow> if length fs < BX_MAX_TIMERS then fs @ [(owner, 1)] else fs)"

definition record_fired_owner :: "timer_owner \<Rightarrow> pc_system \<Rightarrow> pc_system" where
  "record_fired_owner owner s = s\<lparr>ps_fired := record_fired owner (ps_fired s)\<rparr>"

text \<open>
  \<^verbatim>\<open>while time_to_fire <= ticks_total { time_to_fire += period }\<close>: it need not end for a zero
  period, or when the addition wraps.
\<close>

partial_function (option) advance_past :: "nat \<Rightarrow> nat \<Rightarrow> nat \<Rightarrow> nat option" where
  "advance_past period ticks t =
     (if t \<le> ticks then advance_past period ticks (add64 t period) else Some t)"

record scan =
  sc_timers :: "timer list"
  sc_first :: nat
  sc_last :: nat
  sc_min :: nat
  sc_triggered :: "bool list"

definition note_fire :: "nat \<Rightarrow> scan \<Rightarrow> scan" where
  "note_fire i sc = sc\<lparr>sc_triggered := (sc_triggered sc)[i := True],
     sc_first := (if i < sc_first sc then i else sc_first sc), sc_last := i\<rparr>"

definition note_deadline :: "nat \<Rightarrow> scan \<Rightarrow> scan" where
  "note_deadline d sc = sc\<lparr>sc_min := (if d < sc_min sc then d else sc_min sc)\<rparr>"

definition scan_timer :: "nat \<Rightarrow> nat \<Rightarrow> scan \<Rightarrow> scan option" where
  "scan_timer ticks i sc0 =
     (let sc = sc0\<lparr>sc_triggered := (sc_triggered sc0)[i := False]\<rparr>; t = sc_timers sc ! i in
      if \<not> t_active t then Some sc
      else if ticks \<ge> t_time_to_fire t then
        if \<not> t_continuous t
        then Some (note_fire i (sc\<lparr>sc_timers := (sc_timers sc)[i := set_active False t]\<rparr>))
        else map_option (\<lambda>d. note_fire i (note_deadline d
                (sc\<lparr>sc_timers := (sc_timers sc)[i := t\<lparr>t_time_to_fire := d\<rparr>]\<rparr>)))
              (advance_past (t_period t) ticks (t_time_to_fire t))
      else Some (note_deadline (t_time_to_fire t) sc))"

fun scan_timers :: "nat \<Rightarrow> nat list \<Rightarrow> scan \<Rightarrow> scan option" where
  "scan_timers ticks [] sc = Some sc"
| "scan_timers ticks (i # is) sc = Option.bind (scan_timer ticks i sc) (scan_timers ticks is)"

definition record_triggered :: "bool list \<Rightarrow> nat \<Rightarrow> pc_system \<Rightarrow> pc_system" where
  "record_triggered triggered i s =
     (if triggered ! i
      then (record_fired_owner (t_owner (ps_timers s ! i)) (s\<lparr>ps_triggered_timer := i\<rparr>))
             \<lparr>ps_triggered_timer := 0\<rparr>
      else s)"

definition next_countdown :: "nat \<Rightarrow> nat \<Rightarrow> nat" where
  "next_countdown ticks min_time_to_fire =
     (let d = (if ticks \<le> min_time_to_fire then min_time_to_fire - ticks else MIN_ALLOWABLE_TIMER_PERIOD)
      in min (max d MIN_ALLOWABLE_TIMER_PERIOD) NULL_TIMER_INTERVAL)"

definition countdown_event :: "pc_system \<Rightarrow> pc_system option" where
  "countdown_event s =
     (let ticks = add64 (ps_ticks_total s) (ps_curr_countdown_period s) in
      map_option (\<lambda>sc.
          let next_period = next_countdown ticks (sc_min sc);
              s1 = s\<lparr>ps_ticks_total := ticks, ps_timers := sc_timers sc,
                     ps_curr_countdown := next_period, ps_curr_countdown_period := next_period\<rparr>
          in if sc_first sc \<le> sc_last sc
             then fold (record_triggered (sc_triggered sc)) [sc_first sc..<Suc (sc_last sc)] s1
             else s1)
        (scan_timers ticks [0..<min (ps_num_timers s) BX_MAX_TIMERS]
          \<lparr>sc_timers = ps_timers s, sc_first = ps_num_timers s, sc_last = 0, sc_min = 2 ^ 64 - 1,
           sc_triggered = replicate BX_MAX_TIMERS False\<rparr>))"

partial_function (option) tickn :: "nat \<Rightarrow> pc_system \<Rightarrow> pc_system option" where
  "tickn remaining s =
     (if remaining \<ge> ps_curr_countdown s
      then Option.bind (countdown_event (s\<lparr>ps_curr_countdown := 0\<rparr>))
             (tickn (remaining - ps_curr_countdown s))
      else Some (s\<lparr>ps_curr_countdown := ps_curr_countdown s - remaining\<rparr>))"

definition tick1 :: "pc_system \<Rightarrow> pc_system option" where
  "tick1 s =
     (let s1 = s\<lparr>ps_curr_countdown := sub32 (ps_curr_countdown s) 1\<rparr>
      in if ps_curr_countdown s1 = 0 then countdown_event s1 else Some s1)"

definition isa_bus_delay :: "pc_system \<Rightarrow> pc_system option" where
  "isa_bus_delay s =
     (if ps_ips s > 4000000 then tickn ((ps_ips s * 2 mod 2 ^ 64 div 1000000) mod 2 ^ 32) s else Some s)"

section \<open>System control\<close>

definition set_enable_a20 :: "bool \<Rightarrow> pc_system \<Rightarrow> pc_system" where
  "set_enable_a20 v s =
     (if v then s\<lparr>ps_enable_a20 := True, ps_a20_mask := A20_ON\<rparr>
      else s\<lparr>ps_enable_a20 := False, ps_a20_mask := A20_OFF\<rparr>)"

definition a20_addr :: "u64 \<Rightarrow> pc_system \<Rightarrow> u64" where
  "a20_addr addr s = addr AND ps_a20_mask s"

definition set_hrq :: "bool \<Rightarrow> pc_system \<Rightarrow> pc_system" where
  "set_hrq v s =
     (let s1 = s\<lparr>ps_hrq := v\<rparr> in
      if v then s1\<lparr>ps_hrq_pending := True, ps_async_event_pending := True\<rparr> else s1)"

definition pc_raise_intr :: "pc_system \<Rightarrow> pc_system" where
  "pc_raise_intr s = s\<lparr>ps_intr_raised := True\<rparr>"

definition pc_clear_intr :: "pc_system \<Rightarrow> pc_system" where
  "pc_clear_intr s = s\<lparr>ps_intr_cleared := True\<rparr>"

definition pc_reset :: "reset_reason \<Rightarrow> pc_system \<Rightarrow> pc_system" where
  "pc_reset reset_type s =
     (set_enable_a20 True s)\<lparr>ps_hrq_pending := False, ps_fired := [], ps_reset_request := None\<rparr>"

definition request_reset :: "reset_reason \<Rightarrow> pc_system \<Rightarrow> pc_system" where
  "request_reset reset_type s = s\<lparr>ps_reset_request :=
     (if ps_reset_request s = Some Hardware \<or> reset_type = Hardware then Some Hardware
      else Some Software)\<rparr>"

definition has_reset_request :: "pc_system \<Rightarrow> bool" where
  "has_reset_request s \<longleftrightarrow> ps_reset_request s \<noteq> None"

definition take_reset_request :: "pc_system \<Rightarrow> reset_reason option \<times> pc_system" where
  "take_reset_request s = (ps_reset_request s, s\<lparr>ps_reset_request := None\<rparr>)"

section \<open>Registering and arming timers\<close>

type_synonym 'a outcome = "(pc_system_error + 'a) \<times> pc_system"

definition validate_timer_index :: "nat \<Rightarrow> pc_system \<Rightarrow> pc_system_error + unit" where
  "validate_timer_index i s =
     (if i \<ge> BX_MAX_TIMERS then Inl (TimerIndexOutOfBounds i)
      else if i = 0 then Inl NullTimerModification
      else if \<not> t_in_use (ps_timers s ! i) then Inl (TimerNotInUse i)
      else Inr ())"

definition deadline_from_now :: "nat \<Rightarrow> pc_system \<Rightarrow> pc_system_error + nat" where
  "deadline_from_now ticks s =
     (case checked_add64 (time_ticks s) ticks of None \<Rightarrow> Inl TimerDeadlineOverflow | Some d \<Rightarrow> Inr d)"

definition shorten_countdown_to :: "nat \<Rightarrow> pc_system \<Rightarrow> pc_system" where
  "shorten_countdown_to deadline_ticks s =
     (let now = time_ticks s in
      if deadline_ticks < now then s
      else
        let until_fire = deadline_ticks - now in
        if until_fire = 0 \<or> until_fire \<ge> ps_curr_countdown s then s
        else
          let elapsed = sub32 (ps_curr_countdown_period s) (ps_curr_countdown s)
          in s\<lparr>ps_curr_countdown := until_fire,
               ps_curr_countdown_period := (elapsed + until_fire) mod 2 ^ 32\<rparr>)"

definition arm :: "nat \<Rightarrow> bool \<Rightarrow> timer \<Rightarrow> timer" where
  "arm deadline continuous t =
     set_continuous continuous (set_active True (t\<lparr>t_time_to_fire := deadline\<rparr>))"

definition activate_timer_at_ticks :: "nat \<Rightarrow> nat \<Rightarrow> bool \<Rightarrow> pc_system \<Rightarrow> unit outcome" where
  "activate_timer_at_ticks i deadline_ticks continuous s =
     (case validate_timer_index i s of
        Inl e \<Rightarrow> (Inl e, s)
      | Inr _ \<Rightarrow>
          let now = time_ticks s in
          case (if deadline_ticks \<le> now then checked_add64 now MIN_ALLOWABLE_TIMER_PERIOD
                else Some deadline_ticks) of
            None \<Rightarrow> (Inl TimerDeadlineOverflow, s)
          | Some deadline \<Rightarrow>
              (Inr (), shorten_countdown_to deadline
                 (s\<lparr>ps_timers := (ps_timers s)[i := arm deadline continuous (ps_timers s ! i)]\<rparr>)))"

definition set_period :: "nat \<Rightarrow> nat \<Rightarrow> pc_system \<Rightarrow> pc_system" where
  "set_period i period s = s\<lparr>ps_timers := (ps_timers s)[i := (ps_timers s ! i)\<lparr>t_period := period\<rparr>]\<rparr>"

definition activate_timer_at_ticks_with_period ::
  "nat \<Rightarrow> nat \<Rightarrow> nat \<Rightarrow> bool \<Rightarrow> pc_system \<Rightarrow> unit outcome" where
  "activate_timer_at_ticks_with_period i deadline_ticks period continuous s =
     (case validate_timer_index i s of
        Inl e \<Rightarrow> (Inl e, s)
      | Inr _ \<Rightarrow> activate_timer_at_ticks i deadline_ticks continuous
          (set_period i (max period MIN_ALLOWABLE_TIMER_PERIOD) s))"

definition activate_timer :: "nat \<Rightarrow> nat \<Rightarrow> bool \<Rightarrow> pc_system \<Rightarrow> unit outcome" where
  "activate_timer i period0 continuous s =
     (case validate_timer_index i s of
        Inl e \<Rightarrow> (Inl e, s)
      | Inr _ \<Rightarrow>
          let period = max period0 MIN_ALLOWABLE_TIMER_PERIOD in
          case deadline_from_now period s of
            Inl e \<Rightarrow> (Inl e, s)
          | Inr deadline \<Rightarrow> activate_timer_at_ticks i deadline continuous (set_period i period s))"

definition activate_timer_usec :: "nat \<Rightarrow> nat \<Rightarrow> bool \<Rightarrow> pc_system \<Rightarrow> unit outcome" where
  "activate_timer_usec i useconds continuous s =
     (case validate_timer_index i s of
        Inl e \<Rightarrow> (Inl e, s)
      | Inr _ \<Rightarrow>
          (case (if useconds = 0 then Inr (t_period (ps_timers s ! i))
                 else attempt (usec_to_ticks useconds s) (\<lambda>n. Inr (max n MIN_ALLOWABLE_TIMER_PERIOD))) of
             Inl e \<Rightarrow> (Inl e, s)
           | Inr ticks \<Rightarrow> activate_timer i ticks continuous s))"

definition activate_timer_nsec :: "nat \<Rightarrow> nat \<Rightarrow> bool \<Rightarrow> pc_system \<Rightarrow> unit outcome" where
  "activate_timer_nsec i nseconds continuous s =
     (case validate_timer_index i s of
        Inl e \<Rightarrow> (Inl e, s)
      | Inr _ \<Rightarrow>
          (case (if nseconds = 0 then Inr (t_period (ps_timers s ! i))
                 else attempt (narrow64 (nseconds * ps_ips s div 1000000000))
                   (\<lambda>n. Inr (max n MIN_ALLOWABLE_TIMER_PERIOD))) of
             Inl e \<Rightarrow> (Inl e, s)
           | Inr ticks \<Rightarrow> activate_timer i ticks continuous s))"

definition reactivate_timer_relative :: "nat \<Rightarrow> nat \<Rightarrow> pc_system \<Rightarrow> unit outcome" where
  "reactivate_timer_relative i period0 s =
     (case validate_timer_index i s of
        Inl e \<Rightarrow> (Inl e, s)
      | Inr _ \<Rightarrow>
          let period = max period0 MIN_ALLOWABLE_TIMER_PERIOD in
          case checked_add64 (t_time_to_fire (ps_timers s ! i)) period of
            None \<Rightarrow> (Inl TimerDeadlineOverflow, s)
          | Some deadline \<Rightarrow> activate_timer_at_ticks i deadline False (set_period i period s))"

definition timer_id :: "bytes \<Rightarrow> bytes" where
  "timer_id name =
     (let copied = take (BX_MAX_TIMER_ID_LEN - 1) name
      in copied @ replicate (BX_MAX_TIMER_ID_LEN - length copied) 0)"

definition register_timer ::
  "timer_owner \<Rightarrow> nat \<Rightarrow> bool \<Rightarrow> bool \<Rightarrow> bytes \<Rightarrow> pc_system \<Rightarrow> nat outcome" where
  "register_timer owner period0 continuous active name s =
     (let period = max period0 MIN_ALLOWABLE_TIMER_PERIOD in
      case find (\<lambda>i. \<not> t_in_use (ps_timers s ! i)) [1..<BX_MAX_TIMERS] of
        None \<Rightarrow> (Inl NoFreeTimerSlots, s)
      | Some i \<Rightarrow>
          (case deadline_from_now period s of
             Inl e \<Rightarrow> (Inl e, s)
           | Inr deadline \<Rightarrow>
               let t = \<lparr>t_flags = \<lparr>tf_in_use = True, tf_active = False, tf_continuous = continuous\<rparr>,
                        t_period = period, t_time_to_fire = deadline, t_owner = owner,
                        t_id = timer_id name\<rparr>;
                   s1 = s\<lparr>ps_timers := (ps_timers s)[i := t],
                          ps_num_timers := (if i \<ge> ps_num_timers s then i + 1 else ps_num_timers s)\<rparr>
               in if active
                  then (case activate_timer_at_ticks i deadline continuous s1 of
                          (Inl e, s2) \<Rightarrow> (Inl e, s2)
                        | (Inr _, s2) \<Rightarrow> (Inr i, s2))
                  else (Inr i, s1)))"

definition register_timer_usec ::
  "timer_owner \<Rightarrow> nat \<Rightarrow> bool \<Rightarrow> bool \<Rightarrow> bytes \<Rightarrow> pc_system \<Rightarrow> nat outcome" where
  "register_timer_usec owner useconds continuous active name s =
     (case usec_to_ticks useconds s of
        Inl e \<Rightarrow> (Inl e, s)
      | Inr ticks \<Rightarrow> register_timer owner ticks continuous active name s)"

definition deactivate_timer :: "nat \<Rightarrow> pc_system \<Rightarrow> unit outcome" where
  "deactivate_timer i s =
     (case validate_timer_index i s of
        Inl e \<Rightarrow> (Inl e, s)
      | Inr _ \<Rightarrow> (Inr (), s\<lparr>ps_timers := (ps_timers s)[i := set_active False (ps_timers s ! i)]\<rparr>))"

definition unregister_timer :: "nat \<Rightarrow> pc_system \<Rightarrow> unit outcome" where
  "unregister_timer i s =
     (case validate_timer_index i s of
        Inl e \<Rightarrow> (Inl e, s)
      | Inr _ \<Rightarrow>
          if t_active (ps_timers s ! i) then (Inl (TimerStillActive i), s)
          else (Inr (), s
             \<lparr>ps_timers := (ps_timers s)[i := \<lparr>t_flags = flags_empty, t_period = 2 ^ 64 - 1,
                t_time_to_fire = 2 ^ 64 - 1, t_owner = NullTimer,
                t_id = replicate BX_MAX_TIMER_ID_LEN 0\<rparr>],
              ps_num_timers := (if i = ps_num_timers s - 1 then ps_num_timers s - 1
                                else ps_num_timers s)\<rparr>))"

section \<open>Queries\<close>

definition countdown_would_expire_after :: "nat \<Rightarrow> pc_system \<Rightarrow> bool" where
  "countdown_would_expire_after n s \<longleftrightarrow> n \<ge> ps_curr_countdown s"

definition is_timer_active :: "nat \<Rightarrow> pc_system \<Rightarrow> bool" where
  "is_timer_active i s \<longleftrightarrow> i < ps_num_timers s \<and> t_active (ps_timers s ! i)"

definition timer_countdown :: "nat \<Rightarrow> pc_system \<Rightarrow> nat" where
  "timer_countdown i s =
     (if i \<ge> ps_num_timers s then 0
      else if \<not> t_active (ps_timers s ! i) then 0
      else t_time_to_fire (ps_timers s ! i) - time_ticks s)"

definition min_ticks_to_fire :: "pc_system \<Rightarrow> nat" where
  "min_ticks_to_fire s =
     fold (\<lambda>i m. if t_active (ps_timers s ! i)
                 then min m (t_time_to_fire (ps_timers s ! i) - time_ticks s) else m)
       [0..<ps_num_timers s] (2 ^ 64 - 1)"

definition next_timer_deadline_at :: "pc_system \<Rightarrow> nat option" where
  "next_timer_deadline_at s =
     fold (\<lambda>t deadline.
         if \<not> t_active t \<or> t_owner t = NullTimer then deadline
         else Some (case deadline of Some current \<Rightarrow> min current (t_time_to_fire t)
                    | None \<Rightarrow> t_time_to_fire t))
       (take (ps_num_timers s) (ps_timers s)) None"

definition ticks_to_next_timer_deadline :: "pc_system \<Rightarrow> nat option" where
  "ticks_to_next_timer_deadline s = map_option (\<lambda>d. d - time_ticks s) (next_timer_deadline_at s)"

definition has_fired_timers :: "pc_system \<Rightarrow> bool" where
  "has_fired_timers s \<longleftrightarrow> length (ps_fired s) > 0"

definition take_fired_timers :: "pc_system \<Rightarrow> (timer_owner \<times> nat) list \<times> pc_system" where
  "take_fired_timers s = (ps_fired s, s\<lparr>ps_fired := []\<rparr>)"

definition find_timer_slot_by_owner :: "timer_owner \<Rightarrow> pc_system \<Rightarrow> nat option" where
  "find_timer_slot_by_owner owner s =
     find (\<lambda>i. t_in_use (ps_timers s ! i) \<and> t_owner (ps_timers s ! i) = owner) [0..<ps_num_timers s]"

definition has_fired_owner :: "timer_owner \<Rightarrow> pc_system \<Rightarrow> bool" where
  "has_fired_owner owner s \<longleftrightarrow> owner \<in> set (map fst (ps_fired s))"

end
