(* ===== verification/Pc_Timers.thy ===== *)
theory Pc_Timers
  imports Pc_System
begin

text \<open>
  What advancing emulated time does to the timer wheel. The specification is per timer:
  \<open>due T t\<close> is how often a timer fires on the way to tick \<open>T\<close>, and \<open>settle T t\<close> is the timer
  afterwards. The wheel refines it: \<^verbatim>\<open>countdown_event\<close> settles every timer at its tick, and
  \<^verbatim>\<open>tickn\<close> composes the events, because the countdown never passes an armed deadline.
\<close>

section \<open>The specification of one timer\<close>

definition due :: "nat \<Rightarrow> timer \<Rightarrow> nat" where
  "due T t =
     (if \<not> t_active t \<or> T < t_time_to_fire t then 0
      else if t_continuous t then (T - t_time_to_fire t) div t_period t + 1
      else 1)"

definition settle :: "nat \<Rightarrow> timer \<Rightarrow> timer" where
  "settle T t =
     (if due T t = 0 then t
      else if t_continuous t then t\<lparr>t_time_to_fire := t_time_to_fire t + due T t * t_period t\<rparr>
      else set_active False t)"

lemma due_less: "T < t_time_to_fire t \<Longrightarrow> due T t = 0"
  by (simp add: due_def)

lemma settle_less: "T < t_time_to_fire t \<Longrightarrow> settle T t = t"
  by (simp add: settle_def due_less)

lemma settle_frame [simp]:
  "t_owner (settle T t) = t_owner t" "t_period (settle T t) = t_period t" "t_id (settle T t) = t_id t"
  "t_continuous (settle T t) = t_continuous t" "t_in_use (settle T t) = t_in_use t"
  by (simp_all add: settle_def set_active_def)

lemma div_rest:
  assumes "d \<le> T" "T \<le> U" "1 \<le> (p::nat)" "d' = d + ((T - d) div p + 1) * p"
  shows "T < d'" "(U - d) div p = (T - d) div p + (if U < d' then 0 else (U - d') div p + 1)"
proof -
  define k where "k = (T - d) div p"
  have k: "k * p \<le> T - d" "T - d < (k + 1) * p"
    using assms(3) by (simp_all add: k_def div_times_less_eq_dividend) (simp add: dividend_less_div_times)
  then show "T < d'" using assms(1,4) by (simp add: k_def [symmetric])
  show "(U - d) div p = (T - d) div p + (if U < d' then 0 else (U - d') div p + 1)"
  proof (cases "U < d'")
    case True
    have "k * p \<le> U - d" "U - d < Suc k * p" using k True assms by (auto simp: k_def [symmetric])
    then have "(U - d) div p = k" using assms(3) by (intro div_nat_eqI) (simp_all add: mult.commute)
    with True show ?thesis by (simp add: k_def)
  next
    case False
    then have "U - d = (U - d') + (k + 1) * p" using assms by (simp add: k_def [symmetric])
    moreover have "((U - d') + (k + 1) * p) div p = (k + 1) + (U - d') div p"
      using assms(3) by (intro div_mult_self1) simp
    ultimately have "(U - d) div p = (k + 1) + (U - d') div p" by metis
    with False show ?thesis by (simp add: k_def)
  qed
qed

lemma settle_settle:
  assumes "T \<le> U" "t_active t \<and> t_continuous t \<longrightarrow> 1 \<le> t_period t"
  shows "settle U (settle T t) = settle U t" "due U t = due T t + due U (settle T t)"
proof -
  consider (idle) "due T t = 0" | (once) "due T t \<noteq> 0" "\<not> t_continuous t"
    | (again) "due T t \<noteq> 0" "t_continuous t" by blast
  then have "settle U (settle T t) = settle U t \<and> due U t = due T t + due U (settle T t)"
  proof cases
    case idle
    then show ?thesis by (simp add: settle_def)
  next
    case once
    then have "t_active t" "t_time_to_fire t \<le> T" by (auto simp: due_def split: if_splits)
    with once assms(1) show ?thesis by (simp add: settle_def due_def set_active_def)
  next
    case again
    let ?d = "t_time_to_fire t" let ?p = "t_period t"
    have a: "t_active t" "?d \<le> T" "1 \<le> ?p" using again assms(2) by (auto simp: due_def split: if_splits)
    let ?d' = "?d + ((T - ?d) div ?p + 1) * ?p"
    note r = div_rest [OF a(2) assms(1) a(3) refl]
    have s: "settle T t = t\<lparr>t_time_to_fire := ?d'\<rparr>" using again a by (simp add: settle_def due_def)
    have "due U t = due T t + due U (settle T t)"
      using a again(2) assms(1) r unfolding s by (simp add: due_def)
    moreover have "settle U (settle T t) = settle U t"
    proof (cases "U < ?d'")
      case True
      then have "due U (settle T t) = 0" unfolding s by (simp add: due_def)
      with calculation True have "due U t = due T t" by simp
      with True again(2) show ?thesis unfolding s using a
        by (simp add: settle_def due_def)
    next
      case False
      have "due U (settle T t) \<noteq> 0" using False a again(2) unfolding s by (simp add: due_def)
      then have "settle U (settle T t) = t\<lparr>t_time_to_fire := ?d' + due U (settle T t) * ?p\<rparr>"
        unfolding s using again(2) by (simp add: settle_def)
      moreover have "?d' = ?d + due T t * ?p" using a again by (simp add: due_def)
      moreover have "settle U t = t\<lparr>t_time_to_fire := ?d + due U t * ?p\<rparr>"
        using again a assms(1) by (simp add: settle_def due_def)
      ultimately show ?thesis
        using \<open>due U t = due T t + due U (settle T t)\<close> by (simp add: algebra_simps)
    qed
    ultimately show ?thesis by blast
  qed
  then show "settle U (settle T t) = settle U t" "due U t = due T t + due U (settle T t)" by blast+
qed

section \<open>The scan of a countdown event\<close>

lemma add64_small [simp]: "a + b < 2 ^ 64 \<Longrightarrow> add64 a b = a + b"
  unfolding add64_def by (rule mod_less)

lemma sub32_small [simp]: "b \<le> a \<Longrightarrow> a < 2 ^ 32 \<Longrightarrow> sub32 a b = a - b"
proof -
  assume "b \<le> a" "a < 2 ^ 32"
  then have "a + 2 ^ 32 - b = (a - b) + 2 ^ 32" "a - b < 2 ^ 32" by auto
  then show ?thesis unfolding sub32_def by (metis mod_add_self2 mod_less)
qed

lemma advance_past_once:
  assumes "1 \<le> p" "T + p < 2 ^ 64"
  shows "advance_past p T T = Some (T + p)"
proof -
  have "advance_past p T T = advance_past p T (T + p)"
    using assms by (subst advance_past.simps) (simp del: power_numeral)
  also have "\<dots> = Some (T + p)" using assms(1) by (subst advance_past.simps) simp
  finally show ?thesis .
qed

text \<open>
  Timers an event at tick \<open>T\<close> can meet: no armed deadline is behind, and a repeating one can be
  moved on.
\<close>

definition scannable :: "nat \<Rightarrow> timer \<Rightarrow> bool" where
  "scannable T t \<longleftrightarrow> (t_active t \<longrightarrow> T \<le> t_time_to_fire t \<and>
     (t_continuous t \<longrightarrow> 1 \<le> t_period t \<and> T + t_period t < 2 ^ 64))"

lemma due_scannable:
  assumes "scannable T t"
  shows "due T t \<noteq> 0 \<longleftrightarrow> t_active t \<and> t_time_to_fire t = T" "due T t \<le> 1"
    "due T t \<noteq> 0 \<Longrightarrow> settle T t = (if t_continuous t then t\<lparr>t_time_to_fire := T + t_period t\<rparr>
       else set_active False t)"
  using assms by (auto simp: scannable_def due_def settle_def)

definition scan_state :: "nat \<Rightarrow> nat \<Rightarrow> timer list \<Rightarrow> nat \<Rightarrow> scan \<Rightarrow> bool" where
  "scan_state T num ts k sc \<longleftrightarrow>
     sc_timers sc = map (settle T) (take k ts) @ drop k ts \<and>
     length (sc_triggered sc) = BX_MAX_TIMERS \<and>
     (\<forall>i < BX_MAX_TIMERS. sc_triggered sc ! i \<longleftrightarrow> i < k \<and> due T (ts ! i) \<noteq> 0) \<and>
     (\<forall>i < k. due T (ts ! i) \<noteq> 0 \<longrightarrow> sc_first sc \<le> i \<and> i \<le> sc_last sc) \<and>
     (sc_last sc = 0 \<or> sc_last sc < k) \<and> sc_first sc \<le> num \<and>
     ((\<forall>i < k. due T (ts ! i) = 0) \<longrightarrow> sc_first sc = num \<and> sc_last sc = 0) \<and>
     (\<forall>i < k. t_active (settle T (ts ! i)) \<longrightarrow> sc_min sc \<le> t_time_to_fire (settle T (ts ! i)))"

lemma settle_list_step:
  "k < length ts \<Longrightarrow> (map f (take k ts) @ drop k ts)[k := f (ts ! k)] =
     map f (take (Suc k) ts) @ drop (Suc k) ts"
  using Cons_nth_drop_Suc [of k ts, symmetric]
  by (simp add: take_Suc_conv_app_nth list_update_append)

lemma scan_state_Suc:
  assumes st: "scan_state T num ts k sc" and k: "k < length ts" "length ts = BX_MAX_TIMERS"
    and timers: "sc_timers sc2 = (sc_timers sc)[k := settle T (ts ! k)]"
    and trig: "sc_triggered sc2 = (sc_triggered sc)[k := due T (ts ! k) \<noteq> 0]"
    and fire: "due T (ts ! k) \<noteq> 0 \<Longrightarrow> sc_last sc2 = k \<and> sc_first sc2 = min k (sc_first sc)"
    and idle: "due T (ts ! k) = 0 \<Longrightarrow> sc_last sc2 = sc_last sc \<and> sc_first sc2 = sc_first sc"
    and least: "sc_min sc2 \<le> sc_min sc"
      "t_active (settle T (ts ! k)) \<Longrightarrow> sc_min sc2 \<le> t_time_to_fire (settle T (ts ! k))"
  shows "scan_state T num ts (Suc k) sc2"
proof -
  have old: "sc_timers sc = map (settle T) (take k ts) @ drop k ts"
    "length (sc_triggered sc) = BX_MAX_TIMERS"
    "\<And>i. i < BX_MAX_TIMERS \<Longrightarrow> sc_triggered sc ! i \<longleftrightarrow> i < k \<and> due T (ts ! i) \<noteq> 0"
    "\<And>i. i < k \<Longrightarrow> due T (ts ! i) \<noteq> 0 \<Longrightarrow> sc_first sc \<le> i \<and> i \<le> sc_last sc"
    "sc_last sc = 0 \<or> sc_last sc < k" "sc_first sc \<le> num"
    "(\<forall>i < k. due T (ts ! i) = 0) \<Longrightarrow> sc_first sc = num \<and> sc_last sc = 0"
    "\<And>i. i < k \<Longrightarrow> t_active (settle T (ts ! i)) \<Longrightarrow> sc_min sc \<le> t_time_to_fire (settle T (ts ! i))"
    using st by (simp_all add: scan_state_def)
  have "sc_min sc2 \<le> t_time_to_fire (settle T (ts ! i))" if "i < Suc k" "t_active (settle T (ts ! i))" for i
    using that least old(8) [of i] by (cases "i = k") simp_all
  moreover have "sc_triggered sc2 ! i \<longleftrightarrow> i < Suc k \<and> due T (ts ! i) \<noteq> 0" if "i < BX_MAX_TIMERS" for i
    using that old(2) old(3) [OF that] k by (cases "i = k") (auto simp: trig)
  moreover have "sc_first sc2 \<le> i \<and> i \<le> sc_last sc2" if "i < Suc k" "due T (ts ! i) \<noteq> 0" for i
    using that fire idle old(4) [of i] by (cases "i = k"; cases "due T (ts ! k) = 0") simp_all
  moreover have "sc_first sc2 = num \<and> sc_last sc2 = 0" if "\<forall>i < Suc k. due T (ts ! i) = 0"
    using that idle old(7) by simp
  moreover have "sc_last sc2 = 0 \<or> sc_last sc2 < Suc k" "sc_first sc2 \<le> num"
    using fire idle old(5,6) by (cases "due T (ts ! k) = 0"; auto)+
  ultimately show ?thesis
    using timers old(1,2) settle_list_step [OF k(1), of "settle T"] trig
    unfolding scan_state_def by simp
qed

lemma scan_timer_step:
  assumes st: "scan_state T num ts k sc" and k: "k < length ts" "length ts = BX_MAX_TIMERS"
    and ok: "scannable T (ts ! k)"
  shows "\<exists>sc'. scan_timer T k sc = Some sc' \<and> scan_state T num ts (Suc k) sc'"
proof -
  let ?t = "ts ! k"
  have t: "sc_timers sc ! k = ?t" using st k by (simp add: scan_state_def nth_append)
  note upd = list_update_id [of "sc_timers sc" k, unfolded t]
  let ?sc = "sc\<lparr>sc_triggered := (sc_triggered sc)[k := False], sc_timers := (sc_timers sc)[k := settle T ?t]\<rparr>"
  show ?thesis
  proof (cases "due T ?t = 0")
    case True
    then have s: "settle T ?t = ?t" by (simp add: settle_def)
    have "\<not> t_active ?t \<or> T < t_time_to_fire ?t" using True due_scannable(1) [OF ok] ok
      by (auto simp: scannable_def)
    then have "scan_timer T k sc = Some (if t_active ?t then note_deadline (t_time_to_fire ?t) ?sc else ?sc)"
      by (auto simp: scan_timer_def t Let_def s upd)
    moreover have "scan_state T num ts (Suc k)
        (if t_active ?t then note_deadline (t_time_to_fire ?t) ?sc else ?sc)"
      by (rule scan_state_Suc [OF st k]) (simp_all add: note_deadline_def True s)
    ultimately show ?thesis by (intro exI conjI)
  next
    case False
    then have a: "t_active ?t" "t_time_to_fire ?t = T" using due_scannable(1) [OF ok] by auto
    have act: "t_active (settle T ?t) \<longleftrightarrow> t_continuous ?t"
      using due_scannable(3) [OF ok False] a by (simp add: set_active_def)
    have "scan_timer T k sc = Some (note_fire k
        (if t_continuous ?t then note_deadline (t_time_to_fire (settle T ?t)) ?sc else ?sc))"
      using a ok due_scannable(3) [OF ok False]
      by (simp add: scan_timer_def t Let_def scannable_def advance_past_once)
    moreover have "scan_state T num ts (Suc k) (note_fire k
        (if t_continuous ?t then note_deadline (t_time_to_fire (settle T ?t)) ?sc else ?sc))"
      by (rule scan_state_Suc [OF st k])
        (simp_all add: note_deadline_def note_fire_def False act min_def)
    ultimately show ?thesis by (intro exI conjI)
  qed
qed

lemma scan_timers_snoc:
  "scan_timers T (xs @ [i]) sc = Option.bind (scan_timers T xs sc) (scan_timer T i)"
proof (induction xs arbitrary: sc)
  case Nil
  show ?case by (cases "scan_timer T i sc") simp_all
next
  case (Cons x xs)
  then show ?case by (cases "scan_timer T x sc") simp_all
qed

lemma scan_timers_state:
  assumes "length ts = BX_MAX_TIMERS" "k \<le> num" "num \<le> BX_MAX_TIMERS" "\<forall>t \<in> set ts. scannable T t"
  shows "\<exists>sc. scan_timers T [0..<k] \<lparr>sc_timers = ts, sc_first = num, sc_last = 0, sc_min = m,
      sc_triggered = replicate BX_MAX_TIMERS False\<rparr> = Some sc \<and> scan_state T num ts k sc"
  using assms(2)
proof (induction k)
  case 0
  then show ?case by (simp add: scan_state_def)
next
  case (Suc k)
  then obtain sc where sc: "scan_timers T [0..<k] \<lparr>sc_timers = ts, sc_first = num, sc_last = 0, sc_min = m,
      sc_triggered = replicate BX_MAX_TIMERS False\<rparr> = Some sc" "scan_state T num ts k sc" by auto
  have "k < length ts" using Suc.prems assms(1,3) by simp
  then have "scannable T (ts ! k)" using assms(4) by simp
  from scan_timer_step [OF sc(2) \<open>k < length ts\<close> assms(1) this] Suc.prems sc(1)
  show ?case by (auto simp: scan_timers_snoc)
qed

section \<open>The buffer of fired owners\<close>

definition fired_count :: "timer_owner \<Rightarrow> (timer_owner \<times> nat) list \<Rightarrow> nat" where
  "fired_count p fs = (case map_of fs p of None \<Rightarrow> 0 | Some n \<Rightarrow> n)"

definition fire_cap :: nat where "fire_cap = 2 ^ 32 - 1"

definition fired_ok :: "timer_owner set \<Rightarrow> (timer_owner \<times> nat) list \<Rightarrow> bool" where
  "fired_ok regs fs \<longleftrightarrow> distinct (map fst fs) \<and> set (map fst fs) \<subseteq> regs - {NullTimer} \<and>
     (\<forall>(p, n) \<in> set fs. 1 \<le> n \<and> n \<le> fire_cap)"

lemma bump_fired_None: "bump_fired p fs = None \<longleftrightarrow> p \<notin> set (map fst fs)"
  by (induction p fs rule: bump_fired.induct) auto

lemma bump_fired_Some:
  "bump_fired p fs = Some fs' \<Longrightarrow> map fst fs' = map fst fs \<and>
     (\<forall>q. fired_count q fs' = (if q = p then min (fired_count q fs + 1) fire_cap else fired_count q fs)) \<and>
     ((\<forall>(p, n) \<in> set fs. 1 \<le> n \<and> n \<le> fire_cap) \<longrightarrow> (\<forall>(p, n) \<in> set fs'. 1 \<le> n \<and> n \<le> fire_cap))"
proof (induction p fs arbitrary: fs' rule: bump_fired.induct)
  case (2 p q n fs)
  then show ?case
    by (cases "q = p") (auto simp: fired_count_def fire_cap_def split: if_splits)
qed simp

lemma fired_count_append: "p \<notin> set (map fst fs) \<Longrightarrow> fired_count q (fs @ [(p, 1)]) =
    (if q = p then fired_count q fs + 1 else fired_count q fs)"
proof -
  assume "p \<notin> set (map fst fs)"
  then have "map_of fs p = None" by (simp add: map_of_eq_None_iff)
  then show ?thesis by (auto simp: fired_count_def map_add_def split: option.splits)
qed

lemma fired_count_cap: "fired_ok regs fs \<Longrightarrow> fired_count p fs \<le> fire_cap"
  by (auto simp: fired_ok_def fired_count_def dest: map_of_SomeD split: option.splits)

lemma record_fired_ok:
  assumes "fired_ok regs fs" "finite regs" "card (regs - {NullTimer}) < BX_MAX_TIMERS" "p \<in> regs"
  shows "fired_ok regs (record_fired p fs) \<and> (\<forall>q. fired_count q (record_fired p fs) =
    (if q = p \<and> p \<noteq> NullTimer then min (fired_count q fs + 1) fire_cap else fired_count q fs))"
proof (cases "p = NullTimer")
  case True
  then show ?thesis using assms(1) by (simp add: record_fired_def)
next
  case False
  show ?thesis
  proof (cases "bump_fired p fs")
    case (Some fs')
    with bump_fired_Some [OF Some] False assms(1) show ?thesis
      by (simp add: record_fired_def fired_ok_def)
  next
    case None
    have "length fs = card (set (map fst fs))"
      using assms(1) distinct_card [of "map fst fs"] by (simp add: fired_ok_def)
    also have "\<dots> \<le> card (regs - {NullTimer})"
      using assms(1,2) by (intro card_mono) (simp_all add: fired_ok_def)
    finally have "length fs < BX_MAX_TIMERS" using assms(3) by simp
    with None False have r: "record_fired p fs = fs @ [(p, 1)]" by (simp add: record_fired_def)
    have p: "p \<notin> set (map fst fs)" using None by (simp add: bump_fired_None)
    moreover have "map_of fs p = None" using p by (simp add: map_of_eq_None_iff)
    then have "fired_count p fs = 0" by (simp add: fired_count_def)
    ultimately show ?thesis
      unfolding r using assms(1,4) False fired_count_append [OF p]
      by (auto simp: fired_ok_def fire_cap_def)
  qed
qed

lemma record_all_ok:
  assumes "finite regs" "card (regs - {NullTimer}) < BX_MAX_TIMERS"
  shows "fired_ok regs fs \<Longrightarrow> set ps \<subseteq> regs \<Longrightarrow> fired_ok regs (fold record_fired ps fs) \<and>
    (\<forall>q. q \<noteq> NullTimer \<longrightarrow>
       fired_count q (fold record_fired ps fs) = min (fired_count q fs + count_list ps q) fire_cap)"
proof (induction ps arbitrary: fs)
  case Nil
  then show ?case using fired_count_cap [OF Nil(1)] by (simp add: min_def)
next
  case (Cons p ps)
  note r = record_fired_ok [OF Cons.prems(1) assms, of p]
  have "fired_ok regs (record_fired p fs)" using r Cons.prems by simp
  from Cons.IH [OF this] r Cons.prems show ?case by (auto simp: min_def)
qed

section \<open>The wheel\<close>

definition reg_owners :: "pc_system \<Rightarrow> timer_owner set" where
  "reg_owners s = t_owner ` {t \<in> set (ps_timers s). t_in_use t}"

definition is_null_timer :: "timer \<Rightarrow> bool" where
  "is_null_timer t \<longleftrightarrow> t_in_use t \<and> t_active t \<and> t_continuous t \<and> t_owner t = NullTimer \<and>
     t_period t = NULL_TIMER_INTERVAL"

text \<open>A timer against the next countdown event at tick \<open>T\<close>.\<close>

definition timer_ok :: "nat \<Rightarrow> timer \<Rightarrow> bool" where
  "timer_ok T t \<longleftrightarrow> (t_active t \<longrightarrow> t_in_use t \<and> T \<le> t_time_to_fire t \<and> t_time_to_fire t < 2 ^ 64) \<and>
     (t_in_use t \<longrightarrow> 1 \<le> t_period t)"

definition next_event :: "pc_system \<Rightarrow> nat" where
  "next_event s = ps_ticks_total s + ps_curr_countdown_period s"

definition wheel :: "pc_system \<Rightarrow> bool" where
  "wheel s \<longleftrightarrow>
     length (ps_timers s) = BX_MAX_TIMERS \<and> 1 \<le> ps_num_timers s \<and> ps_num_timers s \<le> BX_MAX_TIMERS \<and>
     ps_curr_countdown s \<le> ps_curr_countdown_period s \<and> 1 \<le> ps_curr_countdown_period s \<and>
     ps_curr_countdown_period s < 2 ^ 32 \<and>
     (\<forall>t \<in> set (ps_timers s). timer_ok (next_event s) t) \<and>
     (\<forall>i < BX_MAX_TIMERS. ps_num_timers s \<le> i \<longrightarrow> \<not> t_in_use (ps_timers s ! i)) \<and>
     is_null_timer (ps_timers s ! 0) \<and> fired_ok (reg_owners s) (ps_fired s)"

text \<open>Emulated time stays representable up to tick \<open>T\<close>, repeating deadlines included.\<close>

definition horizon :: "nat \<Rightarrow> pc_system \<Rightarrow> bool" where
  "horizon T s \<longleftrightarrow> (\<forall>t \<in> set (ps_timers s). t_active t \<and> t_continuous t \<longrightarrow> T + t_period t < 2 ^ 64)"

lemma BX_MAX_TIMERS_pos [simp]: "0 < BX_MAX_TIMERS"
  by (simp add: pc_consts)

lemma wheel_null: "wheel s \<Longrightarrow> ps_timers s ! 0 \<in> set (ps_timers s) \<and> is_null_timer (ps_timers s ! 0)"
  by (auto simp: wheel_def)

lemma horizon_bound:
  assumes "wheel s" "horizon T s"
  shows "T + 2 ^ 32 \<le> 2 ^ 64"
proof -
  have "T + t_period (ps_timers s ! 0) < 2 ^ 64"
    using wheel_null [OF assms(1)] assms(2) unfolding horizon_def is_null_timer_def by blast
  then have "T + 0xFFFFFFFF < 2 ^ 64"
    using wheel_null [OF assms(1)] by (simp add: is_null_timer_def pc_consts)
  then show ?thesis by simp
qed

lemma reg_owners_card:
  assumes "wheel s"
  shows "finite (reg_owners s)" "card (reg_owners s - {NullTimer}) < BX_MAX_TIMERS"
proof -
  have "reg_owners s - {NullTimer} \<subseteq> t_owner ` set (tl (ps_timers s))"
  proof
    fix p assume p: "p \<in> reg_owners s - {NullTimer}"
    then obtain t where t: "t \<in> set (ps_timers s)" "t_owner t = p" by (auto simp: reg_owners_def)
    have "ps_timers s = ps_timers s ! 0 # tl (ps_timers s)"
      using assms by (cases "ps_timers s") (auto simp: wheel_def)
    moreover have "t \<noteq> ps_timers s ! 0"
      using t(2) p wheel_null [OF assms] by (auto simp: is_null_timer_def)
    ultimately have "t \<in> set (tl (ps_timers s))" using t(1) by (metis set_ConsD)
    with t(2) show "p \<in> t_owner ` set (tl (ps_timers s))" by blast
  qed
  then have "card (reg_owners s - {NullTimer}) \<le> card (t_owner ` set (tl (ps_timers s)))"
    by (intro card_mono) simp_all
  also have "\<dots> \<le> length (tl (ps_timers s))" using card_length card_image_le le_trans by blast
  also have "\<dots> < BX_MAX_TIMERS" using assms by (simp add: wheel_def)
  finally show "card (reg_owners s - {NullTimer}) < BX_MAX_TIMERS" .
  show "finite (reg_owners s)" by (simp add: reg_owners_def)
qed

lemma record_triggered_fold:
  "fold (record_triggered trig) is s =
     s\<lparr>ps_fired := fold record_fired
        (map (\<lambda>i. t_owner (ps_timers s ! i)) (filter (\<lambda>i. trig ! i) is)) (ps_fired s),
       ps_triggered_timer := (if filter (\<lambda>i. trig ! i) is = [] then ps_triggered_timer s else 0)\<rparr>"
  by (induction "is" arbitrary: s) (simp_all add: record_triggered_def record_fired_owner_def)

lemma filter_range:
  assumes "a \<le> b" "b \<le> n" "\<And>i. i < n \<Longrightarrow> P i \<Longrightarrow> a \<le> i \<and> i < b"
  shows "filter P [0..<n] = filter P [a..<b]"
proof -
  have "[0..<n] = [0..<a] @ [a..<b] @ [b..<n]"
    using assms(1,2) by (metis le_add_diff_inverse upt_add_eq_append zero_le le_trans)
  moreover have "\<not> P i" if "i < a" for i using assms(3) [of i] assms(1,2) that by auto
  moreover have "\<not> P i" if "b \<le> i" "i < n" for i using assms(3) [of i] that by auto
  ultimately show ?thesis by (simp add: filter_empty_conv)
qed

lemma filter_nth:
  assumes "n \<le> length xs" "\<And>i. n \<le> i \<Longrightarrow> i < length xs \<Longrightarrow> \<not> P (xs ! i)"
  shows "map (\<lambda>i. f (xs ! i)) (filter (\<lambda>i. P (xs ! i)) [0..<n]) = map f (filter P xs)"
proof -
  have "[0..<length xs] = [0..<n] @ [n..<length xs]"
    using assms(1) by (metis le_add_diff_inverse upt_add_eq_append zero_le)
  moreover have "filter (\<lambda>i. P (xs ! i)) [n..<length xs] = []" using assms(2) by (simp add: filter_empty_conv)
  moreover have "filter P xs = map (nth xs) (filter (\<lambda>i. P (xs ! i)) [0..<length xs])"
    by (metis filter_map map_nth comp_def filter_cong)
  ultimately show ?thesis by simp
qed

definition fires :: "timer_owner \<Rightarrow> nat \<Rightarrow> timer list \<Rightarrow> nat" where
  "fires p T ts = (\<Sum>t \<leftarrow> ts. if t_owner t = p then due T t else 0)"

lemma fires_event:
  "\<forall>t \<in> set ts. scannable T t \<Longrightarrow> count_list (map t_owner (filter (\<lambda>t. due T t \<noteq> 0) ts)) p = fires p T ts"
proof (induction ts)
  case (Cons t ts)
  have "due T t \<le> 1" using Cons.prems due_scannable(2) by simp
  with Cons show ?case by (auto simp: fires_def le_Suc_eq)
qed (simp add: fires_def)

lemma fires_settle:
  assumes "T \<le> U" "\<forall>t \<in> set ts. t_active t \<and> t_continuous t \<longrightarrow> 1 \<le> t_period t"
  shows "fires p U ts = fires p T ts + fires p U (map (settle T) ts)"
  using assms(2)
proof (induction ts)
  case (Cons t ts)
  then show ?case using settle_settle(2) [OF assms(1), of t] by (simp add: fires_def)
qed (simp add: fires_def)

text \<open>The state an event leaves at its tick, but for the length of the next countdown.\<close>

definition after_event :: "nat \<Rightarrow> nat \<Rightarrow> pc_system \<Rightarrow> pc_system" where
  "after_event T np s = s\<lparr>ps_ticks_total := T, ps_timers := map (settle T) (ps_timers s),
     ps_curr_countdown := np, ps_curr_countdown_period := np,
     ps_fired := fold record_fired
       (map t_owner (filter (\<lambda>t. due T t \<noteq> 0) (ps_timers s))) (ps_fired s),
     ps_triggered_timer := (if filter (\<lambda>t. due T t \<noteq> 0) (ps_timers s) = []
       then ps_triggered_timer s else 0)\<rparr>"

lemma wheel_scannable:
  assumes "wheel s" "horizon (next_event s) s"
  shows "\<forall>t \<in> set (ps_timers s). scannable (next_event s) t"
  using assms by (auto simp: wheel_def horizon_def scannable_def timer_ok_def)

lemma scan_done:
  assumes sc: "scan_state T n ts n sc" and len: "length ts = BX_MAX_TIMERS" "1 \<le> n" "n \<le> BX_MAX_TIMERS"
    and idle: "\<forall>i < BX_MAX_TIMERS. n \<le> i \<longrightarrow> \<not> t_active (ts ! i)"
  shows "sc_timers sc = map (settle T) ts"
    "t \<in> set ts \<Longrightarrow> t_active (settle T t) \<Longrightarrow> sc_min sc \<le> t_time_to_fire (settle T t)"
proof -
  have "settle T (ts ! i) = ts ! i" if "n \<le> i" "i < BX_MAX_TIMERS" for i
    using idle that by (simp add: due_def settle_def)
  then have "drop n ts = map (settle T) (drop n ts)" using len by (intro nth_equalityI) simp_all
  moreover have "sc_timers sc = map (settle T) (take n ts) @ drop n ts" using sc by (simp add: scan_state_def)
  ultimately have "sc_timers sc = map (settle T) (take n ts @ drop n ts)" unfolding map_append by simp
  then show "sc_timers sc = map (settle T) ts" by simp
  assume t: "t \<in> set ts" "t_active (settle T t)"
  then obtain i where i: "i < BX_MAX_TIMERS" "t = ts ! i" using len(1) by (auto simp: in_set_conv_nth)
  have "t_active t" using t(2) by (auto simp: settle_def set_active_def split: if_splits)
  with idle i have "i < n" by (meson not_less)
  then show "sc_min sc \<le> t_time_to_fire (settle T t)" using sc t(2) i by (simp add: scan_state_def)
qed

lemma scan_recorded:
  assumes sc: "scan_state T n ts n sc" and len: "length ts = BX_MAX_TIMERS" "1 \<le> n" "n \<le> BX_MAX_TIMERS"
    and idle: "\<forall>i < BX_MAX_TIMERS. n \<le> i \<longrightarrow> \<not> t_active (ts ! i)"
    and s1: "ps_timers s1 = map (settle T) ts"
  shows "(if sc_first sc \<le> sc_last sc
      then fold (record_triggered (sc_triggered sc)) [sc_first sc..<Suc (sc_last sc)] s1 else s1) =
    s1\<lparr>ps_fired := fold record_fired (map t_owner (filter (\<lambda>t. due T t \<noteq> 0) ts)) (ps_fired s1),
      ps_triggered_timer := (if filter (\<lambda>t. due T t \<noteq> 0) ts = [] then ps_triggered_timer s1 else 0)\<rparr>"
proof -
  have trig: "\<forall>i < BX_MAX_TIMERS. sc_triggered sc ! i \<longleftrightarrow> i < n \<and> due T (ts ! i) \<noteq> 0"
    and range: "\<forall>i < n. due T (ts ! i) \<noteq> 0 \<longrightarrow> sc_first sc \<le> i \<and> i \<le> sc_last sc"
    and last: "sc_last sc < n" using sc len by (auto simp: scan_state_def)
  let ?F = "filter (\<lambda>i. due T (ts ! i) \<noteq> 0)"
  have o: "map (\<lambda>i. t_owner (ts ! i)) (?F [0..<n]) = map t_owner (filter (\<lambda>t. due T t \<noteq> 0) ts)"
    using len idle by (intro filter_nth) (simp_all add: due_def)
  then have "?F [0..<n] = [] \<longleftrightarrow> filter (\<lambda>t. due T t \<noteq> 0) ts = []" by (metis map_is_Nil_conv)
  moreover note o
  moreover have "map (\<lambda>i. t_owner (ps_timers s1 ! i)) (?F [0..<n]) = map (\<lambda>i. t_owner (ts ! i)) (?F [0..<n])"
    unfolding s1 using len by (intro map_cong) auto
  moreover have "filter (\<lambda>i. sc_triggered sc ! i) [sc_first sc..<Suc (sc_last sc)] = ?F [0..<n]"
    if "sc_first sc \<le> sc_last sc"
  proof -
    have "filter (\<lambda>i. sc_triggered sc ! i) [sc_first sc..<Suc (sc_last sc)] =
        ?F [sc_first sc..<Suc (sc_last sc)]"
      using trig last len by (intro filter_cong) auto
    also have "\<dots> = ?F [0..<n]" using that last range by (intro filter_range [symmetric]) auto
    finally show ?thesis .
  qed
  moreover have "?F [0..<n] = []" if "\<not> sc_first sc \<le> sc_last sc"
    using that range by (auto simp: filter_empty_conv)
  ultimately show ?thesis
    by (cases "sc_first sc \<le> sc_last sc") (simp_all add: record_triggered_fold  del: upt_Suc)
qed

lemma next_countdown_bounds:
  "1 \<le> next_countdown T m" "next_countdown T m < 2 ^ 32"
  "m \<le> d \<Longrightarrow> T < d \<Longrightarrow> T + next_countdown T m \<le> d"
  by (auto simp: next_countdown_def Let_def pc_consts)

lemma settle_later: "scannable T t \<Longrightarrow> t_active (settle T t) \<Longrightarrow> T < t_time_to_fire (settle T t)"
  using due_scannable [of T t]
  by (cases "due T t = 0") (auto simp: settle_def scannable_def set_active_def split: if_splits)

lemma countdown_event_runs:
  assumes w: "wheel s" and h: "horizon (next_event s) s"
  shows "\<exists>np. countdown_event s = Some (after_event (next_event s) np s) \<and> 1 \<le> np \<and> np < 2 ^ 32 \<and>
    (\<forall>t \<in> set (ps_timers s). t_active (settle (next_event s) t) \<longrightarrow>
       next_event s + np \<le> t_time_to_fire (settle (next_event s) t))"
proof -
  let ?T = "next_event s" let ?ts = "ps_timers s" let ?n = "ps_num_timers s"
  have len: "length ?ts = BX_MAX_TIMERS" "1 \<le> ?n" "?n \<le> BX_MAX_TIMERS"
    using w by (simp_all add: wheel_def)
  note scannable = wheel_scannable [OF w h]
  have T: "add64 (ps_ticks_total s) (ps_curr_countdown_period s) = ?T"
    using horizon_bound [OF w h] by (simp add: next_event_def)
  obtain sc where sc: "scan_timers ?T [0..<?n] \<lparr>sc_timers = ?ts, sc_first = ?n, sc_last = 0,
      sc_min = 2 ^ 64 - 1, sc_triggered = replicate BX_MAX_TIMERS False\<rparr> = Some sc" "scan_state ?T ?n ?ts ?n sc"
    using scan_timers_state [OF len(1) order_refl len(3) scannable, of "2 ^ 64 - 1"] by blast
  have idle: "\<forall>i < BX_MAX_TIMERS. ?n \<le> i \<longrightarrow> \<not> t_active (?ts ! i)"
    using w len(1) by (auto simp: wheel_def timer_ok_def)
  note fin = scan_done [OF sc(2) len idle]
  let ?np = "next_countdown ?T (sc_min sc)"
  let ?s1 = "s\<lparr>ps_ticks_total := ?T, ps_timers := sc_timers sc, ps_curr_countdown := ?np,
      ps_curr_countdown_period := ?np\<rparr>"
  have "countdown_event s = Some (after_event ?T ?np s)"
    using scan_recorded [OF sc(2) len idle, of ?s1] sc(1) len(3) fin(1)
    by (simp add: countdown_event_def T Let_def min_absorb1 after_event_def)
  moreover have "?T + ?np \<le> t_time_to_fire (settle ?T t)" if "t \<in> set ?ts" "t_active (settle ?T t)" for t
    using next_countdown_bounds(3) fin(2) [OF that] settle_later [of ?T t] scannable that by blast
  ultimately show ?thesis using next_countdown_bounds(1,2) by metis
qed

lemma settle_active: "t_active (settle T t) \<Longrightarrow> t_active t"
  by (auto simp: settle_def set_active_def split: if_splits)

lemma after_event_sel [simp]:
  "ps_timers (after_event T np s) = map (settle T) (ps_timers s)"
  "ps_curr_countdown (after_event T np s) = np" "ps_curr_countdown_period (after_event T np s) = np"
  "ps_ticks_total (after_event T np s) = T" "ps_num_timers (after_event T np s) = ps_num_timers s"
  "next_event (after_event T np s) = T + np"
  "horizon U s \<Longrightarrow> horizon U (after_event T np s)"
  using settle_active by (auto simp: after_event_def next_event_def horizon_def)

lemma reg_owners_after_event [simp]: "reg_owners (after_event T np s) = reg_owners s"
proof -
  have "{t \<in> settle T ` A. t_in_use t} = settle T ` {t \<in> A. t_in_use t}" for A by auto
  then show ?thesis by (simp add: reg_owners_def image_image)
qed

lemma settle_bound:
  "scannable T t \<Longrightarrow> t_time_to_fire t < 2 ^ 64 \<Longrightarrow> t_active (settle T t) \<Longrightarrow> t_time_to_fire (settle T t) < 2 ^ 64"
  using due_scannable(3) [of T t]
  by (cases "due T t = 0") (auto simp: settle_def [of T t] scannable_def set_active_def due_def split: if_splits)

lemma after_event_fired:
  assumes w: "wheel s" and h: "horizon (next_event s) s"
  shows "fired_ok (reg_owners s) (ps_fired (after_event (next_event s) np s))"
    "p \<noteq> NullTimer \<Longrightarrow> fired_count p (ps_fired (after_event (next_event s) np s)) =
       min (fired_count p (ps_fired s) + fires p (next_event s) (ps_timers s)) fire_cap"
proof -
  let ?ps = "map t_owner (filter (\<lambda>t. due (next_event s) t \<noteq> 0) (ps_timers s))"
  have "t_in_use t" if "t \<in> set (ps_timers s)" "due (next_event s) t \<noteq> 0" for t
    using w that by (auto simp: wheel_def timer_ok_def due_def split: if_splits)
  then have ps: "set ?ps \<subseteq> reg_owners s" by (auto simp: reg_owners_def)
  have "fired_ok (reg_owners s) (ps_fired s)" using w by (simp add: wheel_def)
  note r = record_all_ok [OF reg_owners_card [OF w] this ps]
  show "fired_ok (reg_owners s) (ps_fired (after_event (next_event s) np s))"
    using r by (simp add: after_event_def)
  show "fired_count p (ps_fired (after_event (next_event s) np s)) =
      min (fired_count p (ps_fired s) + fires p (next_event s) (ps_timers s)) fire_cap" if "p \<noteq> NullTimer"
    using r that fires_event [OF wheel_scannable [OF w h], of p] by (simp add: after_event_def)
qed

lemma after_event_wheel:
  assumes w: "wheel s" and h: "horizon (next_event s) s" and np: "1 \<le> np" "np < 2 ^ 32"
    and later: "\<forall>t \<in> set (ps_timers s). t_active (settle (next_event s) t) \<longrightarrow>
       next_event s + np \<le> t_time_to_fire (settle (next_event s) t)"
  shows "wheel (after_event (next_event s) np s)"
proof -
  let ?T = "next_event s" let ?s = "after_event ?T np s"
  have base: "length (ps_timers s) = BX_MAX_TIMERS" "1 \<le> ps_num_timers s" "ps_num_timers s \<le> BX_MAX_TIMERS"
    "is_null_timer (ps_timers s ! 0)"
    and ok: "\<forall>t \<in> set (ps_timers s). timer_ok ?T t"
    and free: "\<forall>i < BX_MAX_TIMERS. ps_num_timers s \<le> i \<longrightarrow> \<not> t_in_use (ps_timers s ! i)"
    using w by (simp_all add: wheel_def)
  have "timer_ok (?T + np) (settle ?T t)" if t: "t \<in> set (ps_timers s)" for t
    using ok t later settle_bound [of ?T t] settle_active [of ?T t] wheel_scannable [OF w h]
    by (auto simp: timer_ok_def)
  then have "\<forall>t \<in> set (ps_timers ?s). timer_ok (next_event ?s) t" by simp
  moreover have "is_null_timer (ps_timers ?s ! 0)"
    using base(1,4) by (auto simp: is_null_timer_def settle_def)
  moreover have "\<forall>i < BX_MAX_TIMERS. ps_num_timers ?s \<le> i \<longrightarrow> \<not> t_in_use (ps_timers ?s ! i)"
    using free base(1) by simp
  moreover have "fired_ok (reg_owners ?s) (ps_fired ?s)" using after_event_fired(1) [OF w h] by simp
  ultimately show ?thesis using base(1-3) np unfolding wheel_def by simp
qed

section \<open>Advancing time\<close>

lemma wheel_next_event:
  assumes "wheel s"
  shows "next_event s < 2 ^ 64" "time_ticks s + ps_curr_countdown s = next_event s"
proof -
  have "timer_ok (next_event s) (ps_timers s ! 0)" using assms wheel_null [OF assms] by (auto simp: wheel_def)
  then show n: "next_event s < 2 ^ 64"
    using wheel_null [OF assms] by (auto simp: timer_ok_def is_null_timer_def)
  have "ps_curr_countdown s \<le> ps_curr_countdown_period s" "ps_curr_countdown_period s < 2 ^ 32"
    using assms by (simp_all add: wheel_def)
  with n show "time_ticks s + ps_curr_countdown s = next_event s"
    unfolding next_event_def time_ticks_def by (subst sub32_small; simp)+
qed

text \<open>Before the next event nothing is due.\<close>

lemma wheel_quiet:
  assumes "wheel s" "T < next_event s"
  shows "map (settle T) (ps_timers s) = ps_timers s" "fires p T (ps_timers s) = 0"
proof -
  have "due T t = 0" if "t \<in> set (ps_timers s)" for t
    using assms that by (auto simp: wheel_def timer_ok_def due_def)
  then show "map (settle T) (ps_timers s) = ps_timers s" "fires p T (ps_timers s) = 0"
    by (auto simp: settle_def fires_def intro!: map_idI)
qed

lemma horizon_mono: "horizon T s \<Longrightarrow> U \<le> T \<Longrightarrow> horizon U s"
  by (fastforce simp: horizon_def)

lemma min_add_min: "min (min (a + b) c + d) c = min (a + (b + d)) (c :: nat)"
  by (simp add: min_def)

text \<open>What the passing of time does not touch.\<close>

definition still :: "pc_system \<Rightarrow> pc_system" where
  "still s = s\<lparr>ps_timers := [], ps_fired := [], ps_ticks_total := 0, ps_curr_countdown := 0,
     ps_curr_countdown_period := 0, ps_triggered_timer := 0\<rparr>"

lemma still_sel:
  assumes "still s' = still s"
  shows "ps_ips s' = ps_ips s" "ps_num_timers s' = ps_num_timers s" "ps_a20_mask s' = ps_a20_mask s"
    "ps_enable_a20 s' = ps_enable_a20 s"
  using assms by (cases s, cases s', simp add: still_def)+

definition advanced :: "nat \<Rightarrow> pc_system \<Rightarrow> pc_system \<Rightarrow> bool" where
  "advanced T s s' \<longleftrightarrow> still s' = still s \<and> (ps_triggered_timer s = 0 \<longrightarrow> ps_triggered_timer s' = 0) \<and>
     time_ticks s' = T \<and> ps_timers s' = map (settle T) (ps_timers s) \<and>
     (\<forall>p. p \<noteq> NullTimer \<longrightarrow>
        fired_count p (ps_fired s') = min (fired_count p (ps_fired s) + fires p T (ps_timers s)) fire_cap)"

lemma tickn_event:
  assumes w: "wheel s" and h: "horizon (next_event s) s" and n: "ps_curr_countdown s \<le> n"
  shows "\<exists>s1. tickn n s = tickn (n - ps_curr_countdown s) s1 \<and> wheel s1 \<and> 1 \<le> ps_curr_countdown s1 \<and>
    advanced (next_event s) s s1 \<and> (\<forall>T. horizon T s \<longrightarrow> horizon T s1)"
proof -
  let ?s0 = "s\<lparr>ps_curr_countdown := 0\<rparr>"
  have w0: "wheel ?s0" and h0: "horizon (next_event ?s0) ?s0" and [simp]: "next_event ?s0 = next_event s"
    using w h by (simp_all add: wheel_def next_event_def horizon_def reg_owners_def)
  obtain np where np: "countdown_event ?s0 = Some (after_event (next_event s) np ?s0)" "1 \<le> np" "np < 2 ^ 32"
    "\<forall>t \<in> set (ps_timers ?s0). t_active (settle (next_event ?s0) t) \<longrightarrow>
       next_event ?s0 + np \<le> t_time_to_fire (settle (next_event ?s0) t)"
    using countdown_event_runs [OF w0 h0] by auto
  let ?s1 = "after_event (next_event s) np ?s0"
  have w1: "wheel ?s1" using after_event_wheel [OF w0 h0 np(2-4)] by simp
  have "time_ticks ?s1 = next_event s" using wheel_next_event(2) [OF w1] by simp
  then have "advanced (next_event s) s ?s1"
    using after_event_fired(2) [OF w0 h0] by (simp add: advanced_def) (simp add: after_event_def still_def)
  moreover have "tickn n s = tickn (n - ps_curr_countdown s) ?s1"
    using n np(1) by (subst tickn.simps) simp
  moreover have "horizon T ?s1" if "horizon T s" for T
    using that by (intro after_event_sel) (simp add: horizon_def)
  ultimately show ?thesis using w1 np(2) by (intro exI [of _ ?s1]) simp
qed

lemma advanced_trans:
  assumes "wheel s" "advanced T s s1" "advanced U s1 s2" "T \<le> U"
  shows "advanced U s s2"
proof -
  have p: "\<forall>t \<in> set (ps_timers s). t_active t \<and> t_continuous t \<longrightarrow> 1 \<le> t_period t"
    using assms(1) by (auto simp: wheel_def timer_ok_def)
  have "map (settle U) (map (settle T) (ps_timers s)) = map (settle U) (ps_timers s)"
    using p settle_settle(1) [OF assms(4)] by simp
  then show ?thesis
    using assms(2,3) fires_settle [OF assms(4) p] by (simp add: advanced_def min_add_min del: map_map)
qed

lemma tickn_spec:
  "wheel s \<Longrightarrow> 1 \<le> ps_curr_countdown s \<Longrightarrow> horizon (time_ticks s + n) s \<Longrightarrow>
   \<exists>s'. tickn n s = Some s' \<and> wheel s' \<and> 1 \<le> ps_curr_countdown s' \<and> advanced (time_ticks s + n) s s'"
proof (induction n arbitrary: s rule: less_induct)
  case (less n)
  note e = wheel_next_event [OF less.prems(1)]
  show ?case
  proof (cases "ps_curr_countdown s \<le> n")
    case True
    then have ne: "next_event s \<le> time_ticks s + n" using e(2) by simp
    obtain s1 where s1: "tickn n s = tickn (n - ps_curr_countdown s) s1" "wheel s1" "1 \<le> ps_curr_countdown s1"
      "advanced (next_event s) s s1" "\<forall>T. horizon T s \<longrightarrow> horizon T s1"
      using tickn_event [OF less.prems(1) horizon_mono [OF less.prems(3) ne] True] by blast
    have t: "time_ticks s1 + (n - ps_curr_countdown s) = time_ticks s + n"
      using s1(4) True e(2) by (simp add: advanced_def)
    with less.IH [of "n - ps_curr_countdown s" s1] s1(2,3,5) less.prems True
    obtain s' where "tickn (n - ps_curr_countdown s) s1 = Some s'" "wheel s'" "1 \<le> ps_curr_countdown s'"
      "advanced (time_ticks s + n) s1 s'" by auto
    then show ?thesis using s1(1) advanced_trans [OF less.prems(1) s1(4) _ ne] by auto
  next
    case False
    let ?s' = "s\<lparr>ps_curr_countdown := ps_curr_countdown s - n\<rparr>"
    have w: "wheel ?s'" using less.prems(1) by (auto simp: wheel_def next_event_def reg_owners_def)
    have T: "time_ticks s + n < next_event s" using e(2) False by simp
    have "time_ticks ?s' = time_ticks s + n"
      using wheel_next_event(2) [OF w] e(2) False by (simp add: next_event_def)
    then have "advanced (time_ticks s + n) s ?s'"
      using wheel_quiet [OF less.prems(1) T] less.prems(1) fired_count_cap
      by (auto simp: advanced_def wheel_def min_absorb1 still_def)
    moreover have "tickn n s = Some ?s'" using False by (subst tickn.simps) simp
    ultimately show ?thesis using w False by auto
  qed
qed

end
