(* ===== verification/Pc_Arming.thy ===== *)
theory Pc_Arming
  imports Pc_Timers
begin

text \<open>
  Registering, arming, stopping and releasing timers on a running wheel. Every arming operation
  of \<^verbatim>\<open>pc_system.rs\<close> ends in \<^verbatim>\<open>activate_timer_at_ticks\<close>; on a wheel it installs the timer with a
  deadline after the present, shortens the countdown so that the deadline is not passed over,
  and changes nothing else.
\<close>

section \<open>The countdown and the slots\<close>

lemma fired_ok_mono: "fired_ok regs fs \<Longrightarrow> regs \<subseteq> regs' \<Longrightarrow> fired_ok regs' fs"
  by (auto simp: fired_ok_def)

text \<open>What a step may change: the slot table, and the countdown without moving the present.\<close>

definition rewound :: "timer list \<Rightarrow> nat \<Rightarrow> pc_system \<Rightarrow> pc_system \<Rightarrow> bool" where
  "rewound ts n s s' \<longleftrightarrow> time_ticks s' = time_ticks s \<and>
     (\<exists>cc per. s' = s\<lparr>ps_timers := ts, ps_num_timers := n, ps_curr_countdown := cc,
        ps_curr_countdown_period := per\<rparr>)"

lemma rewound_refl: "rewound (ps_timers s) (ps_num_timers s) s s"
  unfolding rewound_def
  by (intro conjI refl exI [of _ "ps_curr_countdown s"] exI [of _ "ps_curr_countdown_period s"]) simp

lemma shorten_timers: "shorten_countdown_to d (s\<lparr>ps_timers := ts\<rparr>) = (shorten_countdown_to d s)\<lparr>ps_timers := ts\<rparr>"
  by (simp add: shorten_countdown_to_def time_ticks_def Let_def)

lemma shorten_wheel:
  assumes w: "wheel s" and c: "1 \<le> ps_curr_countdown s" and d: "time_ticks s < d"
  shows "wheel (shorten_countdown_to d s)" "1 \<le> ps_curr_countdown (shorten_countdown_to d s)"
    "next_event (shorten_countdown_to d s) \<le> d"
    "rewound (ps_timers s) (ps_num_timers s) s (shorten_countdown_to d s)"
proof -
  note e = wheel_next_event [OF w]
  have cp: "ps_curr_countdown s \<le> ps_curr_countdown_period s" "ps_curr_countdown_period s < 2 ^ 32"
    using w by (simp_all add: wheel_def)
  have "wheel (shorten_countdown_to d s) \<and> 1 \<le> ps_curr_countdown (shorten_countdown_to d s) \<and>
    next_event (shorten_countdown_to d s) \<le> d \<and>
    rewound (ps_timers s) (ps_num_timers s) s (shorten_countdown_to d s)"
  proof (cases "d - time_ticks s \<ge> ps_curr_countdown s")
    case True
    then have "shorten_countdown_to d s = s" by (simp add: shorten_countdown_to_def Let_def)
    moreover have "next_event s \<le> d" using True e(2) d by simp
    ultimately show ?thesis using w c rewound_refl [of s] by simp
  next
    case False
    let ?u = "d - time_ticks s" let ?p = "ps_curr_countdown_period s - ps_curr_countdown s + ?u"
    let ?s' = "s\<lparr>ps_curr_countdown := ?u, ps_curr_countdown_period := ?p\<rparr>"
    have p: "?p < 2 ^ 32" "?p \<le> ps_curr_countdown_period s" using False cp by auto
    have s': "shorten_countdown_to d s = ?s'"
      using False d cp p(1) by (simp add: shorten_countdown_to_def Let_def)
    have ne: "next_event ?s' = d" "d \<le> next_event s" using e cp False d by (auto simp: next_event_def)
    have ok: "timer_ok d t" if "t \<in> set (ps_timers s)" for t
      using w that ne(2) by (auto simp: wheel_def timer_ok_def)
    have "reg_owners ?s' = reg_owners s" by (simp add: reg_owners_def)
    then have w': "wheel ?s'" using w ok d p(1) unfolding wheel_def ne(1) by auto
    have "ps_curr_countdown ?s' = ?u" by simp
    then have "time_ticks ?s' = time_ticks s" using wheel_next_event(2) [OF w'] ne(1) d by arith
    then have "rewound (ps_timers s) (ps_num_timers s) s ?s'"
      unfolding rewound_def by (intro conjI exI [of _ ?u] exI [of _ ?p]) simp_all
    with w' ne(1) d show ?thesis unfolding s' by simp
  qed
  then show "wheel (shorten_countdown_to d s)" "1 \<le> ps_curr_countdown (shorten_countdown_to d s)"
    "next_event (shorten_countdown_to d s) \<le> d"
    "rewound (ps_timers s) (ps_num_timers s) s (shorten_countdown_to d s)" by blast+
qed

lemma put_timer_wheel:
  assumes w: "wheel s" and i: "0 < i" "i < BX_MAX_TIMERS" "i \<le> ps_num_timers s"
    and t: "timer_ok (next_event s) t" "t_in_use t" "t_in_use (ps_timers s ! i) \<Longrightarrow> t_owner t = t_owner (ps_timers s ! i)"
  shows "wheel (s\<lparr>ps_timers := (ps_timers s)[i := t], ps_num_timers := max (ps_num_timers s) (i + 1)\<rparr>)"
    (is "wheel ?s")
proof -
  have len: "length (ps_timers s) = BX_MAX_TIMERS" using w by (simp add: wheel_def)
  have ok: "\<forall>u \<in> set (ps_timers ?s). timer_ok (next_event ?s) u"
    using w t(1) set_update_subset_insert [of "ps_timers s" i t] by (auto simp: wheel_def next_event_def)
  have "reg_owners s \<subseteq> reg_owners ?s"
  proof
    fix p assume "p \<in> reg_owners s"
    then obtain k where k: "k < BX_MAX_TIMERS" "t_in_use (ps_timers s ! k)" "p = t_owner (ps_timers s ! k)"
      using len by (auto simp: reg_owners_def in_set_conv_nth)
    then have "t_in_use (ps_timers ?s ! k) \<and> p = t_owner (ps_timers ?s ! k)"
      using t(2,3) len by (cases "k = i") auto
    moreover have "ps_timers ?s ! k \<in> set (ps_timers ?s)" using k(1) len by (intro nth_mem) simp
    ultimately show "p \<in> reg_owners ?s" unfolding reg_owners_def by blast
  qed
  moreover have "fired_ok (reg_owners s) (ps_fired s)" using w by (simp add: wheel_def)
  ultimately have "fired_ok (reg_owners ?s) (ps_fired ?s)" using fired_ok_mono by fastforce
  then show ?thesis using w i ok unfolding wheel_def by (simp add: next_event_def max_def)
qed

section \<open>Arming\<close>

lemma validate_timer_index_iff:
  "validate_timer_index i s = Inr u \<longleftrightarrow> 0 < i \<and> i < BX_MAX_TIMERS \<and> t_in_use (ps_timers s ! i)"
  by (auto simp: validate_timer_index_def)

lemma wheel_slot:
  assumes "wheel s" "i < BX_MAX_TIMERS" "t_in_use (ps_timers s ! i)"
  shows "i < ps_num_timers s" "timer_ok (next_event s) (ps_timers s ! i)"
  using assms by (auto simp: wheel_def not_less [symmetric])

lemma rewound_slot:
  "rewound ts n s s1 \<Longrightarrow> rewound ts' n' s (s1\<lparr>ps_timers := ts', ps_num_timers := n'\<rparr>)"
proof -
  assume "rewound ts n s s1"
  then obtain cc per where s1: "time_ticks s1 = time_ticks s" "s1 = s\<lparr>ps_timers := ts, ps_num_timers := n,
      ps_curr_countdown := cc, ps_curr_countdown_period := per\<rparr>" by (auto simp: rewound_def)
  then have "time_ticks (s1\<lparr>ps_timers := ts', ps_num_timers := n'\<rparr>) = time_ticks s" by (simp add: time_ticks_def)
  moreover have "s1\<lparr>ps_timers := ts', ps_num_timers := n'\<rparr> = s\<lparr>ps_timers := ts', ps_num_timers := n',
      ps_curr_countdown := cc, ps_curr_countdown_period := per\<rparr>" by (simp add: s1(2))
  ultimately show ?thesis unfolding rewound_def by blast
qed

lemma put_used_wheel:
  assumes w: "wheel s" and i: "0 < i" "i < BX_MAX_TIMERS" "t_in_use (ps_timers s ! i)"
    and t: "timer_ok (next_event s) t" "t_in_use t" "t_owner t = t_owner (ps_timers s ! i)"
  shows "wheel (s\<lparr>ps_timers := (ps_timers s)[i := t]\<rparr>)"
proof -
  have n: "i < ps_num_timers s" using wheel_slot(1) [OF w i(2,3)] .
  then have "max (ps_num_timers s) (i + 1) = ps_num_timers s" by simp
  with put_timer_wheel [OF w i(1,2) less_imp_le [OF n] t] show ?thesis by simp
qed

lemma arm_sel [simp]:
  "t_active (arm d c t)" "t_time_to_fire (arm d c t) = d" "t_continuous (arm d c t) = c"
  "t_in_use (arm d c t) = t_in_use t" "t_owner (arm d c t) = t_owner t" "t_period (arm d c t) = t_period t"
  "t_id (arm d c t) = t_id t"
  by (simp_all add: arm_def set_active_def set_continuous_def)

text \<open>
  The deadline is at least one tick ahead, so a timer that is already late fires at the next
  tick. The overflow branch of the source is not reachable on a wheel.
\<close>

lemma activate_at_ticks_runs:
  assumes w: "wheel s" and c: "1 \<le> ps_curr_countdown s" and i: "validate_timer_index i s = Inr ()"
    and d: "dl < 2 ^ 64"
  shows "\<exists>s'. activate_timer_at_ticks i dl cont s = (Inr (), s') \<and> wheel s' \<and> 1 \<le> ps_curr_countdown s' \<and>
    rewound ((ps_timers s)[i := arm (max dl (time_ticks s + 1)) cont (ps_timers s ! i)]) (ps_num_timers s) s s'"
proof -
  note e = wheel_next_event [OF w]
  define d where "d = max dl (time_ticks s + 1)"
  let ?s1 = "shorten_countdown_to d s" let ?ts = "(ps_timers s)[i := arm d cont (ps_timers s ! i)]"
  have now: "time_ticks s < d" and d': "d < 2 ^ 64" using d e c by (simp_all add: d_def)
  note sh = shorten_wheel [OF w c now]
  have i': "0 < i" "i < BX_MAX_TIMERS" "t_in_use (ps_timers s ! i)" using i by (simp_all add: validate_timer_index_iff)
  have eq: "ps_timers ?s1 = ps_timers s" "ps_num_timers ?s1 = ps_num_timers s" using sh(4) by (auto simp: rewound_def)
  have "timer_ok (next_event ?s1) (arm d cont (ps_timers s ! i))"
    using sh(3) wheel_slot(2) [OF w i'(2,3)] d' i'(3) by (simp add: timer_ok_def)
  then have w': "wheel (?s1\<lparr>ps_timers := ?ts\<rparr>)"
    using put_used_wheel [OF sh(1) i'(1,2), of "arm d cont (ps_timers s ! i)"] i'(3) by (simp add: eq)
  have "?s1\<lparr>ps_timers := ?ts\<rparr> = ?s1\<lparr>ps_timers := ?ts, ps_num_timers := ps_num_timers s\<rparr>"
    by (simp flip: eq(2))
  then have r: "rewound ?ts (ps_num_timers s) s (?s1\<lparr>ps_timers := ?ts\<rparr>)" using rewound_slot [OF sh(4), of ?ts "ps_num_timers s"] by metis
  have "(if dl \<le> time_ticks s then checked_add64 (time_ticks s) MIN_ALLOWABLE_TIMER_PERIOD else Some dl) = Some d"
    using e c d' by (auto simp: checked_add64_def d_def pc_consts)
  then have "activate_timer_at_ticks i dl cont s = (Inr (), ?s1\<lparr>ps_timers := ?ts\<rparr>)"
    using i by (simp add: activate_timer_at_ticks_def shorten_timers Let_def)
  then show ?thesis using w' r sh(2) unfolding d_def by simp
qed

lemma set_period_wheel:
  assumes w: "wheel s" and i: "validate_timer_index i s = Inr ()" and p: "1 \<le> p"
  shows "wheel (set_period i p s)" "validate_timer_index i (set_period i p s) = Inr ()"
    "time_ticks (set_period i p s) = time_ticks s"
proof -
  have i': "0 < i" "i < BX_MAX_TIMERS" "t_in_use (ps_timers s ! i)" using i by (simp_all add: validate_timer_index_iff)
  have len: "length (ps_timers s) = BX_MAX_TIMERS" using w by (simp add: wheel_def)
  have "timer_ok (next_event s) ((ps_timers s ! i)\<lparr>t_period := p\<rparr>)"
    using wheel_slot(2) [OF w i'(2,3)] p by (simp add: timer_ok_def)
  from put_used_wheel [OF w i' this] i'(3)
  show "wheel (set_period i p s)" by (simp add: set_period_def)
  show "validate_timer_index i (set_period i p s) = Inr ()" "time_ticks (set_period i p s) = time_ticks s"
    using i' len by (simp_all add: validate_timer_index_def set_period_def time_ticks_def)
qed

lemma activate_with_period_runs:
  assumes w: "wheel s" and c: "1 \<le> ps_curr_countdown s" and i: "validate_timer_index i s = Inr ()"
    and d: "dl < 2 ^ 64" and p: "1 \<le> p"
  shows "\<exists>s'. activate_timer_at_ticks i dl cont (set_period i p s) = (Inr (), s') \<and> wheel s' \<and>
    1 \<le> ps_curr_countdown s' \<and>
    rewound ((ps_timers s)[i := arm (max dl (time_ticks s + 1)) cont ((ps_timers s ! i)\<lparr>t_period := p\<rparr>)])
      (ps_num_timers s) s s'"
proof -
  note sp = set_period_wheel [OF w i p]
  have len: "i < length (ps_timers s)" using w i by (simp add: wheel_def validate_timer_index_iff)
  have c': "1 \<le> ps_curr_countdown (set_period i p s)" using c by (simp add: set_period_def)
  obtain s' where "activate_timer_at_ticks i dl cont (set_period i p s) = (Inr (), s')" "wheel s'"
    "1 \<le> ps_curr_countdown s'"
    and r: "rewound ((ps_timers s)[i := arm (max dl (time_ticks s + 1)) cont ((ps_timers s ! i)\<lparr>t_period := p\<rparr>)])
      (ps_num_timers s) (set_period i p s) s'"
    using activate_at_ticks_runs [OF sp(1) c' sp(2) d, of cont] len unfolding sp(3)
    by (auto simp: set_period_def)
  moreover have "rewound ts n s s'" if "rewound ts n (set_period i p s) s'" for ts n
    using that unfolding rewound_def sp(3) by (simp add: set_period_def)
  ultimately show ?thesis by blast
qed

text \<open>
  The relative forms. \<open>armed\<close> is the common outcome: an error leaves the machine as it was.
\<close>

definition armed :: "nat \<Rightarrow> nat \<Rightarrow> nat \<Rightarrow> bool \<Rightarrow> pc_system \<Rightarrow> unit outcome \<Rightarrow> bool" where
  "armed i dl p cont s r \<longleftrightarrow> fst r = Inr () \<and> wheel (snd r) \<and> 1 \<le> ps_curr_countdown (snd r) \<and>
     rewound ((ps_timers s)[i := arm dl cont ((ps_timers s ! i)\<lparr>t_period := p\<rparr>)]) (ps_num_timers s) s (snd r)"

lemma activate_timer_cases:
  assumes w: "wheel s" and c: "1 \<le> ps_curr_countdown s" and i: "validate_timer_index i s = Inr ()"
  shows "if time_ticks s + max p 1 < 2 ^ 64
    then armed i (time_ticks s + max p 1) (max p 1) cont s (activate_timer i p cont s)
    else activate_timer i p cont s = (Inl TimerDeadlineOverflow, s)"
proof (cases "time_ticks s + max p 1 < 2 ^ 64")
  case True
  moreover have "max (time_ticks s + max p 1) (time_ticks s + 1) = time_ticks s + max p 1" by simp
  ultimately show ?thesis
    using activate_with_period_runs [OF w c i True, of "max p 1" cont]
    by (auto simp: activate_timer_def i deadline_from_now_def checked_add64_def pc_consts armed_def)
next
  case False
  then show ?thesis
    by (simp add: activate_timer_def i deadline_from_now_def checked_add64_def pc_consts)
qed

end
