(* ===== verification/Pc_Snapshot.thy ===== *)
theory Pc_Snapshot
  imports Pc_System
begin

text \<open>
  The snapshot section of the PC system: timer owners on the wire, what a state must satisfy to
  be saved or accepted, and the section's length, writer and reader. A restore decodes and
  validates everything before it touches the machine, so it is a reader that answers the new
  state.
\<close>

section \<open>Timer owners on the wire\<close>

definition TIMER_OWNER_NULL :: u8 where "TIMER_OWNER_NULL = 0"
definition TIMER_OWNER_PCI_IDE_CH0 :: u8 where "TIMER_OWNER_PCI_IDE_CH0 = 1"
definition TIMER_OWNER_PCI_IDE_CH1 :: u8 where "TIMER_OWNER_PCI_IDE_CH1 = 2"
definition TIMER_OWNER_PIT :: u8 where "TIMER_OWNER_PIT = 3"
definition TIMER_OWNER_KEYBOARD :: u8 where "TIMER_OWNER_KEYBOARD = 4"
definition TIMER_OWNER_CMOS_PERIODIC :: u8 where "TIMER_OWNER_CMOS_PERIODIC = 5"
definition TIMER_OWNER_CMOS_ONE_SECOND :: u8 where "TIMER_OWNER_CMOS_ONE_SECOND = 6"
definition TIMER_OWNER_CMOS_UIP :: u8 where "TIMER_OWNER_CMOS_UIP = 7"
definition TIMER_OWNER_ACPI_PM_OVERFLOW :: u8 where "TIMER_OWNER_ACPI_PM_OVERFLOW = 8"
definition TIMER_OWNER_SERIAL_FIFO :: u8 where "TIMER_OWNER_SERIAL_FIFO = 9"
definition TIMER_OWNER_LAPIC :: u8 where "TIMER_OWNER_LAPIC = 10"
definition TIMER_OWNER_SLOWDOWN :: u8 where "TIMER_OWNER_SLOWDOWN = 11"
definition TIMER_OWNER_HD_SEEK :: u8 where "TIMER_OWNER_HD_SEEK = 12"
definition TIMER_OWNER_HPET :: u8 where "TIMER_OWNER_HPET = 13"
definition TIMER_OWNER_SERIAL_TX :: u8 where "TIMER_OWNER_SERIAL_TX = 14"
definition TIMER_OWNER_VGA_VERTICAL :: u8 where "TIMER_OWNER_VGA_VERTICAL = 15"
definition TIMER_OWNER_WIRE_LEN :: u64 where "TIMER_OWNER_WIRE_LEN = 5"
definition TIMER_WIRE_FIXED_LEN :: u64 where "TIMER_WIRE_FIXED_LEN = 17"
definition FIRED_OWNER_WIRE_LEN :: u64 where "FIRED_OWNER_WIRE_LEN = TIMER_OWNER_WIRE_LEN + 4"

lemmas owner_tags = TIMER_OWNER_NULL_def TIMER_OWNER_PCI_IDE_CH0_def TIMER_OWNER_PCI_IDE_CH1_def
  TIMER_OWNER_PIT_def TIMER_OWNER_KEYBOARD_def TIMER_OWNER_CMOS_PERIODIC_def
  TIMER_OWNER_CMOS_ONE_SECOND_def TIMER_OWNER_CMOS_UIP_def TIMER_OWNER_ACPI_PM_OVERFLOW_def
  TIMER_OWNER_SERIAL_FIFO_def TIMER_OWNER_LAPIC_def TIMER_OWNER_SLOWDOWN_def
  TIMER_OWNER_HD_SEEK_def TIMER_OWNER_HPET_def TIMER_OWNER_SERIAL_TX_def
  TIMER_OWNER_VGA_VERTICAL_def

definition snapshot_usize_to_u32 :: "nat \<Rightarrow> snap_error + u32" where
  "snapshot_usize_to_u32 value =
     (if value < 2 ^ 32 then Inr (of_nat value)
      else Inl (Invalid ''snapshot value does not fit in u32''))"

definition snapshot_usize_to_u64 :: "nat \<Rightarrow> snap_error + u64" where
  "snapshot_usize_to_u64 value =
     (if value < 2 ^ 64 then Inr (of_nat value)
      else Inl (Invalid ''snapshot value does not fit in u64''))"

text \<open>An owner that carries an index: refused out of range, otherwise its tag and the index.\<close>

definition indexed_owner :: "u8 \<Rightarrow> nat \<Rightarrow> nat \<Rightarrow> string \<Rightarrow> snap_error + u8 \<times> u32" where
  "indexed_owner tag bound n msg =
     (if n \<ge> bound then Inl (Invalid msg)
      else attempt (snapshot_usize_to_u32 n) (\<lambda>v. Inr (tag, v)))"

fun timer_owner_wire_parts :: "timer_owner \<Rightarrow> snap_error + u8 \<times> u32" where
  "timer_owner_wire_parts NullTimer = Inr (TIMER_OWNER_NULL, 0)"
| "timer_owner_wire_parts PciIdeCh0 = Inr (TIMER_OWNER_PCI_IDE_CH0, 0)"
| "timer_owner_wire_parts PciIdeCh1 = Inr (TIMER_OWNER_PCI_IDE_CH1, 0)"
| "timer_owner_wire_parts Pit = Inr (TIMER_OWNER_PIT, 0)"
| "timer_owner_wire_parts Keyboard = Inr (TIMER_OWNER_KEYBOARD, 0)"
| "timer_owner_wire_parts CmosPeriodic = Inr (TIMER_OWNER_CMOS_PERIODIC, 0)"
| "timer_owner_wire_parts CmosOneSecond = Inr (TIMER_OWNER_CMOS_ONE_SECOND, 0)"
| "timer_owner_wire_parts CmosUip = Inr (TIMER_OWNER_CMOS_UIP, 0)"
| "timer_owner_wire_parts AcpiPmOverflow = Inr (TIMER_OWNER_ACPI_PM_OVERFLOW, 0)"
| "timer_owner_wire_parts VgaVertical = Inr (TIMER_OWNER_VGA_VERTICAL, 0)"
| "timer_owner_wire_parts (SerialFifo port) =
     indexed_owner TIMER_OWNER_SERIAL_FIFO BX_FIXED_SERIAL_TIMER_OWNERS port ''serial timer owner is out of range''"
| "timer_owner_wire_parts (SerialTx port) =
     indexed_owner TIMER_OWNER_SERIAL_TX BX_FIXED_SERIAL_TIMER_OWNERS port ''serial timer owner is out of range''"
| "timer_owner_wire_parts (Lapic cpu) =
     indexed_owner TIMER_OWNER_LAPIC BX_MAX_SMP_THREADS_SUPPORTED cpu ''LAPIC timer owner is out of range''"
| "timer_owner_wire_parts Slowdown = Inr (TIMER_OWNER_SLOWDOWN, 0)"
| "timer_owner_wire_parts (HdSeek param) =
     indexed_owner TIMER_OWNER_HD_SEEK 4 param ''HD seek timer owner is out of range''"
| "timer_owner_wire_parts (Hpet index) =
     indexed_owner TIMER_OWNER_HPET HPET_NUM_TIMERS index ''HPET timer owner is out of range''"

definition write_timer_owner :: "timer_owner \<Rightarrow> writer" where
  "write_timer_owner owner w =
     attempt (timer_owner_wire_parts owner) (\<lambda>(tag, argument).
       write_seq [write_u8 tag, write_u32 argument] w)"

definition fixed_owner :: "u32 \<Rightarrow> timer_owner \<Rightarrow> snap_error + timer_owner" where
  "fixed_owner argument owner =
     (if argument = 0 then Inr owner else Inl (Invalid ''fixed timer owner has an argument''))"

definition ranged_owner :: "u32 \<Rightarrow> nat \<Rightarrow> (nat \<Rightarrow> timer_owner) \<Rightarrow> string \<Rightarrow> snap_error + timer_owner" where
  "ranged_owner argument bound owner msg =
     (if unat argument \<ge> bound then Inl (Invalid msg) else Inr (owner (unat argument)))"

definition timer_owner_of_wire :: "u8 \<Rightarrow> u32 \<Rightarrow> snap_error + timer_owner" where
  "timer_owner_of_wire tag argument =
     (if tag = TIMER_OWNER_NULL then fixed_owner argument NullTimer
      else if tag = TIMER_OWNER_PCI_IDE_CH0 then fixed_owner argument PciIdeCh0
      else if tag = TIMER_OWNER_PCI_IDE_CH1 then fixed_owner argument PciIdeCh1
      else if tag = TIMER_OWNER_PIT then fixed_owner argument Pit
      else if tag = TIMER_OWNER_KEYBOARD then fixed_owner argument Keyboard
      else if tag = TIMER_OWNER_CMOS_PERIODIC then fixed_owner argument CmosPeriodic
      else if tag = TIMER_OWNER_CMOS_ONE_SECOND then fixed_owner argument CmosOneSecond
      else if tag = TIMER_OWNER_CMOS_UIP then fixed_owner argument CmosUip
      else if tag = TIMER_OWNER_ACPI_PM_OVERFLOW then fixed_owner argument AcpiPmOverflow
      else if tag = TIMER_OWNER_VGA_VERTICAL then fixed_owner argument VgaVertical
      else if tag = TIMER_OWNER_SERIAL_FIFO then
        ranged_owner argument BX_FIXED_SERIAL_TIMER_OWNERS SerialFifo ''serial timer owner is out of range''
      else if tag = TIMER_OWNER_SERIAL_TX then
        ranged_owner argument BX_FIXED_SERIAL_TIMER_OWNERS SerialTx ''serial timer owner is out of range''
      else if tag = TIMER_OWNER_LAPIC then
        ranged_owner argument BX_MAX_SMP_THREADS_SUPPORTED Lapic ''LAPIC timer owner is out of range''
      else if tag = TIMER_OWNER_SLOWDOWN then fixed_owner argument Slowdown
      else if tag = TIMER_OWNER_HD_SEEK then
        ranged_owner argument 4 HdSeek ''HD seek timer owner is out of range''
      else if tag = TIMER_OWNER_HPET then
        ranged_owner argument HPET_NUM_TIMERS Hpet ''HPET timer owner is out of range''
      else Inl (Invalid ''unknown timer owner tag''))"

definition read_timer_owner :: "timer_owner reader" where
  "read_timer_owner =
     rd_bind read_u8 (\<lambda>tag. rd_bind read_u32 (\<lambda>argument. rd_lift (timer_owner_of_wire tag argument)))"

text \<open>
  The flag set is one byte with the three declared bits; a byte with any other bit is refused.
\<close>

definition flags_bits :: "timer_flags \<Rightarrow> u8" where
  "flags_bits f = (if tf_in_use f then 1 else 0) OR (if tf_active f then 2 else 0) OR
     (if tf_continuous f then 4 else 0)"

definition flags_from_bits :: "u8 \<Rightarrow> timer_flags option" where
  "flags_from_bits b =
     (if b AND 0xF8 \<noteq> 0 then None
      else Some \<lparr>tf_in_use = bit b 0, tf_active = bit b 1, tf_continuous = bit b 2\<rparr>)"

section \<open>What a saved state must satisfy\<close>

fun timer_id_terminated :: "bytes \<Rightarrow> bool \<Rightarrow> snap_error + bool" where
  "timer_id_terminated [] terminated = Inr terminated"
| "timer_id_terminated (b # bs) terminated =
     (if b = 0 then timer_id_terminated bs True
      else if terminated
      then Inl (Invalid ''timer identifier has nonzero bytes after its terminator'')
      else timer_id_terminated bs terminated)"

definition validate_timer_id :: "bytes \<Rightarrow> snap_error + unit" where
  "validate_timer_id i =
     attempt (timer_id_terminated i False) (\<lambda>terminated.
       if \<not> terminated then Inl (Invalid ''timer identifier is not terminated'') else Inr ())"

definition timer_owner_is_registered :: "timer list \<Rightarrow> timer_owner \<Rightarrow> bool" where
  "timer_owner_is_registered timers owner \<longleftrightarrow> list_ex (\<lambda>t. t_in_use t \<and> t_owner t = owner) timers"

definition carries_live_state :: "timer \<Rightarrow> bool" where
  "carries_live_state t \<longleftrightarrow> t_flags t \<noteq> flags_empty \<or> t_owner t \<noteq> NullTimer \<or>
     t_id t \<noteq> replicate BX_MAX_TIMER_ID_LEN 0"

definition null_timer_flags :: timer_flags where
  "null_timer_flags = \<lparr>tf_in_use = True, tf_active = True, tf_continuous = True\<rparr>"

definition validate_used_timer :: "nat \<Rightarrow> nat \<Rightarrow> timer list \<Rightarrow> nat \<Rightarrow> snap_error + unit" where
  "validate_used_timer now next_countdown_event timers index =
     (let t = timers ! index in
      attempt (validate_timer_id (t_id t)) (\<lambda>_. attempt (timer_owner_wire_parts (t_owner t)) (\<lambda>_.
      if index \<noteq> 0 \<and> t_owner t = NullTimer then Inl (Invalid ''non-null timer uses null owner'')
      else if index \<noteq> 0 \<and> list_ex (\<lambda>q. t_in_use q \<and> t_owner q = t_owner t) (take index timers)
      then Inl (Invalid ''timer owner is registered more than once'')
      else if t_period t < MIN_ALLOWABLE_TIMER_PERIOD then Inl (Invalid ''timer period is zero'')
      else if t_active t \<and> t_time_to_fire t \<le> now
      then Inl (Invalid ''active timer deadline is not in the future'')
      else if t_active t \<and> t_time_to_fire t < next_countdown_event
      then Inl (Invalid ''active timer precedes the next countdown event'')
      else Inr ())))"

definition validate_snapshot_timer :: "nat \<Rightarrow> nat \<Rightarrow> nat \<Rightarrow> timer list \<Rightarrow> nat \<Rightarrow> snap_error + unit" where
  "validate_snapshot_timer now next_countdown_event num_timers timers index =
     (let t = timers ! index in
      if index \<ge> num_timers then
        if carries_live_state t
        then Inl (Invalid ''timer outside registered range carries live state'') else Inr ()
      else if index = 0 \<and> (t_flags t \<noteq> null_timer_flags \<or> t_period t \<noteq> NULL_TIMER_INTERVAL \<or>
          t_owner t \<noteq> NullTimer \<or> t_id t \<noteq> replicate BX_MAX_TIMER_ID_LEN 0)
      then Inl (Invalid ''null timer state is inconsistent'')
      else if \<not> t_in_use t then
        if carries_live_state t then Inl (Invalid ''unused timer has live state'') else Inr ()
      else validate_used_timer now next_countdown_event timers index)"

definition validate_fired_owner :: "timer list \<Rightarrow> (timer_owner \<times> nat) list \<Rightarrow> nat \<Rightarrow> snap_error + unit" where
  "validate_fired_owner timers fired index =
     (case fired ! index of (owner, n) \<Rightarrow>
      attempt (timer_owner_wire_parts owner) (\<lambda>_.
      if owner = NullTimer then Inl (Invalid ''null timer cannot be pending for dispatch'')
      else if n = 0 then Inl (Invalid ''fired timer count is zero'')
      else if list_ex (\<lambda>q. fst q = owner) (take index fired)
      then Inl (Invalid ''fired timer owner is duplicated'')
      else if \<not> timer_owner_is_registered timers owner
      then Inl (Invalid ''fired timer owner does not map to a registered timer'')
      else Inr ()))"

text \<open>
  The fields of the section, as arguments in the source: here they are read off a state. The
  fired-owner arrays with their count are the list \<open>ps_fired\<close>.
\<close>

definition validate_snapshot_state_fields :: "pc_system \<Rightarrow> snap_error + unit" where
  "validate_snapshot_state_fields s =
     (if ps_ips s = 0 then Inl (Invalid ''configured IPS is zero'')
      else if ps_num_timers s = 0 \<or> ps_num_timers s > BX_MAX_TIMERS \<or> ps_num_timers s > MAX_COUNT
      then Inl (Invalid ''timer count is out of range'')
      else if length (ps_fired s) > BX_MAX_TIMERS \<or> length (ps_fired s) > MAX_SNAPSHOT_QUEUE_LEN
      then Inl (Invalid ''fired timer queue count is out of range'')
      else if ps_curr_countdown s = 0 \<or> ps_curr_countdown_period s = 0 \<or>
        ps_curr_countdown s > ps_curr_countdown_period s
      then Inl (Invalid ''countdown state is inconsistent'')
      else
        case checked_add64 (ps_ticks_total s) (ps_curr_countdown_period s - ps_curr_countdown s) of
          None \<Rightarrow> Inl (Invalid ''timer epoch overflows'')
        | Some now \<Rightarrow>
        (case checked_add64 (ps_ticks_total s) (ps_curr_countdown_period s) of
          None \<Rightarrow> Inl (Invalid ''next countdown event overflows'')
        | Some next_countdown_event \<Rightarrow>
          if ps_a20_mask s \<noteq> (if ps_enable_a20 s then A20_ON else A20_OFF)
          then Inl (Invalid ''A20 state and mask disagree'')
          else
            attempt (validate_each
                (validate_snapshot_timer now next_countdown_event (ps_num_timers s) (ps_timers s))
                [0..<length (ps_timers s)]) (\<lambda>_.
            if ps_triggered_timer s \<ge> length (ps_timers s)
            then Inl (Invalid ''triggered timer is out of range'')
            else if ps_triggered_timer s \<ge> ps_num_timers s \<or>
              \<not> t_in_use (ps_timers s ! ps_triggered_timer s)
            then Inl (Invalid ''triggered timer is not registered'')
            else validate_each (validate_fired_owner (ps_timers s) (ps_fired s))
              [0..<length (ps_fired s)])))"

definition validate_timer_handle_owner :: "nat \<Rightarrow> timer_owner \<Rightarrow> pc_system \<Rightarrow> snap_error + unit" where
  "validate_timer_handle_owner handle expected s =
     attempt (timer_owner_wire_parts expected) (\<lambda>_.
     if handle \<ge> ps_num_timers s then Inl (Invalid ''timer handle is outside the registered range'')
     else if handle \<ge> length (ps_timers s) then Inl (Invalid ''timer handle is out of range'')
     else if \<not> t_in_use (ps_timers s ! handle) then Inl (Invalid ''timer handle names an unused slot'')
     else if t_owner (ps_timers s ! handle) \<noteq> expected
     then Inl (Invalid ''timer handle owner does not match'')
     else Inr ())"

section \<open>The section\<close>

fun checked_sum :: "u64 \<Rightarrow> u64 list \<Rightarrow> snap_error + u64" where
  "checked_sum len [] = Inr len"
| "checked_sum len (n # ns) = attempt (checked_snapshot_len_add len n) (\<lambda>l. checked_sum l ns)"

definition pc_snapshot_len :: "pc_system \<Rightarrow> snap_error + u64" where
  "pc_snapshot_len s =
     attempt (validate_snapshot_state_fields s) (\<lambda>_.
     attempt (checked_sum 0 [4, 8, 4, 4, 8, 8, 8, 1, 8, 1, 1, 1, 1, 1, 1, 1, 4, 4, 4]) (\<lambda>len0.
     attempt (checked_snapshot_len_add TIMER_WIRE_FIXED_LEN TIMER_OWNER_WIRE_LEN) (\<lambda>timer0.
     attempt (snapshot_usize_to_u64 BX_MAX_TIMER_ID_LEN) (\<lambda>id_len.
     attempt (checked_snapshot_len_add timer0 id_len) (\<lambda>timer_wire_len.
     attempt (snapshot_usize_to_u64 BX_MAX_TIMERS) (\<lambda>capacity.
     attempt (checked_snapshot_len_mul timer_wire_len capacity) (\<lambda>timers_len.
     attempt (checked_snapshot_len_add len0 timers_len) (\<lambda>len1.
     attempt (checked_snapshot_len_add len1 4) (\<lambda>len2.
     attempt (snapshot_usize_to_u64 (length (ps_fired s))) (\<lambda>num_fired.
     attempt (checked_snapshot_len_mul FIRED_OWNER_WIRE_LEN num_fired) (\<lambda>fired_len.
     checked_snapshot_len_add len2 fired_len)))))))))))"

definition reset_request_code :: "reset_reason option \<Rightarrow> u8" where
  "reset_request_code r = (case r of None \<Rightarrow> 0 | Some Software \<Rightarrow> 1 | Some Hardware \<Rightarrow> 2)"

definition reset_request_of_code :: "u8 \<Rightarrow> snap_error + reset_reason option" where
  "reset_request_of_code b =
     (if b = 0 then Inr None else if b = 1 then Inr (Some Software) else if b = 2 then Inr (Some Hardware)
      else Inl (Invalid ''processor reset request is invalid''))"

definition write_usize_u32 :: "nat \<Rightarrow> writer" where
  "write_usize_u32 n w = attempt (snapshot_usize_to_u32 n) (\<lambda>v. write_u32 v w)"

definition save_timer :: "timer \<Rightarrow> writer" where
  "save_timer t = write_seq [write_u8 (flags_bits (t_flags t)), write_u64 (of_nat (t_period t)),
     write_u64 (of_nat (t_time_to_fire t)), write_timer_owner (t_owner t), write_bytes (t_id t)]"

definition restore_timer :: "timer reader" where
  "restore_timer =
     rd_bind read_u8 (\<lambda>b.
     rd_bind (rd_lift (case flags_from_bits b of
         None \<Rightarrow> Inl (Invalid ''timer flags contain unknown bits'') | Some f \<Rightarrow> Inr f)) (\<lambda>flags.
     rd_bind read_u64 (\<lambda>period. rd_bind read_u64 (\<lambda>time_to_fire. rd_bind read_timer_owner (\<lambda>owner.
     rd_bind (read_bytes BX_MAX_TIMER_ID_LEN) (\<lambda>i.
     rd_return \<lparr>t_flags = flags, t_period = unat period, t_time_to_fire = unat time_to_fire,
       t_owner = owner, t_id = i\<rparr>))))))"

definition save_fired :: "timer_owner \<times> nat \<Rightarrow> writer" where
  "save_fired f = write_seq [write_timer_owner (fst f), write_u32 (of_nat (snd f))]"

definition restore_fired :: "(timer_owner \<times> nat) reader" where
  "restore_fired =
     rd_bind read_timer_owner (\<lambda>owner. rd_bind read_u32 (\<lambda>n. rd_return (owner, unat n)))"

definition pc_save :: "pc_system \<Rightarrow> writer" where
  "pc_save s w =
     attempt (validate_snapshot_state_fields s) (\<lambda>_.
     write_seq
       [write_u32 SNAPSHOT_SECTION_VERSION, write_u64 (of_nat (ps_ips s)),
        write_u32 (of_nat (ps_curr_countdown s)), write_u32 (of_nat (ps_curr_countdown_period s)),
        write_u64 (of_nat (ps_ticks_total s)), write_u64 (ps_last_time_usec s),
        write_u64 (ps_usec_since_last s), write_bool (ps_enable_a20 s), write_u64 (ps_a20_mask s),
        write_bool (ps_hrq s), write_bool (ps_hrq_pending s), write_bool (ps_async_event_pending s),
        write_bool (ps_intr_raised s), write_bool (ps_intr_cleared s),
        write_bool (ps_kill_bochs_request s), write_u8 (reset_request_code (ps_reset_request s)),
        write_usize_u32 BX_MAX_TIMERS, write_usize_u32 (ps_num_timers s),
        write_usize_u32 (ps_triggered_timer s), write_each save_timer (ps_timers s),
        write_usize_u32 (length (ps_fired s)), write_each save_fired (ps_fired s)] w)"

definition pc_restore :: "pc_system \<Rightarrow> pc_system reader" where
  "pc_restore live =
     rd_bind read_u32 (\<lambda>section_version.
     if section_version \<noteq> SNAPSHOT_SECTION_VERSION
     then rd_fail (Invalid ''unsupported PC-system section version'') else
     rd_bind read_u64 (\<lambda>ips.
     if ips = 0 \<or> unat ips \<noteq> ps_ips live then rd_fail (Invalid ''configured IPS does not match'') else
     rd_bind read_u32 (\<lambda>curr_countdown. rd_bind read_u32 (\<lambda>curr_countdown_period.
     rd_bind read_u64 (\<lambda>ticks_total. rd_bind read_u64 (\<lambda>last_time_usec.
     rd_bind read_u64 (\<lambda>usec_since_last. rd_bind read_bool (\<lambda>enable_a20.
     rd_bind read_u64 (\<lambda>a20_mask. rd_bind read_bool (\<lambda>hrq. rd_bind read_bool (\<lambda>hrq_pending.
     rd_bind read_bool (\<lambda>async_event_pending. rd_bind read_bool (\<lambda>intr_raised.
     rd_bind read_bool (\<lambda>intr_cleared. rd_bind read_bool (\<lambda>kill_bochs_request.
     rd_bind read_u8 (\<lambda>code. rd_bind (rd_lift (reset_request_of_code code)) (\<lambda>reset_request.
     rd_bind (read_count BX_MAX_TIMERS) (\<lambda>saved_timer_capacity.
     if saved_timer_capacity \<noteq> BX_MAX_TIMERS
     then rd_fail (Invalid ''timer capacity does not match'') else
     rd_bind (read_count BX_MAX_TIMERS) (\<lambda>num_timers.
     rd_bind (read_count (BX_MAX_TIMERS - 1)) (\<lambda>triggered_timer.
     rd_bind (read_each restore_timer BX_MAX_TIMERS) (\<lambda>timers.
     rd_bind (read_count (min BX_MAX_TIMERS MAX_SNAPSHOT_QUEUE_LEN)) (\<lambda>num_fired.
     rd_bind (read_each restore_fired num_fired) (\<lambda>fired.
     let s = live
       \<lparr>ps_timers := timers, ps_num_timers := num_timers, ps_triggered_timer := triggered_timer,
        ps_curr_countdown := unat curr_countdown,
        ps_curr_countdown_period := unat curr_countdown_period, ps_ticks_total := unat ticks_total,
        ps_last_time_usec := last_time_usec, ps_usec_since_last := usec_since_last,
        ps_enable_a20 := enable_a20, ps_a20_mask := a20_mask, ps_hrq := hrq,
        ps_hrq_pending := hrq_pending, ps_async_event_pending := async_event_pending,
        ps_intr_raised := intr_raised, ps_intr_cleared := intr_cleared,
        ps_kill_bochs_request := kill_bochs_request, ps_reset_request := reset_request,
        ps_fired := fired\<rparr>
     in rd_bind (rd_lift (validate_snapshot_state_fields s)) (\<lambda>_. rd_return s))))))))))))))))))))))))"

section \<open>The wire formats keep the codec contract\<close>

lemma indexed_owner_iff:
  "bound \<le> 2 ^ 32 \<Longrightarrow> indexed_owner tag bound n msg = Inr (t, a) \<longleftrightarrow> t = tag \<and> n < bound \<and> unat a = n"
  by (auto simp: indexed_owner_def snapshot_usize_to_u32_def unat_of_nat_small intro!: word_unat_eqI)

lemma ranged_owner_iff:
  "ranged_owner a bound f msg = Inr p \<longleftrightarrow> unat a < bound \<and> p = f (unat a)"
  by (auto simp: ranged_owner_def)

lemma fixed_owner_iff: "fixed_owner a q = Inr p \<longleftrightarrow> a = 0 \<and> p = q"
  by (auto simp: fixed_owner_def)

lemma owner_of_parts:
  "timer_owner_wire_parts p = Inr (tag, a) \<Longrightarrow> timer_owner_of_wire tag a = Inr p"
  by (cases p)
    (auto simp: timer_owner_of_wire_def indexed_owner_iff ranged_owner_iff fixed_owner_iff owner_tags pc_consts)

lemma parts_of_owner:
  "timer_owner_of_wire tag a = Inr p \<Longrightarrow> timer_owner_wire_parts p = Inr (tag, a)"
  unfolding timer_owner_of_wire_def
  by (auto simp: indexed_owner_iff ranged_owner_iff fixed_owner_iff pc_consts split: if_split_asm)

definition owner_ok :: "timer_owner \<Rightarrow> bool" where
  "owner_ok p \<longleftrightarrow> (\<exists>parts. timer_owner_wire_parts p = Inr parts)"

definition owner_enc :: "timer_owner \<Rightarrow> bytes" where
  "owner_enc p = (case timer_owner_wire_parts p of Inl _ \<Rightarrow> [] | Inr (tag, a) \<Rightarrow> tag # to_le_bytes 4 a)"

interpretation ownerc: snap_codec write_timer_owner read_timer_owner owner_enc owner_ok
proof unfold_locales
  fix p w r bs
  show "write_timer_owner p w = Inr (w @ owner_enc p)" if "owner_ok p"
    using that by (auto simp: owner_ok_def write_timer_owner_def owner_enc_def)
  show "read_timer_owner (owner_enc p @ r) = Inr (p, r)" if "owner_ok p"
    using that owner_of_parts by (auto simp: owner_ok_def read_timer_owner_def owner_enc_def)
  show "owner_ok p \<and> bs = owner_enc p @ r" if "read_timer_owner bs = Inr (p, r)"
    using that by (auto simp: read_timer_owner_def rd_bind_iff rd_lift_iff scalar_iff owner_ok_def
        owner_enc_def dest!: parts_of_owner)
qed

lemma flags_from_bits_iff: "flags_from_bits b = Some f \<longleftrightarrow> b = flags_bits f"
proof
  assume "flags_from_bits b = Some f"
  then have f: "f = \<lparr>tf_in_use = bit b 0, tf_active = bit b 1, tf_continuous = bit b 2\<rparr>"
    and "b AND 0xF8 = 0" by (auto simp: flags_from_bits_def split: if_splits)
  then have z: "\<not> bit (b AND 0xF8) n" for n by simp
  show "b = flags_bits f"
  proof (rule bit_word_eqI)
    fix n assume "n < LENGTH(8)"
    then consider "n = 0" | "n = 1" | "n = 2" | "n = 3" | "n = 4" | "n = 5" | "n = 6" | "n = 7" by fastforce
    then show "bit b n \<longleftrightarrow> bit (flags_bits f) n"
      using z [of n] by cases (simp_all add: f flags_bits_def bit_simps)
  qed
next
  assume "b = flags_bits f"
  then show "flags_from_bits b = Some f"
    by (cases f) (simp add: flags_from_bits_def flags_bits_def)
qed

definition timer_storable :: "timer \<Rightarrow> bool" where
  "timer_storable t \<longleftrightarrow> t_period t < 2 ^ 64 \<and> t_time_to_fire t < 2 ^ 64 \<and> owner_ok (t_owner t) \<and>
     length (t_id t) = BX_MAX_TIMER_ID_LEN"

definition timer_enc :: "timer \<Rightarrow> bytes" where
  "timer_enc t = flags_bits (t_flags t) # to_le_bytes 8 (of_nat (t_period t) :: u64) @
     to_le_bytes 8 (of_nat (t_time_to_fire t) :: u64) @ owner_enc (t_owner t) @ t_id t"

interpretation timerc: snap_codec save_timer restore_timer timer_enc timer_storable
proof unfold_locales
  fix t w r bs
  show "save_timer t w = Inr (w @ timer_enc t)" if "timer_storable t"
    using that by (simp add: save_timer_def timer_enc_def timer_storable_def ownerc.wr_enc)
  show "restore_timer (timer_enc t @ r) = Inr (t, r)" if "timer_storable t"
  proof -
    have "flags_from_bits (flags_bits (t_flags t)) = Some (t_flags t)" by (simp add: flags_from_bits_iff)
    with that show ?thesis
      by (simp add: restore_timer_def timer_enc_def timer_storable_def ownerc.rd_enc unat_of_nat_small)
  qed
  show "timer_storable t \<and> bs = timer_enc t @ r" if "restore_timer bs = Inr (t, r)"
    using that unat_bound [where 'a = 64]
    by (auto simp: restore_timer_def rd_bind_iff rd_lift_iff scalar_iff read_bytes_iff timer_storable_def
        timer_enc_def ownerc.rd_iff flags_from_bits_iff split: option.splits)
qed

definition fired_storable :: "timer_owner \<times> nat \<Rightarrow> bool" where
  "fired_storable f \<longleftrightarrow> owner_ok (fst f) \<and> snd f < 2 ^ 32"

definition fired_enc :: "timer_owner \<times> nat \<Rightarrow> bytes" where
  "fired_enc f = owner_enc (fst f) @ to_le_bytes 4 (of_nat (snd f) :: u32)"

interpretation firedc: snap_codec save_fired restore_fired fired_enc fired_storable
proof unfold_locales
  fix f w r bs
  show "save_fired f w = Inr (w @ fired_enc f)" if "fired_storable f"
    using that by (simp add: save_fired_def fired_enc_def fired_storable_def ownerc.wr_enc)
  show "restore_fired (fired_enc f @ r) = Inr (f, r)" if "fired_storable f"
    using that by (cases f) (simp add: restore_fired_def fired_enc_def fired_storable_def ownerc.rd_enc
        unat_of_nat_small)
  show "fired_storable f \<and> bs = fired_enc f @ r" if "restore_fired bs = Inr (f, r)"
    using that unat_bound [where 'a = 32]
    by (auto simp: restore_fired_def rd_bind_iff scalar_iff fired_storable_def fired_enc_def ownerc.rd_iff)
qed

text \<open>There are five more owners the format can name than there are slots for their timers.\<close>

lemma owner_ok_set:
  "{p. owner_ok p} = {NullTimer, PciIdeCh0, PciIdeCh1, Pit, Keyboard, CmosPeriodic, CmosOneSecond, CmosUip,
     AcpiPmOverflow, VgaVertical, Slowdown} \<union> SerialFifo ` {..<4} \<union> SerialTx ` {..<4} \<union>
     Lapic ` {..<254} \<union> HdSeek ` {..<4} \<union> Hpet ` {..<3}" (is "_ = ?R")
proof -
  have ix: "(\<exists>a b. indexed_owner tag bound n msg = Inr (a, b)) \<longleftrightarrow> n < bound" if "bound \<le> 2 ^ 32" for tag bound n msg
    using that by (auto simp: indexed_owner_def snapshot_usize_to_u32_def)
  have "owner_ok p \<longleftrightarrow> p \<in> ?R" for p
    unfolding owner_ok_def by (cases p) (simp_all add: ix pc_consts image_iff)
  then show ?thesis by blast
qed

lemma owners_exceed_slots: "card {p. owner_ok p} = BX_MAX_TIMERS + 5"
proof -
  let ?F = "{NullTimer, PciIdeCh0, PciIdeCh1, Pit, Keyboard, CmosPeriodic, CmosOneSecond, CmosUip,
    AcpiPmOverflow, VgaVertical, Slowdown}"
  have c: "card ?F = 11" "card (SerialFifo ` {..<4}) = 4" "card (SerialTx ` {..<4}) = 4"
    "card (Lapic ` {..<254}) = 254" "card (HdSeek ` {..<4}) = 4" "card (Hpet ` {..<3}) = 3"
    by simp (subst card_image; simp add: inj_on_def)+
  have "card (?F \<union> SerialFifo ` {..<4}) = 15" using c by (subst card_Un_disjoint) auto
  then have "card (?F \<union> SerialFifo ` {..<4} \<union> SerialTx ` {..<4}) = 19" using c by (subst card_Un_disjoint) auto
  then have "card (?F \<union> SerialFifo ` {..<4} \<union> SerialTx ` {..<4} \<union> Lapic ` {..<254}) = 273"
    using c by (subst card_Un_disjoint) auto
  then have "card (?F \<union> SerialFifo ` {..<4} \<union> SerialTx ` {..<4} \<union> Lapic ` {..<254} \<union> HdSeek ` {..<4}) = 277"
    using c by (subst card_Un_disjoint) auto
  then show ?thesis unfolding owner_ok_set using c by (subst card_Un_disjoint) (auto simp: pc_consts)
qed

lemma length_owner_enc: "owner_ok p \<Longrightarrow> length (owner_enc p) = 5"
  by (auto simp: owner_ok_def owner_enc_def)

section \<open>Saving and restoring\<close>

definition pc_typed :: "pc_system \<Rightarrow> bool" where
  "pc_typed s \<longleftrightarrow> ps_ips s < 2 ^ 64 \<and> ps_curr_countdown s < 2 ^ 32 \<and> ps_curr_countdown_period s < 2 ^ 32 \<and>
     ps_ticks_total s < 2 ^ 64 \<and> length (ps_timers s) = BX_MAX_TIMERS \<and>
     (\<forall>t \<in> set (ps_timers s). timer_storable t) \<and> (\<forall>f \<in> set (ps_fired s). fired_storable f)"

definition pc_enc :: "pc_system \<Rightarrow> bytes" where
  "pc_enc s =
     to_le_bytes 4 SNAPSHOT_SECTION_VERSION @ to_le_bytes 8 (of_nat (ps_ips s) :: u64) @
     to_le_bytes 4 (of_nat (ps_curr_countdown s) :: u32) @
     to_le_bytes 4 (of_nat (ps_curr_countdown_period s) :: u32) @
     to_le_bytes 8 (of_nat (ps_ticks_total s) :: u64) @ to_le_bytes 8 (ps_last_time_usec s) @
     to_le_bytes 8 (ps_usec_since_last s) @ enc_bool (ps_enable_a20 s) @ to_le_bytes 8 (ps_a20_mask s) @
     enc_bool (ps_hrq s) @ enc_bool (ps_hrq_pending s) @ enc_bool (ps_async_event_pending s) @
     enc_bool (ps_intr_raised s) @ enc_bool (ps_intr_cleared s) @ enc_bool (ps_kill_bochs_request s) @
     [reset_request_code (ps_reset_request s)] @
     to_le_bytes 4 (of_nat BX_MAX_TIMERS :: u32) @ to_le_bytes 4 (of_nat (ps_num_timers s) :: u32) @
     to_le_bytes 4 (of_nat (ps_triggered_timer s) :: u32) @ concat (map timer_enc (ps_timers s)) @
     to_le_bytes 4 (of_nat (length (ps_fired s)) :: u32) @ concat (map fired_enc (ps_fired s))"

lemma validated_counts:
  assumes "validate_snapshot_state_fields s = Inr ()"
  shows "ps_ips s \<noteq> 0" "ps_num_timers s \<le> BX_MAX_TIMERS" "length (ps_fired s) \<le> BX_MAX_TIMERS"
    "ps_triggered_timer s < ps_num_timers s"
  using assms
  by (auto simp: validate_snapshot_state_fields_def attempt_Inr_iff split: if_splits option.splits)

lemma write_usize_u32_eq: "n \<le> BX_MAX_TIMERS \<Longrightarrow> write_usize_u32 n w = Inr (w @ to_le_bytes 4 (of_nat n :: u32))"
  by (simp add: write_usize_u32_def snapshot_usize_to_u32_def pc_consts)

lemma pc_save_enc:
  assumes v: "validate_snapshot_state_fields s = Inr ()" and t: "pc_typed s"
  shows "pc_save s w = Inr (w @ pc_enc s)"
  using validated_counts [OF v] t
  by (simp add: pc_save_def v pc_enc_def write_usize_u32_eq timerc.write_each_enc firedc.write_each_enc
      pc_typed_def)

lemma reset_request_code_inverse [simp]: "reset_request_of_code (reset_request_code r) = Inr r"
  by (auto simp: reset_request_of_code_def reset_request_code_def split: option.splits reset_reason.splits)

lemma pc_restore_enc:
  assumes v: "validate_snapshot_state_fields s = Inr ()" and t: "pc_typed s" and i: "ps_ips live = ps_ips s"
  shows "pc_restore live (pc_enc s @ r) = Inr (s\<lparr>ps_device_clock := ps_device_clock live\<rparr>, r)"
proof -
  note c = validated_counts [OF v]
  have ty: "ps_ips s < 2 ^ 64" "ps_curr_countdown s < 2 ^ 32" "ps_curr_countdown_period s < 2 ^ 32"
    "ps_ticks_total s < 2 ^ 64" "length (ps_timers s) = BX_MAX_TIMERS"
    "\<forall>t \<in> set (ps_timers s). timer_storable t" "\<forall>f \<in> set (ps_fired s). fired_storable f"
    using t by (simp_all add: pc_typed_def)
  have bound: "n \<le> BX_MAX_TIMERS \<Longrightarrow> n \<le> MAX_COUNT \<and> n \<le> min BX_MAX_TIMERS MAX_SNAPSHOT_QUEUE_LEN" for n
    by (simp add: pc_consts MAX_COUNT_def MAX_SNAPSHOT_QUEUE_LEN_def)
  have ips: "(of_nat (ps_ips s) :: u64) \<noteq> 0" using c(1) ty(1) unat_of_nat_small [of "ps_ips s", where 'a = 64] by force
  have "validate_snapshot_state_fields (s\<lparr>ps_device_clock := ps_device_clock live\<rparr>) =
      validate_snapshot_state_fields s"
    unfolding validate_snapshot_state_fields_def by (simp cong: option.case_cong if_cong)
  note v' = this [unfolded v]
  have eq: "live\<lparr>ps_timers := ps_timers s, ps_num_timers := ps_num_timers s,
      ps_triggered_timer := ps_triggered_timer s, ps_curr_countdown := ps_curr_countdown s,
      ps_curr_countdown_period := ps_curr_countdown_period s, ps_ticks_total := ps_ticks_total s,
      ps_last_time_usec := ps_last_time_usec s, ps_usec_since_last := ps_usec_since_last s,
      ps_enable_a20 := ps_enable_a20 s, ps_a20_mask := ps_a20_mask s, ps_hrq := ps_hrq s,
      ps_hrq_pending := ps_hrq_pending s, ps_async_event_pending := ps_async_event_pending s,
      ps_intr_raised := ps_intr_raised s, ps_intr_cleared := ps_intr_cleared s,
      ps_kill_bochs_request := ps_kill_bochs_request s, ps_reset_request := ps_reset_request s,
      ps_fired := ps_fired s\<rparr> = s\<lparr>ps_device_clock := ps_device_clock live\<rparr>"
    using i by (cases s, cases live) simp
  show ?thesis
    using c(2-4) bound ty ips
    by (simp add: pc_restore_def pc_enc_def unat_of_nat_small i timerc.read_each_enc firedc.read_each_enc
        eq v' Let_def)
qed

lemma length_pc_enc:
  assumes "pc_typed s"
  shows "length (pc_enc s) = 14926 + 9 * length (ps_fired s)"
proof -
  have "\<forall>t \<in> set ts. timer_storable t \<Longrightarrow> length (concat (map timer_enc ts)) = 54 * length ts" for ts
    by (induction ts) (simp_all add: timer_enc_def timer_storable_def length_owner_enc pc_consts)
  moreover have "\<forall>f \<in> set fs. fired_storable f \<Longrightarrow> length (concat (map fired_enc fs)) = 9 * length fs" for fs
    by (induction fs) (simp_all add: fired_enc_def fired_storable_def length_owner_enc)
  ultimately show ?thesis using assms by (simp add: pc_enc_def pc_typed_def enc_bool_def pc_consts)
qed

lemma pc_snapshot_len_val:
  assumes v: "validate_snapshot_state_fields s = Inr ()"
  shows "pc_snapshot_len s = Inr (of_nat (14926 + 9 * length (ps_fired s)))"
proof -
  let ?n = "length (ps_fired s)"
  have n: "?n \<le> 275" using validated_counts(3) [OF v] by (simp add: pc_consts)
  have fits: "checked_snapshot_len_mul 9 (of_nat ?n) = Inr (of_nat (9 * ?n))"
    "checked_snapshot_len_add 14926 (of_nat (9 * ?n)) = Inr (of_nat (14926 + 9 * ?n))"
    using n by (simp_all add: checked_snapshot_len_mul_def checked_len_mul_def checked_snapshot_len_add_def
        checked_len_add_def MAX_SECTION_LEN_def unat_of_nat_small word_le_nat_alt unat_word_ariths)
  have "checked_sum 0 [4, 8, 4, 4, 8, 8, 8, 1, 8, 1, 1, 1, 1, 1, 1, 1, 4, 4, 4] = Inr 72"
    "checked_snapshot_len_add 17 5 = Inr 22" "checked_snapshot_len_add 22 32 = Inr 54"
    "checked_snapshot_len_mul 54 275 = Inr 14850" "checked_snapshot_len_add 72 14850 = Inr 14922"
    "checked_snapshot_len_add 14922 4 = Inr 14926"
    by (simp_all add: checked_snapshot_len_mul_def checked_len_mul_def checked_snapshot_len_add_def
        checked_len_add_def MAX_SECTION_LEN_def)
  with fits n show ?thesis
    by (simp add: pc_snapshot_len_def v snapshot_usize_to_u64_def TIMER_WIRE_FIXED_LEN_def
        TIMER_OWNER_WIRE_LEN_def FIRED_OWNER_WIRE_LEN_def pc_consts)
qed

end
