(* ===== verification/Pc_Reachable.thy ===== *)
theory Pc_Reachable
  imports Pc_Arming Pc_Snapshot
begin

text \<open>
  The machines a sequence of PC-system operations can reach, and what holds of all of them: the
  timer wheel is sound, every slot is in a form the snapshot accepts, the A20 mask agrees with
  the gate. The rules carry what the emulator's own callers keep to: an owner is registered
  once, timer names are text without a zero byte, a slot is released only when no fire of its
  owner waits to be dispatched, and time is not driven past the 64-bit tick counter.
\<close>

section \<open>The invariant\<close>

definition slot_ok :: "nat \<Rightarrow> timer \<Rightarrow> bool" where
  "slot_ok i t \<longleftrightarrow> t_period t < 2 ^ 64 \<and> t_time_to_fire t < 2 ^ 64 \<and>
     length (t_id t) = BX_MAX_TIMER_ID_LEN \<and>
     (i = 0 \<longrightarrow> t_id t = replicate BX_MAX_TIMER_ID_LEN 0) \<and>
     (if t_in_use t
      then validate_timer_id (t_id t) = Inr () \<and> owner_ok (t_owner t) \<and> (t_owner t = NullTimer \<longleftrightarrow> i = 0)
      else \<not> carries_live_state t)"

definition used_slots :: "pc_system \<Rightarrow> nat set" where
  "used_slots s = {i. i < BX_MAX_TIMERS \<and> t_in_use (ps_timers s ! i)}"

definition owners_distinct :: "pc_system \<Rightarrow> bool" where
  "owners_distinct s \<longleftrightarrow> inj_on (\<lambda>i. t_owner (ps_timers s ! i)) (used_slots s)"

definition live :: "pc_system \<Rightarrow> bool" where
  "live s \<longleftrightarrow> wheel s \<and> 1 \<le> ps_curr_countdown s \<and> 1 \<le> ps_ips s \<and> ps_ips s < 2 ^ 64 \<and>
     ps_triggered_timer s = 0 \<and> ps_a20_mask s = (if ps_enable_a20 s then A20_ON else A20_OFF) \<and>
     (\<forall>i < BX_MAX_TIMERS. slot_ok i (ps_timers s ! i)) \<and> owners_distinct s"

lemma live_wheel: "live s \<Longrightarrow> wheel s" "live s \<Longrightarrow> 1 \<le> ps_curr_countdown s"
  by (simp_all add: live_def)

lemma live_slot: "live s \<Longrightarrow> i < BX_MAX_TIMERS \<Longrightarrow> slot_ok i (ps_timers s ! i)"
  by (simp add: live_def)

lemma live_len: "live s \<Longrightarrow> length (ps_timers s) = BX_MAX_TIMERS"
  by (simp add: live_def wheel_def)

text \<open>A step that rewrites one slot, keeping who owns it, and moves the countdown.\<close>

lemma live_rewound:
  assumes l: "live s" and w: "wheel s'" "1 \<le> ps_curr_countdown s'"
    and r: "rewound ((ps_timers s)[i := t]) n s s'" and i: "i < BX_MAX_TIMERS" and t: "slot_ok i t"
    and own: "t_in_use t \<Longrightarrow> t_owner t \<in> t_owner ` {u. u = ps_timers s ! i \<and> t_in_use u} \<or> t_owner t \<notin> reg_owners s"
  shows "live s'"
proof -
  have ts: "ps_timers s' = (ps_timers s)[i := t]" and frame: "ps_ips s' = ps_ips s"
    "ps_triggered_timer s' = ps_triggered_timer s" "ps_a20_mask s' = ps_a20_mask s"
    "ps_enable_a20 s' = ps_enable_a20 s"
    using r by (auto simp: rewound_def)
  have len: "length (ps_timers s) = BX_MAX_TIMERS" using live_len [OF l] .
  have "slot_ok k (ps_timers s' ! k)" if "k < BX_MAX_TIMERS" for k
    using that live_slot [OF l] t len i by (cases "k = i") (simp_all add: ts)
  moreover have "owners_distinct s'"
    unfolding owners_distinct_def
  proof (rule inj_onI)
    fix a b assume a: "a \<in> used_slots s'" and b: "b \<in> used_slots s'"
      and eq: "t_owner (ps_timers s' ! a) = t_owner (ps_timers s' ! b)"
    have old: "inj_on (\<lambda>i. t_owner (ps_timers s ! i)) (used_slots s)" using l by (simp add: live_def owners_distinct_def)
    have other: "k \<in> used_slots s \<and> ps_timers s' ! k = ps_timers s ! k" if "k \<in> used_slots s'" "k \<noteq> i" for k
      using that len by (auto simp: used_slots_def ts)
    have clash: False if k: "k \<in> used_slots s'" "k \<noteq> i" "i \<in> used_slots s'" "t_owner (ps_timers s ! k) = t_owner t" for k
    proof -
      have "t_in_use t" using k(3) len by (auto simp: used_slots_def ts)
      moreover have "k < BX_MAX_TIMERS" "t_in_use (ps_timers s ! k)" using other [OF k(1,2)] by (simp_all add: used_slots_def)
      then have "t_owner t \<in> reg_owners s" using k(4) len unfolding reg_owners_def by (metis (mono_tags, lifting) image_eqI mem_Collect_eq nth_mem)
      ultimately have "t_in_use (ps_timers s ! i)" "t_owner (ps_timers s ! i) = t_owner t" using own by auto
      then have "k = i" using other [OF k(1,2)] k(4) i by (intro inj_onD [OF old]) (simp_all add: used_slots_def)
      with k(2) show False by simp
    qed
    show "a = b"
    proof (cases "a = i \<or> b = i")
      case True
      then show ?thesis using clash [of a] clash [of b] other [of a] other [of b] a b eq i len ts by (metis nth_list_update_eq)
    next
      case False
      then show ?thesis using other [OF a] other [OF b] eq by (intro inj_onD [OF old]) simp_all
    qed
  qed
  ultimately show ?thesis using l w frame by (simp add: live_def)
qed

section \<open>Every operation keeps it\<close>

lemma slot_ok_arm:
  "slot_ok i t \<Longrightarrow> t_in_use t \<Longrightarrow> d < 2 ^ 64 \<Longrightarrow> p < 2 ^ 64 \<Longrightarrow> slot_ok i (arm d c (t\<lparr>t_period := p\<rparr>))"
  by (simp add: slot_ok_def)

lemma live_armed:
  assumes l: "live s" and i: "validate_timer_index i s = Inr ()" and a: "armed i d p c s r"
    and b: "d < 2 ^ 64" "p < 2 ^ 64"
  shows "live (snd r)"
proof -
  have i': "i < BX_MAX_TIMERS" "t_in_use (ps_timers s ! i)" using i by (simp_all add: validate_timer_index_iff)
  show ?thesis
    using a i' slot_ok_arm [OF live_slot [OF l i'(1)] i'(2) b]
    by (intro live_rewound [OF l, of "snd r" i "arm d c ((ps_timers s ! i)\<lparr>t_period := p\<rparr>)" "ps_num_timers s"])
      (simp_all add: armed_def)
qed

lemma armed_at_ticks:
  assumes "live s" "validate_timer_index i s = Inr ()" "d < 2 ^ 64"
  shows "armed i (max d (time_ticks s + 1)) (t_period (ps_timers s ! i)) c s (activate_timer_at_ticks i d c s)"
  using activate_at_ticks_runs [OF live_wheel [OF assms(1)] assms(2,3), of c] by (auto simp: armed_def)

lemma armed_with_period:
  assumes "live s" "validate_timer_index i s = Inr ()" "d < 2 ^ 64" "1 \<le> p"
  shows "armed i (max d (time_ticks s + 1)) p c s (activate_timer_at_ticks i d c (set_period i p s))"
  using activate_with_period_runs [OF live_wheel [OF assms(1)] assms(2,3,4), of c] by (auto simp: armed_def)

lemma live_next: "live s \<Longrightarrow> time_ticks s + 1 < 2 ^ 64"
  using wheel_next_event [of s] by (simp add: live_def)

lemma live_slot_period: "live s \<Longrightarrow> validate_timer_index i s = Inr () \<Longrightarrow> t_period (ps_timers s ! i) < 2 ^ 64"
  using live_slot [of s i] by (simp add: validate_timer_index_iff slot_ok_def)

lemma live_activate_at_ticks:
  assumes l: "live s" and d: "d < 2 ^ 64"
  shows "live (snd (activate_timer_at_ticks i d c s))"
proof (cases "validate_timer_index i s")
  case (Inr u)
  then have i: "validate_timer_index i s = Inr ()" by simp
  from live_armed [OF l i armed_at_ticks [OF l i d]] show ?thesis
    using live_next [OF l] live_slot_period [OF l i] d by simp
qed (simp add: activate_timer_at_ticks_def l)

lemma live_activate_with_period:
  assumes "live s" "d < 2 ^ 64" "p < 2 ^ 64" "1 \<le> p" "validate_timer_index i s = Inr ()"
  shows "live (snd (activate_timer_at_ticks i d c (set_period i p s)))"
  using live_armed [OF assms(1,5) armed_with_period [OF assms(1,5,2,4)]] live_next [OF assms(1)] assms(2,3) by simp

lemma live_activate: "live s \<Longrightarrow> live (snd (activate_timer i p c s))"
proof (cases "validate_timer_index i s")
  case (Inr u)
  assume l: "live s"
  show ?thesis
    using activate_timer_cases [OF live_wheel [OF l], of i p c] live_armed [OF l] Inr l
    by (auto split: if_splits)
qed (simp add: activate_timer_def)

lemma live_activate_usec: "live s \<Longrightarrow> live (snd (activate_timer_usec i n c s))"
  by (auto simp: activate_timer_usec_def live_activate split: sum.splits)

lemma live_activate_nsec: "live s \<Longrightarrow> live (snd (activate_timer_nsec i n c s))"
  by (auto simp: activate_timer_nsec_def live_activate split: sum.splits)

lemma live_at_ticks_with_period:
  "live s \<Longrightarrow> d < 2 ^ 64 \<Longrightarrow> p < 2 ^ 64 \<Longrightarrow> live (snd (activate_timer_at_ticks_with_period i d p c s))"
  by (auto simp: activate_timer_at_ticks_with_period_def live_activate_with_period pc_consts split: sum.splits)

lemma live_reactivate: "live s \<Longrightarrow> live (snd (reactivate_timer_relative i p s))"
  by (auto simp: reactivate_timer_relative_def checked_add64_def live_activate_with_period pc_consts Let_def
      split: sum.splits)

lemma validate_timer_id_timer_id:
  assumes "0 \<notin> set name"
  shows "validate_timer_id (timer_id name) = Inr ()" "length (timer_id name) = BX_MAX_TIMER_ID_LEN"
proof -
  have zeros: "timer_id_terminated (replicate n 0) b = Inr (b \<or> 0 < n)" for n b
    by (induction n arbitrary: b) auto
  have "0 \<notin> set xs \<Longrightarrow> timer_id_terminated (xs @ ys) False = timer_id_terminated ys False" for xs ys
    by (induction xs) auto
  moreover have "0 \<notin> set (take 31 name)" using assms in_set_takeD by fastforce
  ultimately show "validate_timer_id (timer_id name) = Inr ()"
    by (simp add: validate_timer_id_def timer_id_def Let_def zeros pc_consts)
  show "length (timer_id name) = BX_MAX_TIMER_ID_LEN" by (simp add: timer_id_def Let_def pc_consts)
qed

lemma find_free_slot:
  assumes w: "wheel s" and f: "find (\<lambda>i. \<not> t_in_use (ps_timers s ! i)) [1..<BX_MAX_TIMERS] = Some i"
  shows "0 < i" "i < BX_MAX_TIMERS" "\<not> t_in_use (ps_timers s ! i)" "i \<le> ps_num_timers s"
proof -
  from f obtain k where k: "k < BX_MAX_TIMERS - 1" "i = Suc k" "\<not> t_in_use (ps_timers s ! i)"
    "\<forall>j < k. t_in_use (ps_timers s ! Suc j)" by (auto simp: find_Some_iff)
  then show i: "0 < i" "i < BX_MAX_TIMERS" "\<not> t_in_use (ps_timers s ! i)" by auto
  show "i \<le> ps_num_timers s"
  proof (rule ccontr)
    assume c: "\<not> i \<le> ps_num_timers s"
    have n: "1 \<le> ps_num_timers s" "\<not> t_in_use (ps_timers s ! ps_num_timers s)" using w c i(2) by (auto simp: wheel_def)
    have "ps_num_timers s - 1 < k" using c n(1) k(2) by simp
    then have "t_in_use (ps_timers s ! Suc (ps_num_timers s - 1))" using k(4) by blast
    with n show False by simp
  qed
qed

definition registered :: "timer_owner \<Rightarrow> nat \<Rightarrow> nat \<Rightarrow> bool \<Rightarrow> bytes \<Rightarrow> timer" where
  "registered owner p d c name =
     \<lparr>t_flags = \<lparr>tf_in_use = True, tf_active = False, tf_continuous = c\<rparr>, t_period = p,
      t_time_to_fire = d, t_owner = owner, t_id = timer_id name\<rparr>"

lemma live_put_registered:
  assumes l: "live s" and f: "find (\<lambda>i. \<not> t_in_use (ps_timers s ! i)) [1..<BX_MAX_TIMERS] = Some i"
    and b: "1 \<le> p" "p < 2 ^ 64" "d < 2 ^ 64"
    and own: "owner_ok owner" "owner \<noteq> NullTimer" "owner \<notin> reg_owners s" and n: "0 \<notin> set name"
  shows "live (s\<lparr>ps_timers := (ps_timers s)[i := registered owner p d c name],
      ps_num_timers := (if i \<ge> ps_num_timers s then i + 1 else ps_num_timers s)\<rparr>)" (is "live ?s")
proof -
  let ?t = "registered owner p d c name"
  note i = find_free_slot [OF live_wheel(1) [OF l] f]
  have "timer_ok (next_event s) ?t" using b by (simp add: timer_ok_def registered_def)
  moreover have "t_in_use ?t" by (simp add: registered_def)
  moreover have "(if i \<ge> ps_num_timers s then i + 1 else ps_num_timers s) = max (ps_num_timers s) (i + 1)" by auto
  ultimately have "wheel ?s" using put_timer_wheel [OF live_wheel(1) [OF l] i(1,2,4), of ?t] i(3) by simp
  moreover have "rewound ((ps_timers s)[i := ?t]) (ps_num_timers ?s) s ?s"
    unfolding rewound_def
    by (intro conjI exI [of _ "ps_curr_countdown s"] exI [of _ "ps_curr_countdown_period s"])
      (simp_all add: time_ticks_def)
  moreover have "slot_ok i ?t"
    using validate_timer_id_timer_id [OF n] b own i(1) by (simp add: slot_ok_def registered_def)
  ultimately show ?thesis
    using live_wheel(2) [OF l] i(2) own(3) by (intro live_rewound [OF l]) (auto simp: registered_def)
qed

lemma live_register:
  assumes l: "live s" and own: "owner_ok owner" "owner \<noteq> NullTimer" "owner \<notin> reg_owners s" "0 \<notin> set name"
  shows "live (snd (register_timer owner p0 c active name s))"
proof (cases "find (\<lambda>i. \<not> t_in_use (ps_timers s ! i)) [1..<BX_MAX_TIMERS]")
  case None
  with l show ?thesis by (simp add: register_timer_def Let_def)
next
  case (Some i)
  let ?p = "max p0 MIN_ALLOWABLE_TIMER_PERIOD"
  show ?thesis
  proof (cases "time_ticks s + ?p < 2 ^ 64")
    case True
    let ?d = "time_ticks s + ?p"
    have put: "live (s\<lparr>ps_timers := (ps_timers s)[i := registered owner ?p ?d c name],
      ps_num_timers := (if i \<ge> ps_num_timers s then i + 1 else ps_num_timers s)\<rparr>)"
      using live_put_registered [OF l Some _ _ True own, of ?p c] True by (simp add: pc_consts)
    show ?thesis
      using put live_activate_at_ticks [OF put True, of i c] True Some
      by (auto simp: register_timer_def Let_def deadline_from_now_def checked_add64_def registered_def
          split: prod.splits sum.splits)
  next
    case False
    with l Some show ?thesis by (simp add: register_timer_def Let_def deadline_from_now_def checked_add64_def)
  qed
qed

lemma live_register_usec:
  "live s \<Longrightarrow> owner_ok owner \<Longrightarrow> owner \<noteq> NullTimer \<Longrightarrow> owner \<notin> reg_owners s \<Longrightarrow> 0 \<notin> set name \<Longrightarrow>
    live (snd (register_timer_usec owner n c active name s))"
  by (auto simp: register_timer_usec_def live_register split: sum.splits)

lemma rewound_timers: "rewound ts n s (s\<lparr>ps_timers := ts, ps_num_timers := n\<rparr>)"
  unfolding rewound_def
  by (intro conjI exI [of _ "ps_curr_countdown s"] exI [of _ "ps_curr_countdown_period s"])
    (simp_all add: time_ticks_def)

lemma live_deactivate:
  assumes l: "live s"
  shows "live (snd (deactivate_timer i s))"
proof (cases "validate_timer_index i s")
  case (Inr u)
  then have i: "0 < i" "i < BX_MAX_TIMERS" "t_in_use (ps_timers s ! i)" by (auto simp: validate_timer_index_iff)
  let ?t = "set_active False (ps_timers s ! i)" let ?s = "s\<lparr>ps_timers := (ps_timers s)[i := ?t]\<rparr>"
  have "wheel ?s"
    using wheel_slot(2) [OF live_wheel(1) [OF l] i(2,3)] i(3)
    by (intro put_used_wheel [OF live_wheel(1) [OF l] i]) (simp_all add: timer_ok_def set_active_def)
  moreover have "slot_ok i ?t" using live_slot [OF l i(2)] i(3) by (simp add: slot_ok_def set_active_def)
  moreover have "rewound ((ps_timers s)[i := ?t]) (ps_num_timers s) s ?s" using rewound_timers [of _ "ps_num_timers s" s] by simp
  ultimately have "live ?s"
    using live_wheel(2) [OF l] i by (intro live_rewound [OF l]) (auto simp: set_active_def)
  with Inr show ?thesis by (simp add: deactivate_timer_def)
qed (simp add: deactivate_timer_def l)

definition freed :: timer where
  "freed = \<lparr>t_flags = flags_empty, t_period = 2 ^ 64 - 1, t_time_to_fire = 2 ^ 64 - 1, t_owner = NullTimer,
     t_id = replicate BX_MAX_TIMER_ID_LEN 0\<rparr>"

lemma free_slot_wheel:
  assumes w: "wheel s" and i: "0 < i" "i < BX_MAX_TIMERS" "t_in_use (ps_timers s ! i)"
    and p: "\<not> has_fired_owner (t_owner (ps_timers s ! i)) s"
    and n: "n = (if i = ps_num_timers s - 1 then ps_num_timers s - 1 else ps_num_timers s)"
  shows "wheel (s\<lparr>ps_timers := (ps_timers s)[i := freed], ps_num_timers := n\<rparr>)" (is "wheel ?s")
proof -
  have len: "length (ps_timers s) = BX_MAX_TIMERS" using w by (simp add: wheel_def)
  have [simp]: "\<not> t_in_use freed" "\<not> t_active freed" by (simp_all add: freed_def flags_empty_def)
  have ok: "\<forall>u \<in> set (ps_timers ?s). timer_ok (next_event ?s) u"
    using w set_update_subset_insert [of "ps_timers s" i freed] by (auto simp: wheel_def next_event_def timer_ok_def)
  have free: "\<not> t_in_use (ps_timers ?s ! k)" if "k < BX_MAX_TIMERS" "n \<le> k" for k
    using w that len n by (cases "k = i") (auto simp: wheel_def split: if_splits)
  have sub: "reg_owners s - {t_owner (ps_timers s ! i)} \<subseteq> reg_owners ?s"
  proof
    fix q assume "q \<in> reg_owners s - {t_owner (ps_timers s ! i)}"
    then obtain k where k: "k < BX_MAX_TIMERS" "t_in_use (ps_timers s ! k)" "q = t_owner (ps_timers s ! k)" "k \<noteq> i"
      using len by (auto simp: reg_owners_def in_set_conv_nth)
    have "ps_timers ?s ! k \<in> set (ps_timers ?s)" using k(1) len by (intro nth_mem) simp
    moreover have "ps_timers ?s ! k = ps_timers s ! k" using k(4) by simp
    ultimately have "ps_timers s ! k \<in> set (ps_timers ?s)" by simp
    with k show "q \<in> reg_owners ?s" unfolding reg_owners_def by blast
  qed
  have "fired_ok (reg_owners s) (ps_fired s)" using w by (simp add: wheel_def)
  then have "fired_ok (reg_owners s - {t_owner (ps_timers s ! i)}) (ps_fired s)"
    using p unfolding fired_ok_def has_fired_owner_def by blast
  then have "fired_ok (reg_owners ?s) (ps_fired ?s)" using fired_ok_mono [OF _ sub] by simp
  moreover have "1 \<le> n" "n \<le> BX_MAX_TIMERS"
    using w i n wheel_slot(1) [OF w i(2,3)] by (auto simp: wheel_def split: if_splits)
  ultimately show ?thesis using w i ok free unfolding wheel_def by (simp add: next_event_def)
qed

lemma live_unregister:
  assumes l: "live s" and p: "\<not> has_fired_owner (t_owner (ps_timers s ! i)) s"
  shows "live (snd (unregister_timer i s))"
proof (cases "validate_timer_index i s")
  case (Inr u)
  then have i: "0 < i" "i < BX_MAX_TIMERS" "t_in_use (ps_timers s ! i)" by (auto simp: validate_timer_index_iff)
  let ?n = "if i = ps_num_timers s - 1 then ps_num_timers s - 1 else ps_num_timers s"
  have "slot_ok i freed" using i(1) by (simp add: slot_ok_def freed_def flags_empty_def carries_live_state_def)
  then have "live (s\<lparr>ps_timers := (ps_timers s)[i := freed], ps_num_timers := ?n\<rparr>)"
    using free_slot_wheel [OF live_wheel(1) [OF l] i p refl] live_wheel(2) [OF l] i(2)
    by (intro live_rewound [OF l _ _ rewound_timers]) (simp_all add: freed_def flags_empty_def)
  with Inr l show ?thesis by (simp add: unregister_timer_def freed_def)
qed (simp add: unregister_timer_def l)

lemma slot_ok_settle:
  assumes "slot_ok i t" "t_active t \<Longrightarrow> t_in_use t" "t_active (settle T t) \<Longrightarrow> t_time_to_fire (settle T t) < 2 ^ 64"
  shows "slot_ok i (settle T t)"
proof (cases "due T t = 0")
  case True
  then show ?thesis using assms(1) by (simp add: settle_def)
next
  case False
  then have "t_active t" by (auto simp: due_def split: if_splits)
  with assms False show ?thesis
    by (auto simp: slot_ok_def settle_def set_active_def split: if_splits)
qed

lemma live_advanced:
  assumes l: "live s" and w: "wheel s'" "1 \<le> ps_curr_countdown s'" and a: "advanced T s s'"
  shows "live s'"
proof -
  have ts: "ps_timers s' = map (settle T) (ps_timers s)" and still: "still s' = still s" using a by (simp_all add: advanced_def)
  have len: "length (ps_timers s) = BX_MAX_TIMERS" using live_len [OF l] .
  have "slot_ok i (ps_timers s' ! i)" if i: "i < BX_MAX_TIMERS" for i
  proof -
    have "timer_ok (next_event s) (ps_timers s ! i)" "timer_ok (next_event s') (ps_timers s' ! i)"
      using live_wheel(1) [OF l] w(1) i len ts by (auto simp: wheel_def)
    then show ?thesis using live_slot [OF l i] len i ts by (auto simp: timer_ok_def intro!: slot_ok_settle)
  qed
  moreover have "used_slots s' = used_slots s" using len by (auto simp: used_slots_def ts)
  then have "owners_distinct s'"
    using l len by (auto simp: live_def owners_distinct_def ts used_slots_def inj_on_def)
  ultimately show ?thesis using l w a still_sel [OF still] by (auto simp: live_def advanced_def)
qed

lemma live_tickn:
  assumes "live s" "horizon (time_ticks s + n) s"
  shows "\<exists>s'. tickn n s = Some s' \<and> live s' \<and> advanced (time_ticks s + n) s s'"
  using tickn_spec [OF live_wheel [OF assms(1)] assms(2)] live_advanced [OF assms(1)] by blast

lemma tick1_tickn:
  assumes l: "live s" and h: "horizon (time_ticks s + 1) s"
  shows "tick1 s = tickn 1 s"
proof (cases "ps_curr_countdown s = 1")
  case True
  let ?s0 = "s\<lparr>ps_curr_countdown := 0\<rparr>"
  have ne: "next_event s = time_ticks s + 1" using wheel_next_event(2) [OF live_wheel(1) [OF l]] True by simp
  have w: "wheel ?s0" "horizon (next_event ?s0) ?s0"
    using live_wheel(1) [OF l] h ne by (simp_all add: wheel_def next_event_def horizon_def reg_owners_def)
  obtain np where np: "countdown_event ?s0 = Some (after_event (next_event ?s0) np ?s0)" "1 \<le> np"
    using countdown_event_runs [OF w] by blast
  let ?s1 = "after_event (next_event ?s0) np ?s0"
  have "tickn 0 ?s1 = Some ?s1" using np(2) by (subst tickn.simps) simp
  then have "tickn 1 s = Some ?s1" using True np(1) by (subst tickn.simps) simp
  moreover have "tick1 s = Some ?s1" using True np(1) by (simp add: tick1_def Let_def)
  ultimately show ?thesis by simp
next
  case False
  have "ps_curr_countdown s < 2 ^ 32" using live_wheel(1) [OF l] by (simp add: wheel_def)
  with False live_wheel(2) [OF l] show ?thesis
    by (subst tickn.simps) (simp add: tick1_def)
qed

lemma live_frame:
  assumes "live s" "ps_timers s' = ps_timers s" "ps_num_timers s' = ps_num_timers s"
    "ps_curr_countdown s' = ps_curr_countdown s" "ps_curr_countdown_period s' = ps_curr_countdown_period s"
    "ps_ticks_total s' = ps_ticks_total s" "ps_ips s' = ps_ips s" "ps_triggered_timer s' = ps_triggered_timer s"
    "ps_a20_mask s' = (if ps_enable_a20 s' then A20_ON else A20_OFF)" "ps_fired s' = ps_fired s \<or> ps_fired s' = []"
  shows "live s'"
proof -
  have "next_event s' = next_event s" "reg_owners s' = reg_owners s" "used_slots s' = used_slots s"
    using assms by (simp_all add: next_event_def reg_owners_def used_slots_def)
  moreover have "fired_ok R []" for R by (simp add: fired_ok_def)
  ultimately show ?thesis using assms by (auto simp: live_def wheel_def owners_distinct_def)
qed

lemma live_control:
  assumes "live s"
  shows "live (set_enable_a20 v s)" "live (set_hrq v s)" "live (pc_raise_intr s)" "live (pc_clear_intr s)"
    "live (pc_reset k s)" "live (request_reset k s)" "live (snd (take_reset_request s))"
    "live (snd (take_fired_timers s))" "live (set_device_clock clock s)"
  using assms
  by (rule live_frame; use assms in \<open>simp add: set_enable_a20_def set_hrq_def pc_raise_intr_def pc_clear_intr_def
      pc_reset_def request_reset_def take_reset_request_def take_fired_timers_def set_device_clock_def
      live_def Let_def\<close>)+

section \<open>Snapshots of a live machine\<close>

lemma live_validates_timer:
  assumes l: "live s" and i: "i < BX_MAX_TIMERS"
  shows "validate_snapshot_timer (time_ticks s) (next_event s) (ps_num_timers s) (ps_timers s) i = Inr ()"
proof -
  let ?t = "ps_timers s ! i"
  note w = live_wheel(1) [OF l]
  have len: "length (ps_timers s) = BX_MAX_TIMERS" using live_len [OF l] .
  note slot = live_slot [OF l i]
  have tok: "timer_ok (next_event s) ?t" and free: "\<forall>i < BX_MAX_TIMERS. ps_num_timers s \<le> i \<longrightarrow> \<not> t_in_use (ps_timers s ! i)"
    and null: "is_null_timer (ps_timers s ! 0)" using w i len by (simp_all add: wheel_def)
  show ?thesis
  proof (cases "t_in_use ?t")
    case False
    then have "\<not> carries_live_state ?t" "i \<noteq> 0" using slot null by (cases i; simp add: slot_ok_def is_null_timer_def)+
    with False show ?thesis by (simp add: validate_snapshot_timer_def Let_def)
  next
    case True
    then have num: "i < ps_num_timers s" using free i not_less by blast
    have null': "t_flags ?t = null_timer_flags \<and> t_period ?t = NULL_TIMER_INTERVAL \<and> t_owner ?t = NullTimer \<and>
        t_id ?t = replicate BX_MAX_TIMER_ID_LEN 0" if "i = 0"
      using that null slot by (simp add: is_null_timer_def slot_ok_def null_timer_flags_def)
    have "\<not> list_ex (\<lambda>q. t_in_use q \<and> t_owner q = t_owner ?t) (take i (ps_timers s))"
    proof
      assume "list_ex (\<lambda>q. t_in_use q \<and> t_owner q = t_owner ?t) (take i (ps_timers s))"
      then obtain k where k: "k < i" "t_in_use (ps_timers s ! k)" "t_owner (ps_timers s ! k) = t_owner ?t"
        using i len by (auto simp: list_ex_length)
      have "k = i" using l k i True
        by (intro inj_onD [of "\<lambda>i. t_owner (ps_timers s ! i)" "used_slots s"])
          (simp_all add: live_def owners_distinct_def used_slots_def)
      with k(1) show False by simp
    qed
    moreover have "time_ticks s < next_event s" using wheel_next_event(2) [OF w] live_wheel(2) [OF l] by simp
    ultimately have "validate_used_timer (time_ticks s) (next_event s) (ps_timers s) i = Inr ()"
      using slot True tok
      by (auto simp: validate_used_timer_def Let_def slot_ok_def owner_ok_def timer_ok_def pc_consts)
    then show ?thesis using num null' True by (auto simp: validate_snapshot_timer_def Let_def)
  qed
qed

lemma live_fired:
  assumes l: "live s" and f: "(p, n) \<in> set (ps_fired s)"
  shows "p \<noteq> NullTimer" "1 \<le> n" "n \<le> fire_cap" "timer_owner_is_registered (ps_timers s) p" "owner_ok p"
proof -
  have fo: "fired_ok (reg_owners s) (ps_fired s)" using live_wheel(1) [OF l] by (simp add: wheel_def)
  have "p \<in> set (map fst (ps_fired s))" using f by force
  then have p: "p \<in> reg_owners s - {NullTimer}" using fo unfolding fired_ok_def by blast
  then show "p \<noteq> NullTimer" by simp
  show "1 \<le> n" "n \<le> fire_cap" using fo f by (auto simp: fired_ok_def)
  from p obtain i where i: "i < BX_MAX_TIMERS" "t_in_use (ps_timers s ! i)" "t_owner (ps_timers s ! i) = p"
    using live_len [OF l] by (auto simp: reg_owners_def in_set_conv_nth)
  then show "timer_owner_is_registered (ps_timers s) p"
    using live_len [OF l] by (auto simp: timer_owner_is_registered_def list_ex_length)
  show "owner_ok p" using live_slot [OF l i(1)] i by (auto simp: slot_ok_def)
qed

lemma live_validates_fired:
  assumes l: "live s" and j: "j < length (ps_fired s)"
  shows "validate_fired_owner (ps_timers s) (ps_fired s) j = Inr ()"
proof -
  obtain p n where f: "ps_fired s ! j = (p, n)" by (cases "ps_fired s ! j")
  then have m: "(p, n) \<in> set (ps_fired s)" using j nth_mem by metis
  have d: "distinct (map fst (ps_fired s))" using live_wheel(1) [OF l] by (simp add: wheel_def fired_ok_def)
  have "\<not> list_ex (\<lambda>q. fst q = p) (take j (ps_fired s))"
  proof
    assume "list_ex (\<lambda>q. fst q = p) (take j (ps_fired s))"
    then obtain k where k: "k < j" "fst (ps_fired s ! k) = p" by (auto simp: list_ex_length)
    then have "map fst (ps_fired s) ! k = map fst (ps_fired s) ! j" using j f by simp
    then have "k = j" using nth_eq_iff_index_eq [OF d, of k j] k(1) j by simp
    with k(1) show False by simp
  qed
  then show ?thesis
    using live_fired [OF l m] f by (auto simp: validate_fired_owner_def owner_ok_def)
qed

lemma live_fired_room:
  assumes l: "live s"
  shows "length (ps_fired s) < BX_MAX_TIMERS"
proof -
  note w = live_wheel(1) [OF l]
  have fo: "fired_ok (reg_owners s) (ps_fired s)" using w by (simp add: wheel_def)
  then have "length (ps_fired s) = card (set (map fst (ps_fired s)))"
    using distinct_card [of "map fst (ps_fired s)"] by (simp add: fired_ok_def)
  also have "\<dots> \<le> card (reg_owners s - {NullTimer})"
    using fo reg_owners_card(1) [OF w] by (intro card_mono) (simp_all add: fired_ok_def)
  finally show ?thesis using reg_owners_card(2) [OF w] by simp
qed

lemma live_validates:
  assumes l: "live s"
  shows "validate_snapshot_state_fields s = Inr ()"
proof -
  note w = live_wheel(1) [OF l]
  have b: "length (ps_timers s) = BX_MAX_TIMERS" "1 \<le> ps_num_timers s" "ps_num_timers s \<le> BX_MAX_TIMERS"
    "ps_curr_countdown s \<le> ps_curr_countdown_period s" "ps_curr_countdown_period s < 2 ^ 32"
    "fired_ok (reg_owners s) (ps_fired s)" "is_null_timer (ps_timers s ! 0)"
    using w by (simp_all add: wheel_def)
  have e: "checked_add64 (ps_ticks_total s) (ps_curr_countdown_period s) = Some (next_event s)"
    "checked_add64 (ps_ticks_total s) (ps_curr_countdown_period s - ps_curr_countdown s) = Some (time_ticks s)"
    using wheel_next_event [OF w] b(4,5) by (auto simp: checked_add64_def next_event_def time_ticks_def)
  note fl = live_fired_room [OF l]
  have small: "BX_MAX_TIMERS \<le> MAX_COUNT" "BX_MAX_TIMERS \<le> MAX_SNAPSHOT_QUEUE_LEN"
    by (simp_all add: pc_consts MAX_COUNT_def MAX_SNAPSHOT_QUEUE_LEN_def)
  have "validate_each (validate_snapshot_timer (time_ticks s) (next_event s) (ps_num_timers s) (ps_timers s))
      [0..<length (ps_timers s)] = Inr ()"
    "validate_each (validate_fired_owner (ps_timers s) (ps_fired s)) [0..<length (ps_fired s)] = Inr ()"
    using live_validates_timer [OF l] live_validates_fired [OF l] b(1) by (simp_all add: validate_each_iff)
  then show ?thesis
    using l b(1-4,7) fl small
    by (simp add: validate_snapshot_state_fields_def e live_def is_null_timer_def)
qed

lemma live_typed:
  assumes l: "live s"
  shows "pc_typed s"
proof -
  have "timer_storable t" if "t \<in> set (ps_timers s)" for t
  proof -
    obtain i where i: "i < BX_MAX_TIMERS" "t = ps_timers s ! i"
      using \<open>t \<in> set (ps_timers s)\<close> live_len [OF l] by (auto simp: in_set_conv_nth)
    then show ?thesis using live_slot [OF l i(1)]
      by (auto simp: slot_ok_def timer_storable_def carries_live_state_def owner_ok_def split: if_splits)
  qed
  moreover have "fired_storable f" if "f \<in> set (ps_fired s)" for f
    using live_fired [OF l, of "fst f" "snd f"] that by (simp add: fired_storable_def fire_cap_def)
  moreover have "ps_ticks_total s < 2 ^ 64" using wheel_next_event(1) [OF live_wheel(1) [OF l]] by (simp add: next_event_def)
  ultimately show ?thesis using l by (auto simp: pc_typed_def live_def wheel_def)
qed

end
