(* ===== verification/Pc_Laws.thy ===== *)
theory Pc_Laws
  imports Pc_Reachable
begin

text \<open>
  The properties of the PC system: time advances exactly, timers fire exactly when due, failed
  calls change nothing, the countdown never passes a deadline and the buffer of fired owners
  never fills, and the snapshot section round-trips and only ever restores a machine that runs.
\<close>

section \<open>Reachable machines\<close>

inductive pc_reachable :: "pc_system \<Rightarrow> bool" where
  pc_start: "pc_reachable pc_new"
| pc_init: "ips < 2 ^ 64 \<Longrightarrow> pc_reachable (pc_initialize ips pc_new)"
| pc_reg: "pc_reachable s \<Longrightarrow> owner_ok owner \<Longrightarrow> owner \<noteq> NullTimer \<Longrightarrow> owner \<notin> reg_owners s \<Longrightarrow>
    0 \<notin> set name \<Longrightarrow> pc_reachable (snd (register_timer owner period continuous active name s))"
| pc_reg_usec: "pc_reachable s \<Longrightarrow> owner_ok owner \<Longrightarrow> owner \<noteq> NullTimer \<Longrightarrow> owner \<notin> reg_owners s \<Longrightarrow>
    0 \<notin> set name \<Longrightarrow> pc_reachable (snd (register_timer_usec owner useconds continuous active name s))"
| pc_act: "pc_reachable s \<Longrightarrow> pc_reachable (snd (activate_timer i period continuous s))"
| pc_act_usec: "pc_reachable s \<Longrightarrow> pc_reachable (snd (activate_timer_usec i useconds continuous s))"
| pc_act_nsec: "pc_reachable s \<Longrightarrow> pc_reachable (snd (activate_timer_nsec i nseconds continuous s))"
| pc_act_at: "pc_reachable s \<Longrightarrow> deadline < 2 ^ 64 \<Longrightarrow>
    pc_reachable (snd (activate_timer_at_ticks i deadline continuous s))"
| pc_act_at_period: "pc_reachable s \<Longrightarrow> deadline < 2 ^ 64 \<Longrightarrow> period < 2 ^ 64 \<Longrightarrow>
    pc_reachable (snd (activate_timer_at_ticks_with_period i deadline period continuous s))"
| pc_react: "pc_reachable s \<Longrightarrow> pc_reachable (snd (reactivate_timer_relative i period s))"
| pc_deact: "pc_reachable s \<Longrightarrow> pc_reachable (snd (deactivate_timer i s))"
| pc_unreg: "pc_reachable s \<Longrightarrow> \<not> has_fired_owner (t_owner (ps_timers s ! i)) s \<Longrightarrow>
    pc_reachable (snd (unregister_timer i s))"
| pc_tickn: "pc_reachable s \<Longrightarrow> horizon (time_ticks s + n) s \<Longrightarrow> tickn n s = Some s' \<Longrightarrow> pc_reachable s'"
| pc_tick1: "pc_reachable s \<Longrightarrow> horizon (time_ticks s + 1) s \<Longrightarrow> tick1 s = Some s' \<Longrightarrow> pc_reachable s'"
| pc_delay: "pc_reachable s \<Longrightarrow> horizon (time_ticks s + 2 ^ 32) s \<Longrightarrow> isa_bus_delay s = Some s' \<Longrightarrow>
    pc_reachable s'"
| pc_take: "pc_reachable s \<Longrightarrow> pc_reachable (snd (take_fired_timers s))"
| pc_a20: "pc_reachable s \<Longrightarrow> pc_reachable (set_enable_a20 v s)"
| pc_hrq: "pc_reachable s \<Longrightarrow> pc_reachable (set_hrq v s)"
| pc_raise: "pc_reachable s \<Longrightarrow> pc_reachable (pc_raise_intr s)"
| pc_clear: "pc_reachable s \<Longrightarrow> pc_reachable (pc_clear_intr s)"
| pc_rst: "pc_reachable s \<Longrightarrow> pc_reachable (pc_reset kind s)"
| pc_req: "pc_reachable s \<Longrightarrow> pc_reachable (request_reset kind s)"
| pc_take_req: "pc_reachable s \<Longrightarrow> pc_reachable (snd (take_reset_request s))"
| pc_clock: "pc_reachable s \<Longrightarrow> pc_reachable (set_device_clock clock s)"

lemma pc_new_slot: "i < BX_MAX_TIMERS \<Longrightarrow> ps_timers pc_new ! i = (if i = 0 then null_timer else timer_default)"
  by (simp add: pc_new_def)

lemma pc_new_sel:
  "length (ps_timers pc_new) = BX_MAX_TIMERS" "ps_num_timers pc_new = 1" "ps_triggered_timer pc_new = 0"
  "ps_curr_countdown pc_new = 0xFFFFFFFF" "ps_curr_countdown_period pc_new = 0xFFFFFFFF"
  "ps_ticks_total pc_new = 0" "ps_fired pc_new = []" "ps_ips pc_new = 1000000"
  "ps_a20_mask pc_new = A20_OFF" "\<not> ps_enable_a20 pc_new" "next_event pc_new = 0xFFFFFFFF"
  by (simp_all add: pc_new_def NULL_TIMER_INTERVAL_def next_event_def)

lemma default_slots:
  "slot_ok 0 null_timer" "i \<noteq> 0 \<Longrightarrow> slot_ok i timer_default"
proof -
  have "timer_id [] = replicate BX_MAX_TIMER_ID_LEN 0" by (simp add: timer_id_def)
  then have "validate_timer_id (replicate BX_MAX_TIMER_ID_LEN 0) = Inr ()"
    using validate_timer_id_timer_id(1) [of "[]"] by simp
  then show "slot_ok 0 null_timer" "i \<noteq> 0 \<Longrightarrow> slot_ok i timer_default"
    by (simp_all add: slot_ok_def null_timer_def timer_default_def carries_live_state_def flags_empty_def
        owner_ok_def NULL_TIMER_INTERVAL_def)
qed

lemma pc_new_live: "live pc_new"
proof -
  have fl: "t_in_use null_timer" "\<not> t_in_use timer_default" "\<not> t_active timer_default" "is_null_timer null_timer"
    "timer_ok 0xFFFFFFFF null_timer"
    by (simp_all add: null_timer_def timer_default_def flags_empty_def is_null_timer_def timer_ok_def
        NULL_TIMER_INTERVAL_def)
  have "timer_ok (next_event pc_new) (ps_timers pc_new ! i)" if "i < BX_MAX_TIMERS" for i
    using that fl by (simp add: pc_new_slot pc_new_sel timer_ok_def)
  then have "\<forall>t \<in> set (ps_timers pc_new). timer_ok (next_event pc_new) t"
    by (auto simp: in_set_conv_nth pc_new_sel)
  moreover have "used_slots pc_new = {0}" using fl by (auto simp: used_slots_def pc_new_slot split: if_splits)
  moreover have "1 \<le> BX_MAX_TIMERS" using BX_MAX_TIMERS_pos by linarith
  ultimately show ?thesis
    using default_slots fl unfolding live_def wheel_def owners_distinct_def
    by (simp add: pc_new_slot pc_new_sel fired_ok_def)
qed

lemma pc_initialize_live:
  assumes "ips < 2 ^ 64"
  shows "live (pc_initialize ips pc_new)"
proof -
  have "(ps_timers pc_new)[0 := (ps_timers pc_new ! 0)\<lparr>t_time_to_fire := NULL_TIMER_INTERVAL\<rparr>] = ps_timers pc_new"
    by (simp add: pc_new_slot list_update_same_conv pc_new_sel null_timer_def)
  then have "pc_initialize ips pc_new = pc_new\<lparr>ps_ips := max ips 1\<rparr>"
    unfolding pc_initialize_def by (simp add: pc_new_def)
  moreover have "live (pc_new\<lparr>ps_ips := max ips 1\<rparr>)"
    using pc_new_live assms
    by (simp add: live_def wheel_def next_event_def reg_owners_def used_slots_def owners_distinct_def)
  ultimately show ?thesis by simp
qed

lemma isa_bus_delay_live:
  assumes l: "live s" and h: "horizon (time_ticks s + 2 ^ 32) s" and d: "isa_bus_delay s = Some s'"
  shows "live s'"
proof (cases "ps_ips s > 4000000")
  case True
  let ?n = "(ps_ips s * 2 mod 2 ^ 64 div 1000000) mod 2 ^ 32"
  have "?n < 2 ^ 32" by simp
  then have "horizon (time_ticks s + ?n) s" by (intro horizon_mono [OF h]) simp
  from live_tickn [OF l this] d True show ?thesis by (auto simp: isa_bus_delay_def)
next
  case False
  with l d show ?thesis by (simp add: isa_bus_delay_def)
qed

lemma pc_reachable_live: "pc_reachable s \<Longrightarrow> live s"
proof (induction rule: pc_reachable.induct)
  case (pc_tickn s n s')
  then show ?case using live_tickn by force
next
  case (pc_tick1 s s')
  then show ?case using live_tickn [of s 1] tick1_tickn [of s] by force
next
  case (pc_delay s s')
  then show ?case by (blast intro: isa_bus_delay_live)
qed (simp_all add: pc_new_live pc_initialize_live live_register live_register_usec live_activate
    live_activate_usec live_activate_nsec live_activate_at_ticks live_at_ticks_with_period live_reactivate
    live_deactivate live_unregister live_control)

section \<open>What a restore accepts\<close>

lemma pc_restore_ips:
  assumes "pc_restore host bs = Inr (s, r)"
  shows "ps_ips host < 2 ^ 64"
proof -
  obtain x :: u64 where "unat x = ps_ips host"
    using assms by (auto simp: pc_restore_def rd_bind_iff scalar_iff split: if_splits)
  then show ?thesis using unat_bound [of x] by simp
qed

lemma pc_restore_accepts:
  assumes "pc_restore host bs = Inr (s, r)"
  shows "validate_snapshot_state_fields s = Inr ()" "pc_typed s" "ps_ips s = ps_ips host"
    "ps_device_clock s = ps_device_clock host"
  using assms pc_restore_ips [OF assms] unat_bound [where 'a = 32] unat_bound [where 'a = 64]
  by (auto simp: pc_restore_def rd_bind_iff rd_lift_iff scalar_iff read_count_iff timerc.read_each_iff
      firedc.read_each_iff pc_typed_def Let_def split: if_splits)

lemma validated_timer:
  assumes "validate_snapshot_timer now ne num ts i = Inr ()"
  shows "t_in_use (ts ! i) \<Longrightarrow> i < num \<and> 1 \<le> t_period (ts ! i)" "t_active (ts ! i) \<Longrightarrow> t_in_use (ts ! i) \<and> ne \<le> t_time_to_fire (ts ! i)"
    "i = 0 \<Longrightarrow> 0 < num \<Longrightarrow> is_null_timer (ts ! 0)"
  using assms
  by (auto simp: validate_snapshot_timer_def validate_used_timer_def Let_def attempt_Inr_iff carries_live_state_def
      flags_empty_def is_null_timer_def null_timer_flags_def pc_consts split: if_splits)

lemma validated_fired:
  assumes "\<forall>j < length fs. validate_fired_owner ts fs j = Inr ()" "\<forall>f \<in> set fs. fired_storable f"
  shows "fired_ok (t_owner ` {t \<in> set ts. t_in_use t}) fs"
proof -
  have at: "p \<noteq> NullTimer \<and> n \<noteq> 0 \<and> (\<forall>k < j. fst (fs ! k) \<noteq> p) \<and> timer_owner_is_registered ts p"
    if "j < length fs" "fs ! j = (p, n)" for j p n
    using assms(1) [rule_format, OF that(1)] that
    by (auto simp: validate_fired_owner_def attempt_Inr_iff list_ex_length split: if_splits)
  have "fst (fs ! i) \<noteq> fst (fs ! j)" if "i < j" "j < length fs" for i j
    using at [of j "fst (fs ! j)" "snd (fs ! j)"] that by simp
  then have "distinct (map fst fs)" by (auto simp: distinct_conv_nth) (metis nat_neq_iff)
  moreover have "p \<in> t_owner ` {t \<in> set ts. t_in_use t} \<and> p \<noteq> NullTimer \<and> 1 \<le> n \<and> n \<le> fire_cap"
    if f: "(p, n) \<in> set fs" for p n
  proof -
    obtain j where "j < length fs" "fs ! j = (p, n)" using f by (auto simp: in_set_conv_nth)
    from at [OF this] f assms(2) show ?thesis
      by (auto simp: timer_owner_is_registered_def list_ex_iff fired_storable_def fire_cap_def)
  qed
  ultimately show ?thesis unfolding fired_ok_def by fastforce
qed

lemma validated_wheel:
  assumes v: "validate_snapshot_state_fields s = Inr ()" and t: "pc_typed s"
  shows "wheel s" "1 \<le> ps_curr_countdown s"
proof -
  have len: "length (ps_timers s) = BX_MAX_TIMERS" and per: "ps_curr_countdown_period s < 2 ^ 32"
    and st: "\<forall>t \<in> set (ps_timers s). timer_storable t" "\<forall>f \<in> set (ps_fired s). fired_storable f"
    using t by (simp_all add: pc_typed_def)
  let ?now = "ps_ticks_total s + (ps_curr_countdown_period s - ps_curr_countdown s)"
  have c: "1 \<le> ps_curr_countdown s" "1 \<le> ps_num_timers s" "ps_num_timers s \<le> BX_MAX_TIMERS"
      "ps_curr_countdown s \<le> ps_curr_countdown_period s"
    and slots: "\<forall>i < BX_MAX_TIMERS. validate_snapshot_timer ?now (next_event s) (ps_num_timers s) (ps_timers s) i = Inr ()"
    and fired: "\<forall>j < length (ps_fired s). validate_fired_owner (ps_timers s) (ps_fired s) j = Inr ()"
    using v len
    by (auto simp: validate_snapshot_state_fields_def attempt_Inr_iff validate_each_iff next_event_def
        checked_add64_def split: if_splits option.splits)
  show "1 \<le> ps_curr_countdown s" by (fact c(1))
  note slot = validated_timer [OF slots [rule_format]]
  have "timer_ok (next_event s) (ps_timers s ! i)" if "i < BX_MAX_TIMERS" for i
    using slot(1,2) [OF that] st(1) that len by (auto simp: timer_ok_def timer_storable_def)
  then have "\<forall>t \<in> set (ps_timers s). timer_ok (next_event s) t" using len by (auto simp: in_set_conv_nth)
  moreover have "\<forall>i < BX_MAX_TIMERS. ps_num_timers s \<le> i \<longrightarrow> \<not> t_in_use (ps_timers s ! i)"
    using slot(1) by (meson not_less)
  moreover have "is_null_timer (ps_timers s ! 0)" using slot(3) [of 0] c(2) by simp
  moreover have "fired_ok (reg_owners s) (ps_fired s)" unfolding reg_owners_def by (rule validated_fired [OF fired st(2)])
  moreover have "1 \<le> ps_curr_countdown_period s" using c by linarith
  ultimately show "wheel s" using c len per unfolding wheel_def by simp
qed

section \<open>A machine with one timer\<close>

definition boot :: pc_system where "boot = pc_initialize 1000000 pc_new"

definition kbd :: pc_system where "kbd = snd (register_timer Keyboard 100 False False [] boot)"

lemma boot_sel:
  "pc_reachable boot" "live boot" "time_ticks boot = 0" "ps_timers boot = ps_timers pc_new"
  "ps_num_timers boot = 1" "ps_fired boot = []" "ps_ips boot = 1000000"
proof -
  show "pc_reachable boot" unfolding boot_def by (rule pc_init) simp
  then show "live boot" by (rule pc_reachable_live)
  show "time_ticks boot = 0"
    by (simp add: boot_def pc_initialize_def time_ticks_def add64_def sub32_def NULL_TIMER_INTERVAL_def)
  show "ps_timers boot = ps_timers pc_new"
    by (simp add: boot_def pc_initialize_def pc_new_slot list_update_same_conv pc_new_sel null_timer_def)
qed (simp_all add: boot_def pc_initialize_def pc_new_sel)

lemma boot_owners: "Keyboard \<notin> reg_owners boot"
proof -
  have "t_owner (ps_timers boot ! i) = NullTimer" if "i < BX_MAX_TIMERS" for i
    using that by (simp add: boot_sel pc_new_slot null_timer_def timer_default_def)
  then show ?thesis by (auto simp: reg_owners_def in_set_conv_nth boot_sel pc_new_sel)
qed

lemma kbd_eq: "register_timer Keyboard 100 False False [] boot =
  (Inr 1, boot\<lparr>ps_timers := (ps_timers boot)[1 := registered Keyboard 100 100 False []], ps_num_timers := 2\<rparr>)"
proof -
  have "1 < BX_MAX_TIMERS" by (simp add: pc_consts)
  then have "find (\<lambda>i. \<not> t_in_use (ps_timers boot ! i)) [1..<BX_MAX_TIMERS] = Some 1"
    by (simp add: upt_conv_Cons boot_sel pc_new_slot timer_default_def flags_empty_def)
  then show ?thesis
    by (simp add: register_timer_def boot_sel deadline_from_now_def checked_add64_def registered_def
        MIN_ALLOWABLE_TIMER_PERIOD_def)
qed

lemma kbd_sel:
  "pc_reachable kbd" "validate_timer_index 1 kbd = Inr ()" "time_ticks kbd = 0" "ps_fired kbd = []"
  "t_owner (ps_timers kbd ! 1) = Keyboard"
proof -
  have one: "1 < BX_MAX_TIMERS" by (simp add: pc_consts)
  have len: "length (ps_timers boot) = BX_MAX_TIMERS" by (simp add: boot_sel pc_new_sel)
  show "pc_reachable kbd" unfolding kbd_def by (intro pc_reg boot_sel) (simp_all add: owner_ok_def boot_owners)
  show "validate_timer_index 1 kbd = Inr ()" "t_owner (ps_timers kbd ! 1) = Keyboard" "ps_fired kbd = []"
    using one len by (simp_all add: kbd_def kbd_eq validate_timer_index_def registered_def boot_sel)
  show "time_ticks kbd = 0" using boot_sel(3) by (simp add: kbd_def kbd_eq time_ticks_def)
qed

end
