(* ===== verification/Pc_Properties.thy ===== *)
theory Pc_Properties
  imports Pc_Laws
begin

text \<open>
  The properties of the PC system, over the machines its operations reach, with one machine
  that has a single timer as the running example.
\<close>

section \<open>Time\<close>

text \<open>
  C3. Advancing time always returns, moves the clock by exactly the requested number of ticks
  however many countdown events lie in between, leaves every timer as its specification says
  at that tick, and adds to the pending fires of each owner exactly the fires that fell due
  (up to the 32-bit cap of a pending count). Nothing else of the machine changes.
\<close>

theorem time_advances_exactly:
  assumes "pc_reachable s" "horizon (time_ticks s + n) s"
  shows "\<exists>s'. tickn n s = Some s' \<and> time_ticks s' = time_ticks s + n \<and>
    ps_timers s' = map (settle (time_ticks s + n)) (ps_timers s) \<and> still s' = still s \<and>
    (\<forall>p. p \<noteq> NullTimer \<longrightarrow> fired_count p (ps_fired s') =
       min (fired_count p (ps_fired s) + fires p (time_ticks s + n) (ps_timers s)) fire_cap)"
  using live_tickn [OF pc_reachable_live [OF assms(1)] assms(2)] by (auto simp: advanced_def)

text \<open>A one-shot timer on the example machine keeps the tick counter in range.\<close>

lemma boot_horizon: "T < 2 ^ 63 \<Longrightarrow> horizon T boot"
proof -
  assume T: "T < 2 ^ 63"
  have "t_period (ps_timers boot ! i) < 2 ^ 63" if "i < BX_MAX_TIMERS" for i
    using that by (simp add: boot_sel pc_new_slot null_timer_def timer_default_def NULL_TIMER_INTERVAL_def)
  with T show ?thesis by (fastforce simp: horizon_def in_set_conv_nth boot_sel pc_new_sel)
qed

lemma kbd_horizon: "T < 2 ^ 63 \<Longrightarrow> horizon T kbd"
proof -
  assume T: "T < 2 ^ 63"
  have "\<not> t_active (registered Keyboard 100 100 False [])" by (simp add: registered_def)
  then show ?thesis
    using boot_horizon [OF T] set_update_subset_insert [of "ps_timers boot" 1 "registered Keyboard 100 100 False []"]
    unfolding horizon_def kbd_def kbd_eq by auto
qed

lemma armed_horizon: "T < 2 ^ 63 \<Longrightarrow> horizon T (snd (activate_timer 1 100 False kbd))"
proof -
  assume T: "T < 2 ^ 63"
  have "armed 1 100 100 False kbd (activate_timer 1 100 False kbd)"
    using activate_timer_cases [OF live_wheel [OF pc_reachable_live [OF kbd_sel(1)]] kbd_sel(2), of 100 False]
    by (simp add: kbd_sel)
  then have "ps_timers (snd (activate_timer 1 100 False kbd)) =
      (ps_timers kbd)[1 := arm 100 False ((ps_timers kbd ! 1)\<lparr>t_period := 100\<rparr>)]"
    by (auto simp: armed_def rewound_def)
  then show ?thesis
    using kbd_horizon [OF T] set_update_subset_insert [of "ps_timers kbd" 1
        "arm 100 False ((ps_timers kbd ! 1)\<lparr>t_period := 100\<rparr>)"]
    unfolding horizon_def by auto
qed

theorem time_advances_exactly_witness:
  "pc_reachable boot \<and> horizon 5000000000 boot \<and>
   (\<exists>s'. tickn 5000000000 boot = Some s' \<and> time_ticks s' = 5000000000)"
  using time_advances_exactly [OF boot_sel(1), of 5000000000] boot_horizon [of 5000000000] boot_sel(1,3) by auto

text \<open>
  How time is sliced does not matter: advancing by \<open>m\<close> and then by \<open>n\<close> ends at the same tick,
  with the same timers and the same pending fires, as advancing by \<open>m + n\<close> at once.
\<close>

theorem tick_slicing:
  assumes "pc_reachable s" "horizon (time_ticks s + (m + n)) s"
  shows "\<exists>s1 s2 s3. tickn m s = Some s1 \<and> tickn n s1 = Some s2 \<and> tickn (m + n) s = Some s3 \<and>
    time_ticks s2 = time_ticks s3 \<and> ps_timers s2 = ps_timers s3 \<and> still s2 = still s3 \<and>
    (\<forall>p. p \<noteq> NullTimer \<longrightarrow> fired_count p (ps_fired s2) = fired_count p (ps_fired s3))"
proof -
  note l = pc_reachable_live [OF assms(1)]
  have h: "horizon (time_ticks s + m) s" by (rule horizon_mono [OF assms(2)]) simp
  obtain s1 where s1: "tickn m s = Some s1" "live s1" "advanced (time_ticks s + m) s s1"
    using live_tickn [OF l h] by blast
  have t1: "time_ticks s1 + n = time_ticks s + (m + n)" using s1(3) by (simp add: advanced_def)
  have "horizon (time_ticks s + (m + n)) s1"
    using assms(2) s1(3) settle_active by (fastforce simp: horizon_def advanced_def)
  then obtain s2 where s2: "tickn n s1 = Some s2" "advanced (time_ticks s + (m + n)) s1 s2"
    using live_tickn [OF s1(2), of n] unfolding t1 by blast
  obtain s3 where "tickn (m + n) s = Some s3" "advanced (time_ticks s + (m + n)) s s3"
    using live_tickn [OF l assms(2)] by blast
  moreover have "advanced (time_ticks s + (m + n)) s s2"
    by (rule advanced_trans [OF live_wheel(1) [OF l] s1(3) s2(2)]) simp
  ultimately show ?thesis using s1(1) s2(1) by (auto simp: advanced_def)
qed

theorem tick_slicing_witness:
  "pc_reachable boot \<and> horizon 5000000000 boot \<and>
   (\<exists>s1 s2 s3. tickn 4000000000 boot = Some s1 \<and> tickn 1000000000 s1 = Some s2 \<and>
      tickn 5000000000 boot = Some s3 \<and> ps_timers s2 = ps_timers s3)"
  using tick_slicing [OF boot_sel(1), of 4000000000 1000000000] boot_horizon [of 5000000000] boot_sel(1,3) by auto

lemma fires_single:
  assumes l: "live s" and i: "i < BX_MAX_TIMERS" "t_in_use (ps_timers s ! i)"
  shows "fires (t_owner (ps_timers s ! i)) T (ps_timers s) = due T (ps_timers s ! i)"
proof -
  let ?ts = "ps_timers s" let ?f = "\<lambda>k. if t_owner (?ts ! k) = t_owner (?ts ! i) then due T (?ts ! k) else 0"
  have len: "length ?ts = BX_MAX_TIMERS" using live_len [OF l] .
  have other: "?f k = 0" if k: "k < BX_MAX_TIMERS" "k \<noteq> i" for k
  proof (rule ccontr)
    assume "?f k \<noteq> 0"
    then have e: "t_owner (?ts ! k) = t_owner (?ts ! i)" "t_active (?ts ! k)" by (auto simp: due_def split: if_splits)
    moreover have "timer_ok (next_event s) (?ts ! k)" using live_wheel(1) [OF l] k(1) len by (simp add: wheel_def)
    ultimately have "t_in_use (?ts ! k)" by (simp add: timer_ok_def)
    then have "k = i" using l e(1) i k(1)
      by (intro inj_onD [of "\<lambda>i. t_owner (?ts ! i)" "used_slots s"]) (simp_all add: live_def owners_distinct_def used_slots_def)
    with k(2) show False by simp
  qed
  have "fires (t_owner (?ts ! i)) T ?ts = (\<Sum>k \<leftarrow> [0..<BX_MAX_TIMERS]. ?f k)"
    unfolding fires_def by (subst (1) map_nth [symmetric], unfold map_map len comp_def) simp
  also have "\<dots> = (\<Sum>k \<in> {0..<BX_MAX_TIMERS}. ?f k)" by (simp add: interv_sum_list_conv_sum_set_nat)
  also have "\<dots> = ?f i" using i(1) other by (subst sum.remove [of _ i]) (simp_all add: sum.neutral)
  finally show ?thesis by simp
qed

lemma due_armed:
  assumes "1 \<le> p"
  shows "due (now + n) (arm (now + p) c (t\<lparr>t_period := p\<rparr>)) = (if c then n div p else if p \<le> n then 1 else 0)"
proof (cases "p \<le> n")
  case True
  then have "(now + n - (now + p)) div p + 1 = n div p" using assms by (simp add: le_div_geq)
  with True show ?thesis by (simp add: due_def)
next
  case False
  then show ?thesis using assms by (simp add: due_def)
qed

text \<open>
  C4. An armed timer fires exactly when it is due, and it does fire: after \<^verbatim>\<open>activate_timer\<close> with
  a period of \<open>p\<close> ticks, advancing time by \<open>n\<close> ticks adds \<open>n div p\<close> fires of its owner when the
  timer repeats, and one fire from tick \<open>p\<close> on when it does not.
\<close>

theorem timer_fires_when_due:
  assumes r: "pc_reachable s" and i: "validate_timer_index i s = Inr ()" and p: "1 \<le> p" "time_ticks s + p < 2 ^ 64"
    and h: "horizon (time_ticks s + n) (snd (activate_timer i p c s))"
  shows "\<exists>s1 s2. activate_timer i p c s = (Inr (), s1) \<and> tickn n s1 = Some s2 \<and>
    time_ticks s2 = time_ticks s + n \<and>
    fired_count (t_owner (ps_timers s ! i)) (ps_fired s2) =
      min (fired_count (t_owner (ps_timers s ! i)) (ps_fired s) +
        (if c then n div p else if p \<le> n then 1 else 0)) fire_cap"
proof -
  note l = pc_reachable_live [OF r]
  let ?s1 = "snd (activate_timer i p c s)" let ?o = "t_owner (ps_timers s ! i)" let ?T = "time_ticks s + n"
  have i': "0 < i" "i < BX_MAX_TIMERS" "t_in_use (ps_timers s ! i)" using i by (simp_all add: validate_timer_index_iff)
  have a: "armed i (time_ticks s + p) p c s (activate_timer i p c s)"
    using activate_timer_cases [OF live_wheel [OF l] i, of p c] p by (simp add: max_absorb1)
  have l1: "live ?s1" by (rule live_activate [OF l])
  have s1: "time_ticks ?s1 = time_ticks s" "ps_fired ?s1 = ps_fired s"
    "ps_timers ?s1 ! i = arm (time_ticks s + p) c ((ps_timers s ! i)\<lparr>t_period := p\<rparr>)"
    using a i' live_len [OF l] by (auto simp: armed_def rewound_def)
  obtain s2 where s2: "tickn n ?s1 = Some s2" "advanced ?T ?s1 s2"
    using live_tickn [OF l1, of n] h unfolding s1(1) by blast
  have "?o \<noteq> NullTimer" using live_slot [OF l i'(2)] i' by (simp add: slot_ok_def)
  moreover have "fires ?o ?T (ps_timers ?s1) = due ?T (ps_timers ?s1 ! i)"
    using fires_single [OF l1 i'(2), of ?T] i'(3) by (simp add: s1(3))
  ultimately have "fired_count ?o (ps_fired s2) = min (fired_count ?o (ps_fired s) +
      (if c then n div p else if p \<le> n then 1 else 0)) fire_cap"
    using s2(2) due_armed [OF p(1), of "time_ticks s" n c] by (simp add: advanced_def s1)
  moreover have "activate_timer i p c s = (Inr (), ?s1)" using a by (cases "activate_timer i p c s") (simp add: armed_def)
  ultimately show ?thesis using s2 by (auto simp: advanced_def)
qed

theorem timer_fires_when_due_witness:
  "pc_reachable kbd \<and> validate_timer_index 1 kbd = Inr () \<and>
   (\<exists>s1 s2. activate_timer 1 100 False kbd = (Inr (), s1) \<and> tickn 250 s1 = Some s2 \<and>
      fired_count Keyboard (ps_fired s2) = 1)"
  using timer_fires_when_due [OF kbd_sel(1,2), of 100 250 False] armed_horizon [of 250] kbd_sel
  by (auto simp: fired_count_def fire_cap_def)

text \<open>
  C5. The countdown never passes a deadline. In every reachable machine each armed timer lies in
  the future and not before the end of the running countdown, the tick counter does not wrap
  before that event, every pending fire belongs to a registered owner, and the buffer of
  pending fires has room: no fire is ever dropped.
\<close>

theorem countdown_never_late:
  assumes "pc_reachable s"
  shows "(\<forall>t \<in> set (ps_timers s). t_active t \<longrightarrow>
      time_ticks s < t_time_to_fire t \<and> ps_ticks_total s + ps_curr_countdown_period s \<le> t_time_to_fire t) \<and>
    time_ticks s + ps_curr_countdown s < 2 ^ 64 \<and> length (ps_fired s) < BX_MAX_TIMERS \<and>
    (\<forall>(p, n) \<in> set (ps_fired s). timer_owner_is_registered (ps_timers s) p \<and> p \<noteq> NullTimer \<and> 1 \<le> n)"
proof -
  note l = pc_reachable_live [OF assms] note w = live_wheel(1) [OF l]
  have "timer_ok (next_event s) t" if "t \<in> set (ps_timers s)" for t using w that by (simp add: wheel_def)
  moreover have "time_ticks s < next_event s" using wheel_next_event(2) [OF w] live_wheel(2) [OF l] by linarith
  ultimately have t: "\<forall>t \<in> set (ps_timers s). t_active t \<longrightarrow>
      time_ticks s < t_time_to_fire t \<and> ps_ticks_total s + ps_curr_countdown_period s \<le> t_time_to_fire t"
    by (fastforce simp: timer_ok_def next_event_def)
  have f: "\<forall>(p, n) \<in> set (ps_fired s). timer_owner_is_registered (ps_timers s) p \<and> p \<noteq> NullTimer \<and> 1 \<le> n"
    using live_fired [OF l] by blast
  have "time_ticks s + ps_curr_countdown s < 2 ^ 64" using wheel_next_event [OF w] by simp
  with t f live_fired_room [OF l] show ?thesis by blast
qed

theorem countdown_never_late_witness:
  "pc_reachable kbd \<and> length (ps_fired kbd) < BX_MAX_TIMERS \<and> time_ticks kbd + ps_curr_countdown kbd < 2 ^ 64"
  using countdown_never_late [OF kbd_sel(1)] kbd_sel(1) by blast

section \<open>Failing calls\<close>

lemma armed_ok: "armed i d p c s r \<Longrightarrow> fst r \<noteq> Inl e"
  by (simp add: armed_def)

lemma at_ticks_atomic:
  assumes "live s" "d < 2 ^ 64" "fst (activate_timer_at_ticks i d c s) = Inl e"
  shows "snd (activate_timer_at_ticks i d c s) = s"
  using armed_ok [OF armed_at_ticks [OF assms(1) _ assms(2)]] assms(3)
  by (cases "validate_timer_index i s") (fastforce simp: activate_timer_at_ticks_def)+

lemma with_period_ok:
  assumes "live s" "validate_timer_index i s = Inr u" "d < 2 ^ 64" "1 \<le> p"
  shows "fst (activate_timer_at_ticks i d c (set_period i p s)) \<noteq> Inl e"
  using armed_ok [OF armed_with_period [OF assms(1) _ assms(3,4)]] assms(2) by auto

lemma activate_atomic:
  assumes l: "live s" and e: "fst (activate_timer i p c s) = Inl e"
  shows "snd (activate_timer i p c s) = s"
proof (cases "validate_timer_index i s")
  case (Inr u)
  with activate_timer_cases [OF live_wheel [OF l], of i p c] e armed_ok show ?thesis
    by (cases "time_ticks s + max p 1 < 2 ^ 64") auto
qed (simp add: activate_timer_def)

lemma register_atomic:
  assumes l: "live s" and own: "owner_ok owner" "owner \<noteq> NullTimer" "owner \<notin> reg_owners s" "0 \<notin> set name"
    and e: "fst (register_timer owner p0 c active name s) = Inl e"
  shows "snd (register_timer owner p0 c active name s) = s"
proof (cases "find (\<lambda>i. \<not> t_in_use (ps_timers s ! i)) [1..<BX_MAX_TIMERS]")
  case (Some i)
  let ?p = "max p0 MIN_ALLOWABLE_TIMER_PERIOD" let ?d = "time_ticks s + ?p"
  show ?thesis
  proof (cases "?d < 2 ^ 64")
    case True
    let ?s1 = "s\<lparr>ps_timers := (ps_timers s)[i := registered owner ?p ?d c name],
      ps_num_timers := (if i \<ge> ps_num_timers s then i + 1 else ps_num_timers s)\<rparr>"
    have l1: "live ?s1" using live_put_registered [OF l Some _ _ True own, of ?p c] True by (simp add: pc_consts)
    note i = find_free_slot [OF live_wheel(1) [OF l] Some]
    then have v: "validate_timer_index i ?s1 = Inr ()"
      using live_len [OF l] by (simp add: validate_timer_index_def registered_def)
    obtain r s2 where r: "activate_timer_at_ticks i ?d c ?s1 = (r, s2)" by fastforce
    with armed_at_ticks [OF l1 v True, of c] have "r = Inr ()" by (simp add: armed_def)
    with e r True Some show ?thesis
      by (auto simp: register_timer_def Let_def deadline_from_now_def checked_add64_def registered_def split: if_splits)
  next
    case False
    with Some show ?thesis by (simp add: register_timer_def Let_def deadline_from_now_def checked_add64_def)
  qed
qed (simp add: register_timer_def Let_def)

text \<open>
  C37. A timer call that fails changes nothing. On a reachable machine, whichever check refuses an
  arming, registering, stopping or releasing call, the machine is exactly what it was.
\<close>

theorem failed_timer_calls_are_atomic:
  assumes "pc_reachable s" "deadline < 2 ^ 64" "owner_ok owner" "owner \<noteq> NullTimer" "owner \<notin> reg_owners s" "0 \<notin> set name"
  shows "(\<forall>r. (Inl r, s') = activate_timer i period continuous s \<longrightarrow> s' = s) \<and>
    (\<forall>r. (Inl r, s') = activate_timer_usec i period continuous s \<longrightarrow> s' = s) \<and>
    (\<forall>r. (Inl r, s') = activate_timer_nsec i period continuous s \<longrightarrow> s' = s) \<and>
    (\<forall>r. (Inl r, s') = activate_timer_at_ticks i deadline continuous s \<longrightarrow> s' = s) \<and>
    (\<forall>r. (Inl r, s') = activate_timer_at_ticks_with_period i deadline period continuous s \<longrightarrow> s' = s) \<and>
    (\<forall>r. (Inl r, s') = reactivate_timer_relative i period s \<longrightarrow> s' = s) \<and>
    (\<forall>r. (Inl r, s') = register_timer owner period continuous active name s \<longrightarrow> s' = s) \<and>
    (\<forall>r. (Inl r, s') = register_timer_usec owner period continuous active name s \<longrightarrow> s' = s) \<and>
    (\<forall>r. (Inl r, s') = deactivate_timer i s \<longrightarrow> s' = s) \<and>
    (\<forall>r. (Inl r, s') = unregister_timer i s \<longrightarrow> s' = s)"
proof -
  note l = pc_reachable_live [OF assms(1)]
  have act: "s' = s" if "(Inl r, s') = activate_timer i p continuous s" for r p
    using activate_atomic [OF l, of i p continuous r] that by (metis fst_conv snd_conv)
  have reg: "s' = s" if "(Inl r, s') = register_timer owner p continuous active name s" for r p
    using register_atomic [OF l assms(3-6), of p continuous active r] that by (metis fst_conv snd_conv)
  have usec: "s' = s" if "(Inl r, s') = activate_timer_usec i period continuous s" for r
    using that act by (auto simp: activate_timer_usec_def split: sum.splits)
  have nsec: "s' = s" if "(Inl r, s') = activate_timer_nsec i period continuous s" for r
    using that act by (auto simp: activate_timer_nsec_def split: sum.splits)
  have at: "s' = s" if "(Inl r, s') = activate_timer_at_ticks i deadline continuous s" for r
    using at_ticks_atomic [OF l assms(2), of i continuous r] that by (metis fst_conv snd_conv)
  have withp: "s' = s" if "(Inl r, s') = activate_timer_at_ticks_with_period i deadline period continuous s" for r
    using that with_period_ok [OF l _ assms(2), of i _ "max period 1" continuous r]
    by (auto simp: activate_timer_at_ticks_with_period_def pc_consts split: sum.splits) (metis fst_conv max.cobounded2 One_nat_def)
  have react: "s' = s" if "(Inl r, s') = reactivate_timer_relative i period s" for r
    using that with_period_ok [OF l, of i _ "t_time_to_fire (ps_timers s ! i) + max period 1" "max period 1" False r]
    by (auto simp: reactivate_timer_relative_def Let_def checked_add64_def pc_consts split: sum.splits if_splits)
      (metis fst_conv max.cobounded2 One_nat_def)
  have "s' = s" if "(Inl r, s') = register_timer_usec owner period continuous active name s" for r
    using that reg by (auto simp: register_timer_usec_def split: sum.splits)
  moreover have "s' = s" if "(Inl r, s') = deactivate_timer i s" for r
    using that by (auto simp: deactivate_timer_def split: sum.splits)
  moreover have "s' = s" if "(Inl r, s') = unregister_timer i s" for r
    using that by (auto simp: unregister_timer_def split: sum.splits if_splits)
  ultimately show ?thesis using act reg usec nsec at withp react by blast
qed

lemma kbd_owner: "Pit \<notin> reg_owners kbd"
proof -
  have "t_owner (ps_timers kbd ! i) \<noteq> Pit" if "i < BX_MAX_TIMERS" for i
    using that
    by (cases "i = 1") (simp_all add: kbd_def kbd_eq boot_sel pc_new_slot pc_new_sel null_timer_def timer_default_def
        registered_def)
  then show ?thesis using live_len [OF pc_reachable_live [OF kbd_sel(1)]] by (fastforce simp: reg_owners_def in_set_conv_nth)
qed

theorem failed_timer_calls_are_atomic_witness:
  "pc_reachable kbd \<and> activate_timer 0 5 True kbd = (Inl NullTimerModification, kbd)"
proof -
  obtain s' where s': "(Inl NullTimerModification, s') = activate_timer 0 5 True kbd"
    by (simp add: activate_timer_def validate_timer_index_def pc_consts)
  then have "s' = kbd"
    using failed_timer_calls_are_atomic [OF kbd_sel(1) _ _ _ kbd_owner, of 7 "[]" s' 0 5 True False]
    by (auto simp: owner_ok_def)
  with s' kbd_sel(1) show ?thesis by simp
qed

section \<open>Snapshots\<close>

text \<open>
  C38. Every reachable machine can be saved, in exactly the bytes \<^verbatim>\<open>snapshot_len\<close> announces, and
  restoring those bytes into a machine of the same speed gives the same state back: clock,
  countdown, every timer slot, every pending fire. Only the host's choice of device clock is
  the receiving machine's own.
\<close>

theorem pc_snapshot_round_trip:
  assumes "pc_reachable s" "ps_ips host = ps_ips s"
  shows "\<exists>bs. pc_save s w = Inr (w @ bs) \<and> pc_snapshot_len s = Inr (of_nat (length bs)) \<and>
    pc_restore host (bs @ r) = Inr (s\<lparr>ps_device_clock := ps_device_clock host\<rparr>, r)"
proof -
  note l = pc_reachable_live [OF assms(1)]
  note v = live_validates [OF l] and t = live_typed [OF l]
  show ?thesis
    using pc_save_enc [OF v t] pc_restore_enc [OF v t assms(2)] pc_snapshot_len_val [OF v] length_pc_enc [OF t]
    by (intro exI [of _ "pc_enc s"]) simp
qed

theorem pc_snapshot_round_trip_witness:
  "pc_reachable kbd \<and> (\<exists>bs. pc_save kbd [] = Inr bs \<and> pc_restore kbd bs = Inr (kbd, []))"
  using pc_snapshot_round_trip [OF kbd_sel(1) refl, of "[]" "[]"] kbd_sel(1) by auto

text \<open>
  C39. Whatever bytes are presented, a restore that succeeds yields a machine whose timer wheel
  runs: time can be advanced from it by any amount that keeps the tick counter in range, and
  every timer then stands where its specification puts it.
\<close>

theorem restored_machine_runs:
  assumes "pc_restore host bs = Inr (s, r)" "horizon (time_ticks s + n) s"
  shows "ps_ips s = ps_ips host \<and> (\<forall>t \<in> set (ps_timers s). t_active t \<longrightarrow> time_ticks s < t_time_to_fire t) \<and>
    (\<exists>s'. tickn n s = Some s' \<and> time_ticks s' = time_ticks s + n \<and>
      ps_timers s' = map (settle (time_ticks s + n)) (ps_timers s))"
proof -
  note acc = pc_restore_accepts [OF assms(1)] note w = validated_wheel [OF acc(1,2)]
  have "time_ticks s < next_event s" using wheel_next_event(2) [OF w(1)] w(2) by linarith
  moreover have "timer_ok (next_event s) t" if "t \<in> set (ps_timers s)" for t using w(1) that by (simp add: wheel_def)
  ultimately have "\<forall>t \<in> set (ps_timers s). t_active t \<longrightarrow> time_ticks s < t_time_to_fire t"
    by (fastforce simp: timer_ok_def)
  with tickn_spec [OF w assms(2)] acc(3) show ?thesis by (auto simp: advanced_def)
qed

theorem restored_machine_runs_witness:
  "pc_restore kbd (pc_enc kbd) = Inr (kbd, []) \<and> horizon 1000 kbd \<and>
   (\<exists>s'. tickn 1000 kbd = Some s' \<and> time_ticks s' = 1000)"
proof -
  note l = pc_reachable_live [OF kbd_sel(1)]
  have r: "pc_restore kbd (pc_enc kbd) = Inr (kbd, [])"
    using pc_restore_enc [OF live_validates [OF l] live_typed [OF l] refl, of "[]"] by simp
  from restored_machine_runs [OF r, of 1000] kbd_horizon [of 1000] show ?thesis
    using r by (auto simp: kbd_sel)
qed

lemma pending_unregistered:
  assumes "has_fired_owner p s" "\<not> timer_owner_is_registered (ps_timers s) p"
  shows "\<exists>e. pc_save s w = Inl e"
proof -
  have "validate_snapshot_state_fields s \<noteq> Inr ()"
  proof
    assume "validate_snapshot_state_fields s = Inr ()"
    then have each: "validate_each (validate_fired_owner (ps_timers s) (ps_fired s)) [0..<length (ps_fired s)] = Inr ()"
      by (auto simp: validate_snapshot_state_fields_def attempt_Inr_iff split: if_splits option.splits)
    obtain j n where "j < length (ps_fired s)" "ps_fired s ! j = (p, n)"
      using assms(1) by (auto simp: has_fired_owner_def in_set_conv_nth)
    moreover from this each have "validate_fired_owner (ps_timers s) (ps_fired s) j = Inr ()"
      by (simp add: validate_each_iff)
    ultimately show False using assms(2) by (auto simp: validate_fired_owner_def attempt_Inr_iff split: if_splits)
  qed
  then show ?thesis by (cases "validate_snapshot_state_fields s") (simp_all add: pc_save_def)
qed

lemma unregister_unowned:
  assumes l: "live s" and i: "validate_timer_index i s = Inr ()" "\<not> t_active (ps_timers s ! i)"
  shows "\<exists>s'. unregister_timer i s = (Inr (), s') \<and> ps_fired s' = ps_fired s \<and>
    \<not> timer_owner_is_registered (ps_timers s') (t_owner (ps_timers s ! i))"
proof -
  have i': "i < BX_MAX_TIMERS" "t_in_use (ps_timers s ! i)" using i(1) by (simp_all add: validate_timer_index_iff)
  have len: "length (ps_timers s) = BX_MAX_TIMERS" using live_len [OF l] .
  have "\<not> timer_owner_is_registered ((ps_timers s)[i := freed]) (t_owner (ps_timers s ! i))"
  proof
    assume "timer_owner_is_registered ((ps_timers s)[i := freed]) (t_owner (ps_timers s ! i))"
    then obtain k where k: "k < BX_MAX_TIMERS" "t_in_use ((ps_timers s)[i := freed] ! k)"
        "t_owner ((ps_timers s)[i := freed] ! k) = t_owner (ps_timers s ! i)"
      using len by (auto simp: timer_owner_is_registered_def list_ex_length)
    then have "k \<noteq> i" using len by (auto simp: freed_def flags_empty_def)
    moreover have "k = i" using l k i' \<open>k \<noteq> i\<close>
      by (intro inj_onD [of "\<lambda>i. t_owner (ps_timers s ! i)" "used_slots s"])
        (simp_all add: live_def owners_distinct_def used_slots_def)
    ultimately show False by simp
  qed
  then show ?thesis using i by (simp add: unregister_timer_def freed_def)
qed

definition armed_kbd :: pc_system where "armed_kbd = snd (activate_timer 1 100 False kbd)"

lemma armed_kbd_sel:
  "pc_reachable armed_kbd" "time_ticks armed_kbd = 0" "ps_fired armed_kbd = []"
  "ps_timers armed_kbd ! 1 = arm 100 False ((ps_timers kbd ! 1)\<lparr>t_period := 100\<rparr>)"
  "T < 2 ^ 63 \<Longrightarrow> horizon T armed_kbd"
proof -
  note l = pc_reachable_live [OF kbd_sel(1)]
  have "1 < BX_MAX_TIMERS" by (simp add: pc_consts)
  moreover have "armed 1 100 100 False kbd (activate_timer 1 100 False kbd)"
    using activate_timer_cases [OF live_wheel [OF l] kbd_sel(2), of 100 False] by (simp add: kbd_sel)
  ultimately show "time_ticks armed_kbd = 0" "ps_fired armed_kbd = []"
    "ps_timers armed_kbd ! 1 = arm 100 False ((ps_timers kbd ! 1)\<lparr>t_period := 100\<rparr>)"
    using live_len [OF l] unfolding armed_kbd_def by (auto simp: armed_def rewound_def kbd_sel)
  show "pc_reachable armed_kbd" unfolding armed_kbd_def by (rule pc_act [OF kbd_sel(1)])
  show "horizon T armed_kbd" if "T < 2 ^ 63" unfolding armed_kbd_def using armed_horizon [OF that] .
qed

text \<open>
  C40. Releasing a timer whose fire still waits to be dispatched leaves a machine that cannot be
  saved. On every reachable machine and for every timer in use that is not armed and whose owner
  has a fire pending, \<^verbatim>\<open>unregister_timer\<close> accepts the call and keeps the pending fire; the owner
  of that fire is then registered nowhere, and no attempt to save the state succeeds.
\<close>

theorem released_pending_timer_blocks_snapshot:
  assumes "pc_reachable s" "validate_timer_index i s = Inr ()" "\<not> t_active (ps_timers s ! i)"
    and "has_fired_owner (t_owner (ps_timers s ! i)) s"
  shows "case unregister_timer i s of
      (Inl _, _) \<Rightarrow> False
    | (Inr _, s') \<Rightarrow> ps_fired s' = ps_fired s \<and>
        \<not> timer_owner_is_registered (ps_timers s') (t_owner (ps_timers s ! i)) \<and>
        (\<forall>w. \<exists>e. pc_save s' w = Inl e)"
proof -
  from unregister_unowned [OF pc_reachable_live [OF assms(1)] assms(2,3)]
  obtain s' where s': "unregister_timer i s = (Inr (), s')" "ps_fired s' = ps_fired s"
    "\<not> timer_owner_is_registered (ps_timers s') (t_owner (ps_timers s ! i))" by blast
  have "has_fired_owner (t_owner (ps_timers s ! i)) s'"
    using assms(4) s'(2) by (simp add: has_fired_owner_def)
  from pending_unregistered [OF this s'(3)] s' show ?thesis by simp
qed

text \<open>A keyboard timer armed for 100 ticks, after 250.\<close>

lemma fired_kbd:
  "\<exists>s. tickn 250 armed_kbd = Some s \<and> pc_reachable s \<and> validate_timer_index 1 s = Inr () \<and>
     \<not> t_active (ps_timers s ! 1) \<and> t_owner (ps_timers s ! 1) = Keyboard \<and> has_fired_owner Keyboard s"
proof -
  note l = pc_reachable_live [OF armed_kbd_sel(1)]
  have one: "1 < BX_MAX_TIMERS" by (simp add: pc_consts)
  have h: "horizon (time_ticks armed_kbd + 250) armed_kbd" by (rule armed_kbd_sel) (simp add: armed_kbd_sel)
  obtain s where s: "tickn 250 armed_kbd = Some s" "live s" "advanced 250 armed_kbd s"
    using live_tickn [OF l h] by (auto simp: armed_kbd_sel)
  have t: "ps_timers s ! 1 = settle 250 (ps_timers armed_kbd ! 1)"
    using s(3) one live_len [OF l] by (simp add: advanced_def)
  have use: "t_in_use (ps_timers kbd ! 1)" using kbd_sel(2) by (simp add: validate_timer_index_iff)
  then have "\<not> t_active (ps_timers s ! 1)" "validate_timer_index 1 s = Inr ()" "t_owner (ps_timers s ! 1) = Keyboard"
    using one unfolding t armed_kbd_sel validate_timer_index_def
    by (simp_all add: settle_def due_def set_active_def kbd_sel(5) [simplified])
  moreover have "fires Keyboard 250 (ps_timers armed_kbd) = 1"
    using fires_single [OF l one, of 250] use unfolding armed_kbd_sel by (simp add: due_def kbd_sel(5) [simplified])
  then have "fired_count Keyboard (ps_fired s) = 1"
    using s(3) by (simp add: advanced_def armed_kbd_sel fired_count_def fire_cap_def)
  then have "has_fired_owner Keyboard s"
    unfolding has_fired_owner_def by (force simp: fired_count_def dest: map_of_SomeD split: option.splits)
  ultimately show ?thesis using s(1) pc_tickn [OF armed_kbd_sel(1) h s(1)] by blast
qed

theorem released_pending_timer_blocks_snapshot_witness:
  "\<exists>s s'. tickn 250 armed_kbd = Some s \<and> has_fired_owner Keyboard s \<and> unregister_timer 1 s = (Inr (), s') \<and>
     \<not> timer_owner_is_registered (ps_timers s') Keyboard \<and> (\<forall>w. \<exists>e. pc_save s' w = Inl e)"
proof -
  obtain s where s: "tickn 250 armed_kbd = Some s" "pc_reachable s" "validate_timer_index 1 s = Inr ()"
    "\<not> t_active (ps_timers s ! 1)" "t_owner (ps_timers s ! 1) = Keyboard" "has_fired_owner Keyboard s"
    using fired_kbd by blast
  with released_pending_timer_blocks_snapshot [OF s(2,3,4)] show ?thesis
    by (auto split: prod.splits sum.splits)
qed

end
