(* ===== verification/Lazy_Flags.thy ===== *)
theory Lazy_Flags
  imports Prelude
begin

text \<open>
  The lazily evaluated arithmetic flags of \<^verbatim>\<open>rusty_box/src/cpu/lazy_flags.rs\<close>. An operation
  stores its sign extended result and a packed word of carries; each of CF, OF, SF, ZF, AF
  and PF is computed from the two only when it is read. The theory holds the carry vectors,
  the entry with its setters and getters, and the six flags of an entry as one value,
  \<open>flags_of\<close>. The lemmas at the end give the flags of the entry each setter leaves, whatever
  the entry held before: the single-flag setters change their own flag and no other one.

  The flag getters answer 0 or 1 as a \<^verbatim>\<open>u32\<close>, as in the source.
\<close>

section \<open>Layout of the auxiliary bits\<close>

abbreviation (input) LF_BIT_SD :: nat where "LF_BIT_SD \<equiv> 0"
abbreviation (input) LF_BIT_AF :: nat where "LF_BIT_AF \<equiv> 3"
abbreviation (input) LF_BIT_PDB :: nat where "LF_BIT_PDB \<equiv> 8"
abbreviation (input) LF_BIT_PO :: nat where "LF_BIT_PO \<equiv> 30"
abbreviation (input) LF_BIT_CF :: nat where "LF_BIT_CF \<equiv> 31"
abbreviation (input) BX_LF_SIGN_BIT :: nat where "BX_LF_SIGN_BIT \<equiv> 63"

definition LF_MASK_SD :: u32 where "LF_MASK_SD = push_bit LF_BIT_SD 1"
definition LF_MASK_AF :: u32 where "LF_MASK_AF = push_bit LF_BIT_AF 1"
definition LF_MASK_PDB :: u32 where "LF_MASK_PDB = push_bit LF_BIT_PDB 0xFF"
definition LF_MASK_CF :: u32 where "LF_MASK_CF = push_bit LF_BIT_CF 1"
definition LF_MASK_PO :: u32 where "LF_MASK_PO = push_bit LF_BIT_PO 1"

section \<open>Carry vectors\<close>

definition add_cout_vec :: "u64 \<Rightarrow> u64 \<Rightarrow> u64 \<Rightarrow> u64" where
  "add_cout_vec op1 op2 result = (op1 AND op2) OR ((op1 OR op2) AND NOT result)"

definition sub_cout_vec :: "u64 \<Rightarrow> u64 \<Rightarrow> u64 \<Rightarrow> u64" where
  "sub_cout_vec op1 op2 result = (NOT op1 AND op2) OR ((NOT op1 XOR op2) AND result)"

section \<open>The entry and the setters of a whole operation\<close>

record lazyflags =
  lf_result :: u64
  lf_auxbits :: u64

text \<open>The operation width in bits is 8, 16, 32 or 64 at every call.\<close>

definition lf_extend :: "nat \<Rightarrow> u64 \<Rightarrow> u64" where
  "lf_extend sz r =
     (if sz = 8 then scast (ucast r :: u8)
      else if sz = 16 then scast (ucast r :: u16)
      else if sz = 32 then scast (ucast r :: u32)
      else r)"

definition lf_pack :: "nat \<Rightarrow> u64 \<Rightarrow> u32" where
  "lf_pack sz carries =
     (let c = ucast carries :: u32 in
      if sz = 32 then c AND NOT (LF_MASK_PDB OR LF_MASK_SD)
      else if sz = 16 then (c AND LF_MASK_AF) OR push_bit 16 c
      else if sz = 8 then (c AND LF_MASK_AF) OR push_bit 24 c
      else (c AND LF_MASK_AF)
           OR push_bit LF_BIT_PO (ucast (drop_bit (sz - 2) carries) :: u32))"

definition set_oszapc :: "nat \<Rightarrow> u64 \<Rightarrow> u64 \<Rightarrow> lazyflags \<Rightarrow> lazyflags" where
  "set_oszapc sz carries r f =
     f\<lparr>lf_result := lf_extend sz r, lf_auxbits := ucast (lf_pack sz carries)\<rparr>"

definition set_oszap :: "nat \<Rightarrow> u64 \<Rightarrow> u64 \<Rightarrow> lazyflags \<Rightarrow> lazyflags" where
  "set_oszap sz carries r f =
     (let temp = lf_pack sz carries;
          delta_c = ((ucast (lf_auxbits f) :: u32) XOR temp) AND LF_MASK_CF;
          delta_c = delta_c XOR drop_bit 1 delta_c
      in f\<lparr>lf_result := lf_extend sz r, lf_auxbits := ucast (temp XOR delta_c)\<rparr>)"

definition set_oszapc_logic_8 :: "u8 \<Rightarrow> lazyflags \<Rightarrow> lazyflags" where
  "set_oszapc_logic_8 r = set_oszapc 8 0 (ucast r)"

definition set_oszapc_logic_16 :: "u16 \<Rightarrow> lazyflags \<Rightarrow> lazyflags" where
  "set_oszapc_logic_16 r = set_oszapc 16 0 (ucast r)"

definition set_oszapc_logic_32 :: "u32 \<Rightarrow> lazyflags \<Rightarrow> lazyflags" where
  "set_oszapc_logic_32 r = set_oszapc 32 0 (ucast r)"

definition set_oszapc_logic_64 :: "u64 \<Rightarrow> lazyflags \<Rightarrow> lazyflags" where
  "set_oszapc_logic_64 r = set_oszapc 64 0 r"

definition set_oszapc_add_8 :: "u8 \<Rightarrow> u8 \<Rightarrow> u8 \<Rightarrow> lazyflags \<Rightarrow> lazyflags" where
  "set_oszapc_add_8 op1 op2 s =
     set_oszapc 8 (add_cout_vec (ucast op1) (ucast op2) (ucast s)) (ucast s)"

definition set_oszapc_add_16 :: "u16 \<Rightarrow> u16 \<Rightarrow> u16 \<Rightarrow> lazyflags \<Rightarrow> lazyflags" where
  "set_oszapc_add_16 op1 op2 s =
     set_oszapc 16 (add_cout_vec (ucast op1) (ucast op2) (ucast s)) (ucast s)"

definition set_oszapc_add_32 :: "u32 \<Rightarrow> u32 \<Rightarrow> u32 \<Rightarrow> lazyflags \<Rightarrow> lazyflags" where
  "set_oszapc_add_32 op1 op2 s =
     set_oszapc 32 (add_cout_vec (ucast op1) (ucast op2) (ucast s)) (ucast s)"

definition set_oszapc_add_64 :: "u64 \<Rightarrow> u64 \<Rightarrow> u64 \<Rightarrow> lazyflags \<Rightarrow> lazyflags" where
  "set_oszapc_add_64 op1 op2 s = set_oszapc 64 (add_cout_vec op1 op2 s) s"

definition set_oszapc_sub_8 :: "u8 \<Rightarrow> u8 \<Rightarrow> u8 \<Rightarrow> lazyflags \<Rightarrow> lazyflags" where
  "set_oszapc_sub_8 op1 op2 d =
     set_oszapc 8 (sub_cout_vec (ucast op1) (ucast op2) (ucast d)) (ucast d)"

definition set_oszapc_sub_16 :: "u16 \<Rightarrow> u16 \<Rightarrow> u16 \<Rightarrow> lazyflags \<Rightarrow> lazyflags" where
  "set_oszapc_sub_16 op1 op2 d =
     set_oszapc 16 (sub_cout_vec (ucast op1) (ucast op2) (ucast d)) (ucast d)"

definition set_oszapc_sub_32 :: "u32 \<Rightarrow> u32 \<Rightarrow> u32 \<Rightarrow> lazyflags \<Rightarrow> lazyflags" where
  "set_oszapc_sub_32 op1 op2 d =
     set_oszapc 32 (sub_cout_vec (ucast op1) (ucast op2) (ucast d)) (ucast d)"

definition set_oszapc_sub_64 :: "u64 \<Rightarrow> u64 \<Rightarrow> u64 \<Rightarrow> lazyflags \<Rightarrow> lazyflags" where
  "set_oszapc_sub_64 op1 op2 d = set_oszapc 64 (sub_cout_vec op1 op2 d) d"

definition set_oszap_add_8 :: "u8 \<Rightarrow> u8 \<Rightarrow> u8 \<Rightarrow> lazyflags \<Rightarrow> lazyflags" where
  "set_oszap_add_8 op1 op2 s =
     set_oszap 8 (add_cout_vec (ucast op1) (ucast op2) (ucast s)) (ucast s)"

definition set_oszap_add_16 :: "u16 \<Rightarrow> u16 \<Rightarrow> u16 \<Rightarrow> lazyflags \<Rightarrow> lazyflags" where
  "set_oszap_add_16 op1 op2 s =
     set_oszap 16 (add_cout_vec (ucast op1) (ucast op2) (ucast s)) (ucast s)"

definition set_oszap_add_32 :: "u32 \<Rightarrow> u32 \<Rightarrow> u32 \<Rightarrow> lazyflags \<Rightarrow> lazyflags" where
  "set_oszap_add_32 op1 op2 s =
     set_oszap 32 (add_cout_vec (ucast op1) (ucast op2) (ucast s)) (ucast s)"

definition set_oszap_add_64 :: "u64 \<Rightarrow> u64 \<Rightarrow> u64 \<Rightarrow> lazyflags \<Rightarrow> lazyflags" where
  "set_oszap_add_64 op1 op2 s = set_oszap 64 (add_cout_vec op1 op2 s) s"

definition set_oszap_sub_8 :: "u8 \<Rightarrow> u8 \<Rightarrow> u8 \<Rightarrow> lazyflags \<Rightarrow> lazyflags" where
  "set_oszap_sub_8 op1 op2 d =
     set_oszap 8 (sub_cout_vec (ucast op1) (ucast op2) (ucast d)) (ucast d)"

definition set_oszap_sub_16 :: "u16 \<Rightarrow> u16 \<Rightarrow> u16 \<Rightarrow> lazyflags \<Rightarrow> lazyflags" where
  "set_oszap_sub_16 op1 op2 d =
     set_oszap 16 (sub_cout_vec (ucast op1) (ucast op2) (ucast d)) (ucast d)"

definition set_oszap_sub_32 :: "u32 \<Rightarrow> u32 \<Rightarrow> u32 \<Rightarrow> lazyflags \<Rightarrow> lazyflags" where
  "set_oszap_sub_32 op1 op2 d =
     set_oszap 32 (sub_cout_vec (ucast op1) (ucast op2) (ucast d)) (ucast d)"

definition set_oszap_sub_64 :: "u64 \<Rightarrow> u64 \<Rightarrow> u64 \<Rightarrow> lazyflags \<Rightarrow> lazyflags" where
  "set_oszap_sub_64 op1 op2 d = set_oszap 64 (sub_cout_vec op1 op2 d) d"

section \<open>Getters\<close>

definition getb_of :: "lazyflags \<Rightarrow> u32" where
  "getb_of f = drop_bit LF_BIT_CF (ucast (lf_auxbits f) + push_bit LF_BIT_PO 1) AND 1"

definition getb_sf :: "lazyflags \<Rightarrow> u32" where
  "getb_sf f = (ucast (drop_bit BX_LF_SIGN_BIT (lf_result f))
                XOR drop_bit LF_BIT_SD (ucast (lf_auxbits f))) AND 1"

definition getb_zf :: "lazyflags \<Rightarrow> u32" where
  "getb_zf f = (if lf_result f = 0 then 1 else 0)"

definition getb_af :: "lazyflags \<Rightarrow> u32" where
  "getb_af f = drop_bit LF_BIT_AF (ucast (lf_auxbits f)) AND 1"

definition getb_pf :: "lazyflags \<Rightarrow> u32" where
  "getb_pf f =
     (let temp = (ucast (lf_result f) AND 0xFF)
                 XOR (drop_bit LF_BIT_PDB (ucast (lf_auxbits f)) AND 0xFF) :: u32;
          temp = (temp XOR drop_bit 4 temp) AND 0x0F
      in drop_bit (unat temp) 0x9669 AND 1)"

definition getb_cf :: "lazyflags \<Rightarrow> u32" where
  "getb_cf f = drop_bit LF_BIT_CF (ucast (lf_auxbits f)) AND 1"

section \<open>Setters of single flags\<close>

definition set_flags_oxxxxc :: "u32 \<Rightarrow> u32 \<Rightarrow> lazyflags \<Rightarrow> lazyflags" where
  "set_flags_oxxxxc new_of new_cf f =
     (let temp_po = new_of XOR new_cf in
      f\<lparr>lf_auxbits := ucast ((ucast (lf_auxbits f) AND NOT (LF_MASK_PO OR LF_MASK_CF))
                             OR push_bit LF_BIT_PO temp_po
                             OR push_bit LF_BIT_CF new_cf)\<rparr>)"

definition assert_flags_oxxxxc :: "lazyflags \<Rightarrow> lazyflags" where
  "assert_flags_oxxxxc f = set_flags_oxxxxc 1 1 f"

definition set_cf :: "bool \<Rightarrow> lazyflags \<Rightarrow> lazyflags" where
  "set_cf val f = set_flags_oxxxxc (getb_of f) (of_bool val) f"

definition set_of :: "bool \<Rightarrow> lazyflags \<Rightarrow> lazyflags" where
  "set_of val f = set_flags_oxxxxc (of_bool val) (getb_cf f) f"

definition set_sf :: "bool \<Rightarrow> lazyflags \<Rightarrow> lazyflags" where
  "set_sf val f =
     f\<lparr>lf_auxbits := lf_auxbits f XOR ucast (push_bit LF_BIT_SD (getb_sf f XOR of_bool val))\<rparr>"

definition set_zf :: "bool \<Rightarrow> lazyflags \<Rightarrow> lazyflags" where
  "set_zf val f =
     (if val then
        (let aux = lf_auxbits f
                   XOR ucast (push_bit LF_BIT_SD
                                (ucast (drop_bit BX_LF_SIGN_BIT (lf_result f)) AND 1 :: u32));
             temp_pdb = ucast (lf_result f) AND 0xFF :: u32;
             aux = aux XOR ucast (push_bit LF_BIT_PDB temp_pdb)
         in f\<lparr>lf_auxbits := aux, lf_result := 0\<rparr>)
      else f\<lparr>lf_result := lf_result f OR push_bit 8 1\<rparr>)"

definition set_af :: "bool \<Rightarrow> lazyflags \<Rightarrow> lazyflags" where
  "set_af val f =
     f\<lparr>lf_auxbits := ucast ((ucast (lf_auxbits f) AND NOT LF_MASK_AF)
                            OR push_bit LF_BIT_AF (of_bool val) :: u32)\<rparr>"

definition set_pf :: "bool \<Rightarrow> lazyflags \<Rightarrow> lazyflags" where
  "set_pf val f =
     (let temp_pdb = (ucast (lf_result f) AND 0xFF) XOR of_bool (\<not> val) :: u32 in
      f\<lparr>lf_auxbits := ucast ((ucast (lf_auxbits f) AND NOT LF_MASK_PDB)
                             OR push_bit LF_BIT_PDB temp_pdb)\<rparr>)"

end
