(* ===== verification/Carries.thy ===== *)
theory Carries
  imports Prelude
begin

text \<open>
  Carries of binary addition. The flag code never computes a carry directly: it recovers the
  carry out of every bit position from the two operands and the result. This theory proves
  that the recovered bit is the carry of the sum of the operands' low parts, that the bit
  recovered from a difference is the borrow, and that the carries into and out of the top
  position differ exactly when the signed result does not fit.
\<close>

section \<open>Carries of natural numbers\<close>

definition carry :: "nat \<Rightarrow> nat \<Rightarrow> bool \<Rightarrow> nat \<Rightarrow> bool" where
  "carry a b c n \<longleftrightarrow> 2 ^ n \<le> take_bit n a + take_bit n b + of_bool c"

lemma low_sum_bound: "take_bit n a + take_bit n b + of_bool c < 2 * 2 ^ n" for a b :: nat
proof -
  have "take_bit n a < 2 ^ n" "take_bit n b < 2 ^ n" by simp_all
  moreover have "(of_bool c :: nat) \<le> 1" by simp
  ultimately show ?thesis by linarith
qed

lemma carry_Suc:
  "carry a b c (Suc n) \<longleftrightarrow> bit a n \<and> bit b n \<or> (bit a n \<or> bit b n) \<and> carry a b c n"
proof -
  have l: "take_bit n a < 2 ^ n" "take_bit n b < 2 ^ n" "(of_bool c :: nat) \<le> 1" by simp_all
  show ?thesis
    unfolding carry_def take_bit_Suc_from_most
    using l by (cases "bit a n"; cases "bit b n"; simp; linarith)
qed

lemma bit_sum:
  "bit (a + b + of_bool c) n \<longleftrightarrow> (bit a n \<noteq> bit b n) \<noteq> carry a b c n" for a b :: nat
proof -
  let ?s = "take_bit n a + take_bit n b + of_bool c"
  have split: "x = 2 ^ n * (x div 2 ^ n) + take_bit n x" for x :: nat
    by (simp add: take_bit_eq_mod)
  have "a + b + of_bool c = ?s + 2 ^ n * (a div 2 ^ n + b div 2 ^ n)"
    using split [of a] split [of b] by (simp add: algebra_simps)
  then have "(a + b + of_bool c) div 2 ^ n = (a div 2 ^ n + b div 2 ^ n) + ?s div 2 ^ n"
    by (simp only:) (rule div_mult_self2, simp)
  moreover have "?s div 2 ^ n = of_bool (carry a b c n)"
    using low_sum_bound [of n a b c] by (auto simp: carry_def div_nat_eqI)
  ultimately show ?thesis by (auto simp: bit_iff_odd)
qed

lemma carry_out_bit:
  "carry a b c (Suc n) \<longleftrightarrow>
     bit a n \<and> bit b n \<or> (bit a n \<or> bit b n) \<and> \<not> bit (a + b + of_bool c) n"
  unfolding carry_Suc bit_sum by auto

section \<open>Carries of words\<close>

definition cout :: "'a::len word \<Rightarrow> 'a word \<Rightarrow> 'a word \<Rightarrow> 'a word" where
  "cout a b r = (a AND b) OR ((a OR b) AND NOT r)"

lemma unat_sum:
  "unat (a + b + of_bool c) = take_bit LENGTH('a) (unat a + unat b + of_bool c)"
  for a b :: "'a::len word"
proof -
  have "a + b + of_bool c = of_nat (unat a + unat b + of_bool c)" by simp
  then show ?thesis by (simp only: unsigned_of_nat of_nat_id)
qed

lemma bit_word_sum:
  "n < LENGTH('a) \<Longrightarrow>
     bit (a + b + of_bool c) n \<longleftrightarrow> (bit a n \<noteq> bit b n) \<noteq> carry (unat a) (unat b) c n"
  for a b :: "'a::len word"
proof -
  assume n: "n < LENGTH('a)"
  have "bit (a + b + of_bool c) n \<longleftrightarrow> bit (unat (a + b + of_bool c)) n"
    by (simp only: bit_unsigned_iff) (use n in simp)
  also have "\<dots> \<longleftrightarrow> bit (unat a + unat b + of_bool c) n"
    unfolding unat_sum by (simp only: bit_take_bit_iff n simp_thms)
  finally show ?thesis
    unfolding bit_sum by (simp add: bit_unsigned_iff n)
qed

lemma bit_cout:
  fixes a b r :: "'a::len word"
  assumes "r = a + b + of_bool c" "n < LENGTH('a)"
  shows "bit (cout a b r) n \<longleftrightarrow> carry (unat a) (unat b) c (Suc n)"
  unfolding cout_def carry_Suc
  using assms(2) bit_word_sum [OF assms(2), of a b c]
  by (simp add: assms(1) bit_and_iff bit_or_iff bit_not_iff bit_unsigned_iff; blast)

lemma sint_split:
  fixes a :: "'a::len word"
  assumes "LENGTH('a) = Suc n"
  shows "sint a = int (take_bit n (unat a)) - 2 ^ n * of_bool (bit a n)"
proof -
  have "sint a = signed_take_bit n (uint a)" by (simp add: sint_uint assms)
  also have "\<dots> = take_bit n (uint a) - 2 ^ n * of_bool (bit (uint a) n)"
    unfolding signed_take_bit_eq_take_bit_minus take_bit_Suc_from_most by simp
  finally show ?thesis by (simp add: bit_uint_iff of_nat_take_bit assms)
qed

lemma low_sum:
  "int (take_bit n (a + b + of_bool c))
   = int (take_bit n a + take_bit n b + of_bool c) - 2 ^ n * of_bool (carry a b c n)"
proof -
  let ?s = "take_bit n a + take_bit n b + of_bool c"
  have "take_bit n (a + b + of_bool c) = take_bit n ?s"
    unfolding take_bit_eq_mod by (metis mod_add_eq mod_add_left_eq)
  also have "\<dots> = (if carry a b c n then ?s - 2 ^ n else ?s)"
    using low_sum_bound [of n a b c] by (simp add: carry_def take_bit_eq_mod le_mod_geq)
  finally show ?thesis by (auto simp: carry_def of_nat_diff)
qed

lemma signed_overflow:
  fixes a b :: "'a::len word"
  assumes n: "LENGTH('a) = Suc n"
  shows "carry (unat a) (unat b) c (Suc n) \<noteq> carry (unat a) (unat b) c n
         \<longleftrightarrow> sint (a + b + of_bool c) \<noteq> sint a + sint b + of_bool c"
proof -
  let ?C = "carry (unat a) (unat b) c n" and ?r = "a + b + of_bool c"
  have "take_bit n (unat ?r) = take_bit n (unat a + unat b + of_bool c)"
    unfolding unat_sum by (simp only: take_bit_take_bit n min_def) simp
  then have r: "sint ?r = int (take_bit n (unat a) + take_bit n (unat b) + of_bool c)
      - 2 ^ n * of_bool ?C - 2 ^ n * of_bool ((bit a n \<noteq> bit b n) \<noteq> ?C)"
    using bit_word_sum [of n a b c] by (simp only: sint_split [OF n] low_sum) (simp add: n)
  have "(2::int) ^ n \<noteq> 0" by simp
  then show ?thesis
    unfolding r sint_split [OF n, of a] sint_split [OF n, of b] carry_Suc
    by (cases "bit a n"; cases "bit b n"; cases ?C) (simp_all add: bit_unsigned_iff n)
qed

text \<open>
  A difference is read backwards: the minuend is the sum of the difference, the subtrahend and
  the borrow, so the carries of that sum are the borrows of the difference.
\<close>

lemma carry_borrow:
  assumes "take_bit n a = take_bit n (r + b + of_bool c)"
  shows "carry r b c n \<longleftrightarrow> take_bit n a < take_bit n b + of_bool c"
proof -
  have "int (take_bit n a)
    = int (take_bit n r + take_bit n b + of_bool c) - 2 ^ n * of_bool (carry r b c n)"
    unfolding assms by (rule low_sum)
  moreover have "int (take_bit n r) < 2 ^ n" by (simp flip: of_nat_take_bit)
  ultimately have "carry r b c n \<longleftrightarrow> int (take_bit n a) < int (take_bit n b + of_bool c)"
    by (cases "carry r b c n") auto
  then show ?thesis by linarith
qed

end
