(* ===== verification/Lazy_Flags_Laws.thy ===== *)
theory Lazy_Flags_Laws
  imports Lazy_Flags Carries
begin

text \<open>
  The six arithmetic flags as one value, and the flags of the entry that each setter of
  \<^verbatim>\<open>lazy_flags.rs\<close> leaves. The getters are first read as statements about single bits of the
  two words of an entry; the setters of one flag then change that flag and no other one, and
  the setters of a whole operation give the flags the processor architecture defines for an
  addition, a subtraction and a bitwise operation at each width.
\<close>

section \<open>The flags of an entry\<close>

record flags =
  fl_cf :: bool
  fl_pf :: bool
  fl_af :: bool
  fl_zf :: bool
  fl_sf :: bool
  fl_of :: bool

definition flags_of :: "lazyflags \<Rightarrow> flags" where
  "flags_of f = \<lparr>fl_cf = getb_cf f \<noteq> 0, fl_pf = getb_pf f \<noteq> 0, fl_af = getb_af f \<noteq> 0,
                 fl_zf = getb_zf f \<noteq> 0, fl_sf = getb_sf f \<noteq> 0, fl_of = getb_of f \<noteq> 0\<rparr>"

text \<open>The parity flag reports an even number of ones in the low byte.\<close>

definition even_parity :: "'a::len word \<Rightarrow> bool" where
  "even_parity w \<longleftrightarrow> even (\<Sum>i<8. of_bool (bit w i) :: nat)"

lemma even_parity_cong:
  "(\<And>i. i < 8 \<Longrightarrow> bit v i = bit w i) \<Longrightarrow> even_parity v = even_parity w"
  for v :: "'a::len word" and w :: "'b::len word"
  unfolding even_parity_def by (intro arg_cong [of _ _ even] sum.cong) simp_all

section \<open>Getters as single bits\<close>

lemma and_1_of_bool: "w AND 1 = of_bool (bit w 0)" for w :: "'a::len word"
  by (rule bit_word_eqI) (auto simp: bit_simps)

lemma getb_cf_bit: "getb_cf f = of_bool (bit (lf_auxbits f) 31)"
  by (simp add: getb_cf_def and_1_of_bool bit_simps)

lemma getb_af_bit: "getb_af f = of_bool (bit (lf_auxbits f) 3)"
  by (simp add: getb_af_def and_1_of_bool bit_simps)

lemma getb_sf_bit: "getb_sf f = of_bool (bit (lf_result f) 63 \<noteq> bit (lf_auxbits f) 0)"
  by (simp add: getb_sf_def and_1_of_bool bit_simps)

lemma getb_zf_of_bool: "getb_zf f = of_bool (lf_result f = 0)"
  by (simp add: getb_zf_def)

lemma bit31_add_bit30: "bit (w + push_bit 30 1) 31 \<longleftrightarrow> bit w 31 \<noteq> bit w 30" for w :: u32
proof -
  have q: "drop_bit 30 (unat (w + 2 ^ 30)) = (drop_bit 30 (unat w) + 1) mod 4"
    using mod_mult2_eq [of "unat w + 1073741824" 1073741824 4]
      div_add_self2 [of 1073741824 "unat w"]
    by (simp add: unat_word_ariths drop_bit_eq_div)
  let ?n = "drop_bit 30 (unat w)"
  have "?n < 4" using unat_bound [of w] by (simp add: drop_bit_eq_div)
  then consider "?n = 0" | "?n = 1" | "?n = 2" | "?n = 3" by linarith
  note c = this
  have b: "bit w 31 = bit ?n 1" "bit w 30 = bit ?n 0"
    by (simp_all add: bit_unsigned_iff bit_drop_bit_eq)
  have "bit (w + 2 ^ 30) 31 = bit (drop_bit 30 (unat (w + 2 ^ 30))) 1"
    by (simp add: bit_unsigned_iff bit_drop_bit_eq)
  also have "\<dots> = (bit ?n 1 \<noteq> bit ?n 0)"
    unfolding q using c by cases (simp_all add: bit_iff_odd)
  finally show ?thesis by (simp add: b push_bit_of_1)
qed

lemma getb_of_bit: "getb_of f = of_bool (bit (lf_auxbits f) 31 \<noteq> bit (lf_auxbits f) 30)"
proof -
  have "getb_of f = of_bool (bit (ucast (lf_auxbits f) + push_bit 30 1 :: u32) 31)"
    by (simp add: getb_of_def and_1_of_bool bit_drop_bit_eq del: push_bit_of_1)
  then show ?thesis
    by (simp only: bit31_add_bit30) (simp add: bit_simps)
qed

lemma mod_16_digits:
  "n mod 16 = of_bool (bit n 0) + 2 * of_bool (bit n 1) + 4 * of_bool (bit n 2)
              + 8 * of_bool (bit n 3)" for n :: nat
proof -
  have "n mod 16 = take_bit (Suc (Suc (Suc (Suc 0)))) n" by (simp add: take_bit_eq_mod)
  also have "\<dots> = of_bool (bit n 0) + 2 * of_bool (bit n 1) + 4 * of_bool (bit n 2)
              + 8 * of_bool (bit n 3)"
    by (simp only: take_bit_Suc) (simp add: bit_iff_odd div_mult2_eq [symmetric] mod2_eq_if)
  finally show ?thesis .
qed

lemma unat_and_15: "unat (v AND 0x0F) = unat v mod 16" for v :: u32
proof -
  have "v AND 0x0F = take_bit 4 v" by (simp add: take_bit_eq_mask mask_eq_exp_minus_1)
  then show ?thesis by (simp only: unsigned_take_bit_eq) (simp add: take_bit_eq_mod)
qed

lemma sum_less_8: "(\<Sum>i<8. g i) = g 0 + g 1 + g 2 + g 3 + g 4 + g 5 + g 6 + g (7::nat)"
  for g :: "nat \<Rightarrow> nat"
  by (simp add: eval_nat_numeral)

lemma even_parity_unfold:
  "even_parity w \<longleftrightarrow> (bit w 0 = (bit w 1 = (bit w 2 = (bit w 3 = (bit w 4 = (bit w 5 =
     (bit w 6 = bit w 7)))))))" for w :: "'a::len word"
  by (simp only: even_parity_def sum_less_8) auto

text \<open>The 16 entries of the parity table, and the folding of the byte on its low half.\<close>

lemma parity_table:
  "bit (0x9669 :: u32)
     (of_bool a + 2 * of_bool b + 4 * of_bool c + 8 * of_bool d :: nat)
   \<longleftrightarrow> even (of_bool a + of_bool b + of_bool c + of_bool d :: nat)"
  by (cases a; cases b; cases c; cases d) (simp_all add: bit_numeral_rec)

lemma folded_parity:
  fixes t :: u32
  assumes "\<And>i. 8 \<le> i \<Longrightarrow> \<not> bit t i"
  shows "bit (0x9669 :: u32) (unat ((t XOR drop_bit 4 t) AND 0x0F)) \<longleftrightarrow> even_parity t"
proof -
  let ?v = "t XOR drop_bit 4 t"
  have "unat (?v AND 0x0F) = unat ?v mod 16" by (rule unat_and_15)
  then have "unat (?v AND 0x0F)
    = of_bool (bit ?v 0) + 2 * of_bool (bit ?v 1) + 4 * of_bool (bit ?v 2) + 8 * of_bool (bit ?v 3)"
    by (simp add: mod_16_digits bit_unsigned_iff)
  then show ?thesis
    by (simp only: parity_table)
       (simp add: even_parity_unfold bit_simps; blast)
qed

lemma getb_pf_bit:
  "getb_pf f = of_bool (even_parity (lf_result f XOR drop_bit 8 (lf_auxbits f)))"
proof -
  let ?t = "(ucast (lf_result f) AND 0xFF) XOR (drop_bit 8 (ucast (lf_auxbits f)) AND 0xFF) :: u32"
  have m: "(0xFF :: u32) = mask 8" by (simp add: mask_eq_exp_minus_1)
  have b: "bit ?t i \<longleftrightarrow> i < 8 \<and> (bit (lf_result f) i \<noteq> bit (lf_auxbits f) (8 + i))" for i
    unfolding m by (auto simp: bit_simps)
  have "getb_pf f = of_bool (bit (0x9669 :: u32) (unat ((?t XOR drop_bit 4 ?t) AND 0x0F)))"
    by (simp add: getb_pf_def Let_def and_1_of_bool bit_drop_bit_eq)
  also have "\<dots> = of_bool (even_parity ?t)"
    using b by (subst folded_parity) auto
  also have "even_parity ?t = even_parity (lf_result f XOR drop_bit 8 (lf_auxbits f))"
    by (rule even_parity_cong) (simp only: b, simp add: bit_simps)
  finally show ?thesis .
qed

lemmas getb_bits = getb_cf_bit getb_pf_bit getb_af_bit getb_zf_of_bool getb_sf_bit getb_of_bit

lemma flags_of_bits:
  "flags_of f = \<lparr>fl_cf = bit (lf_auxbits f) 31,
     fl_pf = even_parity (lf_result f XOR drop_bit 8 (lf_auxbits f)),
     fl_af = bit (lf_auxbits f) 3, fl_zf = lf_result f = 0,
     fl_sf = bit (lf_result f) 63 \<noteq> bit (lf_auxbits f) 0,
     fl_of = bit (lf_auxbits f) 31 \<noteq> bit (lf_auxbits f) 30\<rparr>"
  by (simp add: flags_of_def getb_bits)

section \<open>Setters of single flags\<close>

text \<open>
  Each setter is described by the two words it leaves, bit by bit; the flags follow from
  \<open>flags_of_bits\<close>.
\<close>

lemmas lf_masks = LF_MASK_SD_def LF_MASK_AF_def LF_MASK_PDB_def LF_MASK_CF_def LF_MASK_PO_def

lemma bit_LF_MASK_PDB [bits]: "bit LF_MASK_PDB n \<longleftrightarrow> 8 \<le> n \<and> n < 16"
proof -
  have m: "LF_MASK_PDB = push_bit 8 (mask 8)" by (simp add: LF_MASK_PDB_def mask_eq_exp_minus_1)
  show ?thesis unfolding m by (auto simp: bit_simps)
qed

lemma bit_LF_MASKs [bits]:
  "bit LF_MASK_SD n \<longleftrightarrow> n = 0" "bit LF_MASK_AF n \<longleftrightarrow> n = 3"
  "bit LF_MASK_PO n \<longleftrightarrow> n = 30" "bit LF_MASK_CF n \<longleftrightarrow> n = 31"
  by (auto simp: LF_MASK_SD_def LF_MASK_AF_def LF_MASK_PO_def LF_MASK_CF_def bit_simps
      simp del: push_bit_of_1)

lemma bit_of_bool_0: "bit (of_bool b :: 'a::len word) n \<longleftrightarrow> b \<and> n = 0"
  by (auto simp: bit_simps)

lemma flags_set_oxxxxc:
  "flags_of (set_flags_oxxxxc (of_bool o') (of_bool c) f) = (flags_of f)\<lparr>fl_of := o', fl_cf := c\<rparr>"
  by (simp add: flags_of_bits set_flags_oxxxxc_def Let_def bit_simps bits even_parity_unfold
      del: push_bit_of_1; auto)

lemma flags_set_of: "flags_of (set_of v f) = (flags_of f)\<lparr>fl_of := v\<rparr>"
proof -
  have "getb_cf f = of_bool (fl_cf (flags_of f))" by (simp add: flags_of_bits getb_cf_bit)
  then show ?thesis by (simp only: set_of_def flags_set_oxxxxc) simp
qed

lemma flags_set_cf: "flags_of (set_cf v f) = (flags_of f)\<lparr>fl_cf := v\<rparr>"
proof -
  have "getb_of f = of_bool (fl_of (flags_of f))" by (simp add: flags_of_bits getb_of_bit)
  then show ?thesis by (simp only: set_cf_def flags_set_oxxxxc) simp
qed

lemma flags_set_sf: "flags_of (set_sf v f) = (flags_of f)\<lparr>fl_sf := v\<rparr>"
  by (simp add: flags_of_bits set_sf_def getb_sf_bit bit_simps even_parity_unfold; auto)

lemma flags_set_af: "flags_of (set_af v f) = (flags_of f)\<lparr>fl_af := v\<rparr>"
  by (simp add: flags_of_bits set_af_def bit_simps bits even_parity_unfold; auto)

lemma bit_255 [bits]: "bit (0xFF :: u32) n \<longleftrightarrow> n < 8"
proof -
  have m: "(0xFF :: u32) = mask 8" by (simp add: mask_eq_exp_minus_1)
  show ?thesis unfolding m by (auto simp: bit_simps)
qed

lemma bit_65280 [bits]: "bit (0xFF00 :: int) n \<longleftrightarrow> 8 \<le> n \<and> n < 16"
proof -
  have m: "(0xFF00 :: int) = push_bit 8 (mask 8)" by (simp add: mask_eq_exp_minus_1)
  show ?thesis unfolding m by (auto simp: bit_simps)
qed

lemma flags_set_pf: "flags_of (set_pf v f) = (flags_of f)\<lparr>fl_pf := v\<rparr>"
  by (simp add: flags_of_bits set_pf_def Let_def bit_simps bits even_parity_unfold; auto)

lemma flags_set_zf: "flags_of (set_zf v f) = (flags_of f)\<lparr>fl_zf := v\<rparr>"
proof (cases v)
  case True
  let ?g = "set_zf True f"
  have aux: "bit (lf_auxbits ?g) n \<longleftrightarrow> bit (lf_auxbits f) n
     \<noteq> (n = 0 \<and> bit (lf_result f) 63 \<or> 8 \<le> n \<and> n < 16 \<and> bit (lf_result f) (n - 8))"
    if "n < 32" for n
    using that by (cases "n = 0") (auto simp: set_zf_def Let_def bit_simps bits dest: bit_imp_le_length)
  have res: "lf_result ?g = 0" by (simp add: set_zf_def Let_def)
  have "even_parity (lf_result ?g XOR drop_bit 8 (lf_auxbits ?g))
        = even_parity (lf_result f XOR drop_bit 8 (lf_auxbits f))"
    by (rule even_parity_cong) (simp add: bit_xor_iff bit_drop_bit_eq res aux, blast)
  with True show ?thesis
    by (simp add: flags_of_bits aux) (simp add: res, blast)
next
  case False
  have "bit (lf_result f OR push_bit 8 1) 8" by (simp add: bit_simps)
  then have "lf_result f OR push_bit 8 1 \<noteq> 0" by (metis bit_0_eq bot_apply bot_bool_def)
  with False show ?thesis
    by (simp add: flags_of_bits set_zf_def bit_simps even_parity_unfold)
qed

lemmas flags_setters = flags_set_of flags_set_cf flags_set_sf flags_set_af flags_set_pf flags_set_zf

section \<open>The architectural flags of an operation\<close>

text \<open>
  What the processor manuals define: CF is the carry or borrow out of the operand width, AF
  the one out of the low four bits, OF says that the signed result does not fit, and SF, ZF
  and PF describe the result. A bitwise operation clears CF and OF (and AF, which the manuals
  leave undefined).
\<close>

definition add_flags :: "'a::len word \<Rightarrow> 'a word \<Rightarrow> bool \<Rightarrow> flags" where
  "add_flags a b c = (let r = a + b + of_bool c in
     \<lparr>fl_cf = 2 ^ LENGTH('a) \<le> unat a + unat b + of_bool c, fl_pf = even_parity r,
      fl_af = 16 \<le> unat a mod 16 + unat b mod 16 + of_bool c, fl_zf = r = 0,
      fl_sf = sint r < 0, fl_of = sint r \<noteq> sint a + sint b + of_bool c\<rparr>)"

definition sub_flags :: "'a::len word \<Rightarrow> 'a word \<Rightarrow> bool \<Rightarrow> flags" where
  "sub_flags a b c = (let r = a - b - of_bool c in
     \<lparr>fl_cf = unat a < unat b + of_bool c, fl_pf = even_parity r,
      fl_af = unat a mod 16 < unat b mod 16 + of_bool c, fl_zf = r = 0,
      fl_sf = sint r < 0, fl_of = sint r \<noteq> sint a - sint b - of_bool c\<rparr>)"

definition logic_flags :: "'a::len word \<Rightarrow> flags" where
  "logic_flags r = \<lparr>fl_cf = False, fl_pf = even_parity r, fl_af = False, fl_zf = r = 0,
                    fl_sf = sint r < 0, fl_of = False\<rparr>"

text \<open>The flags read from a result and a vector of carries.\<close>

definition vec_flags :: "'a::len word \<Rightarrow> 'a word \<Rightarrow> flags" where
  "vec_flags v r = \<lparr>fl_cf = bit v (LENGTH('a) - 1), fl_pf = even_parity r, fl_af = bit v 3,
     fl_zf = r = 0, fl_sf = sint r < 0,
     fl_of = bit v (LENGTH('a) - 1) \<noteq> bit v (LENGTH('a) - 2)\<rparr>"

lemma vec_flags_add:
  fixes a b :: "'a::len word"
  assumes "8 \<le> LENGTH('a)"
  shows "vec_flags (cout a b (a + b + of_bool c)) (a + b + of_bool c) = add_flags a b c"
    (is "vec_flags (cout a b ?r) _ = _")
proof -
  obtain n where n: "LENGTH('a) = Suc (Suc n)"
    using assms by (intro that [of "LENGTH('a) - 2"]) simp
  have b: "m < LENGTH('a) \<Longrightarrow> bit (cout a b ?r) m \<longleftrightarrow> carry (unat a) (unat b) c (Suc m)" for m
    by (rule bit_cout) simp
  have cf: "bit (cout a b ?r) (Suc n) \<longleftrightarrow> 2 ^ LENGTH('a) \<le> unat a + unat b + of_bool c"
    using n unat_bound [of a] unat_bound [of b]
    by (simp add: b carry_def take_bit_nat_eq_self del: power_Suc)
  have af: "bit (cout a b ?r) 3 \<longleftrightarrow> 16 \<le> unat a mod 16 + unat b mod 16 + of_bool c"
    using assms by (simp add: b carry_def take_bit_eq_mod)
  have "bit (cout a b ?r) (Suc n) \<noteq> bit (cout a b ?r) n
        \<longleftrightarrow> sint ?r \<noteq> sint a + sint b + of_bool c"
    using n b [of "Suc n"] b [of n] signed_overflow [OF n, of a b c] by simp
  then show ?thesis
    using cf af by (simp add: vec_flags_def add_flags_def Let_def n)
qed

lemma vec_flags_sub:
  fixes a b :: "'a::len word"
  assumes "8 \<le> LENGTH('a)"
  shows "vec_flags (cout (a - b - of_bool c) b a) (a - b - of_bool c) = sub_flags a b c"
proof -
  define r where "r = a - b - of_bool c"
  have a: "r + b + of_bool c = a" by (simp add: r_def)
  have low: "take_bit n (unat a) = take_bit n (unat r + unat b + of_bool c)" if "n \<le> LENGTH('a)" for n
    using unat_sum [of r b c] that by (simp only: a) simp
  have borrow: "carry (unat r) (unat b) c n \<longleftrightarrow>
      take_bit n (unat a) < take_bit n (unat b) + of_bool c" if "n \<le> LENGTH('a)" for n
    by (rule carry_borrow [OF low [OF that]])
  have "vec_flags (cout r b a) a = add_flags r b c"
    using vec_flags_add [OF assms, of r b c] by (simp only: a)
  then have v: "fl_cf (vec_flags (cout r b a) a) = (2 ^ LENGTH('a) \<le> unat r + unat b + of_bool c)"
      "fl_af (vec_flags (cout r b a) a) = (16 \<le> unat r mod 16 + unat b mod 16 + of_bool c)"
      "fl_of (vec_flags (cout r b a) a) = (sint a \<noteq> sint r + sint b + of_bool c)"
    by (simp_all add: add_flags_def Let_def a)
  have cf: "2 ^ LENGTH('a) \<le> unat r + unat b + of_bool c \<longleftrightarrow> unat a < unat b + of_bool c"
    using borrow [of "LENGTH('a)"] unat_bound [of a] unat_bound [of b] unat_bound [of r]
    by (simp add: carry_def take_bit_nat_eq_self)
  have af: "16 \<le> unat r mod 16 + unat b mod 16 + of_bool c
      \<longleftrightarrow> unat a mod 16 < unat b mod 16 + of_bool c"
    using borrow [of 4] assms by (simp add: carry_def take_bit_eq_mod)
  show ?thesis
    using v unfolding cf af
    by (simp add: vec_flags_def sub_flags_def Let_def flip: r_def) auto
qed

lemma vec_flags_0: "vec_flags 0 r = logic_flags r"
  by (simp add: vec_flags_def logic_flags_def)

text \<open>Increment and decrement are computed with a carry in; it stands for the operand one.\<close>

lemma small_one:
  assumes "8 \<le> LENGTH('a)"
  shows "sint (1 :: 'a::len word) = 1" "unat (1 :: 'a::len word) mod 16 = 1"
  using assms by simp_all

lemma add_flags_one: "8 \<le> LENGTH('a) \<Longrightarrow> add_flags a 0 True = add_flags a 1 False"
  for a :: "'a::len word"
  by (simp add: add_flags_def Let_def small_one)

lemma sub_flags_one: "8 \<le> LENGTH('a) \<Longrightarrow> sub_flags a 0 True = sub_flags a 1 False"
  for a :: "'a::len word"
  by (simp add: sub_flags_def Let_def small_one)

section \<open>The setters of a whole operation\<close>

text \<open>
  The interface the instruction handlers of one width rely on. The setters of that width
  store the carry vector of the addition or subtraction that produced the result; the two
  setters of INC and DEC do the same and leave CF alone.
\<close>

locale alu_flags =
  fixes add_fl sub_fl inc_fl dec_fl ::
      "'a::len word \<Rightarrow> 'a word \<Rightarrow> 'a word \<Rightarrow> lazyflags \<Rightarrow> lazyflags"
    and logic_fl :: "'a word \<Rightarrow> lazyflags \<Rightarrow> lazyflags"
  assumes width: "8 \<le> LENGTH('a)"
    and add_fl: "flags_of (add_fl a b r f) = vec_flags (cout a b r) r"
    and sub_fl: "flags_of (sub_fl a b r f) = vec_flags (cout r b a) r"
    and inc_fl: "flags_of (inc_fl a b r f)
                 = (vec_flags (cout a b r) r)\<lparr>fl_cf := fl_cf (flags_of f)\<rparr>"
    and dec_fl: "flags_of (dec_fl a b r f)
                 = (vec_flags (cout r b a) r)\<lparr>fl_cf := fl_cf (flags_of f)\<rparr>"
    and logic_fl: "flags_of (logic_fl r f) = vec_flags 0 r"
begin

lemma adc: "flags_of (add_fl a b (a + b + of_bool c) f) = add_flags a b c"
  by (simp only: add_fl vec_flags_add [OF width])

lemma sbb: "flags_of (sub_fl a b (a - b - of_bool c) f) = sub_flags a b c"
  by (simp only: sub_fl vec_flags_sub [OF width])

lemma adc_set: "flags_of (add_fl a b (a + b + 1) f) = add_flags a b True"
  using adc [of a b True] by simp

lemma sbb_set: "flags_of (sub_fl a b (a - b - 1) f) = sub_flags a b True"
  using sbb [of a b True] by simp

lemma add: "flags_of (add_fl a b (a + b) f) = add_flags a b False"
  using adc [of a b False] by simp

lemma sub: "flags_of (sub_fl a b (a - b) f) = sub_flags a b False"
  using sbb [of a b False] by simp

lemma sub_self: "flags_of (sub_fl a a 0 f) = sub_flags a a False"
  using sub [of a a] by simp

lemma adc_keeping:
  "flags_of (inc_fl a b (a + b + of_bool c) f) = (add_flags a b c)\<lparr>fl_cf := fl_cf (flags_of f)\<rparr>"
  by (simp only: inc_fl vec_flags_add [OF width])

lemma sbb_keeping:
  "flags_of (dec_fl a b (a - b - of_bool c) f) = (sub_flags a b c)\<lparr>fl_cf := fl_cf (flags_of f)\<rparr>"
  by (simp only: dec_fl vec_flags_sub [OF width])

lemma inc: "flags_of (inc_fl a 0 (a + 1) f)
    = (add_flags a 1 False)\<lparr>fl_cf := fl_cf (flags_of f)\<rparr>"
  using adc_keeping [of a 0 True f] add_flags_one [OF width, of a] by simp

lemma dec: "flags_of (dec_fl a 0 (a - 1) f)
    = (sub_flags a 1 False)\<lparr>fl_cf := fl_cf (flags_of f)\<rparr>"
  using sbb_keeping [of a 0 True f] sub_flags_one [OF width, of a] by simp

lemma logic: "flags_of (logic_fl r f) = logic_flags r"
  by (simp only: logic_fl vec_flags_0)

end

text \<open>
  The four widths. Zero extension, the packing of the top two carries and of the carry out of
  bit 3, and the sign extension of the result are undone here once per width.
\<close>

lemma sub_cout_vec_backwards: "sub_cout_vec a b r = add_cout_vec r b a"
  by (rule bit_word_eqI) (auto simp: sub_cout_vec_def add_cout_vec_def bit_simps)

lemma bit_add_cout_vec:
  "bit (add_cout_vec (ucast a) (ucast b) (ucast r)) n \<longleftrightarrow> n < 64 \<and> bit (cout a b r) n"
  for a b r :: "'a::len word"
  by (auto simp: add_cout_vec_def cout_def bit_simps dest: bit_imp_le_length)

lemma sint_neg_bit: "LENGTH('a) = Suc n \<Longrightarrow> sint w < 0 \<longleftrightarrow> bit w n" for w :: "'a::len word"
  by (simp add: bit_last_iff [symmetric])

lemma bit_scast_low:
  fixes w :: "'a::len word"
  assumes "i < LENGTH('a)" "LENGTH('a) \<le> LENGTH('b)"
  shows "bit (scast w :: 'b::len word) i \<longleftrightarrow> bit w i"
proof -
  have "min (LENGTH('a) - 1) i = i" using assms(1) by simp
  with assms show ?thesis by (simp add: bit_signed_iff)
qed

lemma scast_eq_0:
  fixes w :: "'a::len word"
  assumes "LENGTH('a) \<le> LENGTH('b)" "(scast w :: 'b::len word) = 0"
  shows "w = 0"
proof (rule bit_word_eqI)
  fix n assume "n < LENGTH('a)"
  then have "bit w n \<longleftrightarrow> bit (scast w :: 'b word) n"
    using assms(1) by (simp add: bit_scast_low)
  then show "bit w n \<longleftrightarrow> bit 0 n" by (simp add: assms(2))
qed

lemma flags_of_packed:
  fixes r v :: "'a::len word" and t :: u32
  assumes n: "LENGTH('a) = Suc (Suc n)" and w: "8 \<le> LENGTH('a)" "LENGTH('a) \<le> 64"
    and t: "bit t 31 = bit v (Suc n)" "bit t 30 = bit v n" "bit t 3 = bit v 3" "\<not> bit t 0"
    and pdb: "\<And>i. 8 \<le> i \<Longrightarrow> i < 16 \<Longrightarrow> \<not> bit t i"
    and f: "lf_result f = scast r" "lf_auxbits f = ucast t"
  shows "flags_of f = vec_flags v r"
proof -
  have "even_parity (lf_result f XOR drop_bit 8 (lf_auxbits f)) = even_parity r"
    by (rule even_parity_cong)
       (use w in \<open>simp add: f bit_xor_iff bit_drop_bit_eq bit_unsigned_iff bit_scast_low pdb\<close>)
  moreover have "lf_result f = 0 \<longleftrightarrow> r = 0" using w f scast_eq_0 [of r, where 'b = 64] by auto
  moreover have "bit (lf_result f) 63 \<longleftrightarrow> bit r (Suc n)"
    using w n by (simp add: f bit_signed_iff min_def)
  ultimately show ?thesis
    by (simp add: flags_of_bits vec_flags_def n sint_neg_bit f bit_unsigned_iff t)
qed

lemma set_oszapc_8: "flags_of (set_oszapc 8 v (ucast r) f) = vec_flags (ucast v) r" for r :: u8
  by (rule flags_of_packed [where n = 6 and t = "lf_pack 8 v"])
     (auto simp: set_oszapc_def lf_extend_def lf_pack_def Let_def ucast_up_down bit_simps bits)

lemma set_oszapc_16: "flags_of (set_oszapc 16 v (ucast r) f) = vec_flags (ucast v) r" for r :: u16
  by (rule flags_of_packed [where n = 14 and t = "lf_pack 16 v"])
     (auto simp: set_oszapc_def lf_extend_def lf_pack_def Let_def ucast_up_down bit_simps bits)

lemma set_oszapc_32: "flags_of (set_oszapc 32 v (ucast r) f) = vec_flags (ucast v) r" for r :: u32
  by (rule flags_of_packed [where n = 30 and t = "lf_pack 32 v"])
     (auto simp: set_oszapc_def lf_extend_def lf_pack_def Let_def ucast_up_down bit_simps bits)

lemma set_oszapc_64: "flags_of (set_oszapc 64 v r f) = vec_flags v r"
  by (rule flags_of_packed [where n = 62 and t = "lf_pack 64 v"])
     (auto simp: set_oszapc_def lf_extend_def lf_pack_def Let_def bit_simps bits)

text \<open>The carry-preserving form differs from the other one in CF only.\<close>

lemma set_oszap_keeps_cf:
  "flags_of (set_oszap sz v r f)
   = (flags_of (set_oszapc sz v r f))\<lparr>fl_cf := fl_cf (flags_of f)\<rparr>"
proof -
  define t where "t = lf_pack sz v"
  define d where "d = (let d = (ucast (lf_auxbits f) XOR t) AND LF_MASK_CF in d XOR drop_bit 1 d)"
  have d: "bit d n \<longleftrightarrow> (n = 30 \<or> n = 31) \<and> bit (lf_auxbits f) 31 \<noteq> bit t 31" for n
    by (auto simp: d_def Let_def bit_simps bits)
  have g: "set_oszap sz v r f = f\<lparr>lf_result := lf_extend sz r, lf_auxbits := ucast (t XOR d)\<rparr>"
    by (simp add: set_oszap_def d_def t_def Let_def)
  have "even_parity (lf_extend sz r XOR drop_bit 8 (ucast (t XOR d) :: u64))
      = even_parity (lf_extend sz r XOR drop_bit 8 (ucast t :: u64))"
    by (rule even_parity_cong) (simp add: bit_unsigned_iff bit_drop_bit_eq bit_xor_iff d)
  then show ?thesis
    by (simp add: flags_of_bits g set_oszapc_def bit_unsigned_iff flip: t_def)
       (simp add: bit_xor_iff d, blast)
qed

lemmas flag_setters =
  set_oszapc_add_8_def set_oszapc_sub_8_def set_oszapc_logic_8_def
  set_oszap_add_8_def set_oszap_sub_8_def
  set_oszapc_add_16_def set_oszapc_sub_16_def set_oszapc_logic_16_def
  set_oszap_add_16_def set_oszap_sub_16_def
  set_oszapc_add_32_def set_oszapc_sub_32_def set_oszapc_logic_32_def
  set_oszap_add_32_def set_oszap_sub_32_def
  set_oszapc_add_64_def set_oszapc_sub_64_def set_oszapc_logic_64_def
  set_oszap_add_64_def set_oszap_sub_64_def

lemma ucast_add_cout_vec:
  "LENGTH('a) \<le> 64 \<Longrightarrow> ucast (add_cout_vec (ucast a) (ucast b) (ucast r)) = cout a b r"
  for a b r :: "'a::len word"
  by (rule bit_word_eqI) (simp add: bit_unsigned_iff bit_add_cout_vec)

lemma add_cout_vec_64: "add_cout_vec a b r = cout a b r"
  by (simp add: add_cout_vec_def cout_def)

lemmas width_laws = flag_setters set_oszap_keeps_cf sub_cout_vec_backwards ucast_add_cout_vec
  set_oszapc_8 set_oszapc_16 set_oszapc_32 set_oszapc_64

interpretation alu8: alu_flags set_oszapc_add_8 set_oszapc_sub_8 set_oszap_add_8 set_oszap_sub_8
    set_oszapc_logic_8
  by unfold_locales (simp_all add: width_laws)

interpretation alu16: alu_flags set_oszapc_add_16 set_oszapc_sub_16 set_oszap_add_16
    set_oszap_sub_16 set_oszapc_logic_16
  by unfold_locales (simp_all add: width_laws)

interpretation alu32: alu_flags set_oszapc_add_32 set_oszapc_sub_32 set_oszap_add_32
    set_oszap_sub_32 set_oszapc_logic_32
  by unfold_locales (simp_all add: width_laws)

interpretation alu64: alu_flags set_oszapc_add_64 set_oszapc_sub_64 set_oszap_add_64
    set_oszap_sub_64 set_oszapc_logic_64
  by unfold_locales (simp_all add: width_laws add_cout_vec_64)

lemmas alu_exact = alu8.add alu8.sub alu8.adc_set alu8.sbb_set alu8.inc alu8.dec alu8.logic
  alu16.add alu16.sub alu16.adc_set alu16.sbb_set alu16.inc alu16.dec alu16.logic
  alu32.add alu32.sub alu32.adc_set alu32.sbb_set alu32.inc alu32.dec alu32.logic
  alu64.add alu64.sub alu64.adc_set alu64.sbb_set alu64.inc alu64.dec alu64.logic
  alu8.sub_self alu16.sub_self alu32.sub_self alu64.sub_self

section \<open>Properties\<close>

text \<open>
  C9. Whatever the entry held before, the flags read from it after the setter of an addition,
  a subtraction (both with a carry or borrow in) or a bitwise operation at 8, 16, 32 and 64
  bits are the flags the architecture defines for the operands: the carry out of the width
  and of the low nibble, the signed overflow, the sign, the zero and the parity of the result.
  The eight setters that INC and DEC use give the same five flags and the CF of before, although
  the stored carries encode OF and CF together.
\<close>

theorem lazy_flags_architectural:
  "flags_of (set_oszapc_add_8 a8 b8 (a8 + b8 + of_bool c) f) = add_flags a8 b8 c
   \<and> flags_of (set_oszapc_sub_8 a8 b8 (a8 - b8 - of_bool c) f) = sub_flags a8 b8 c
   \<and> flags_of (set_oszapc_logic_8 a8 f) = logic_flags a8
   \<and> flags_of (set_oszap_add_8 a8 b8 (a8 + b8 + of_bool c) f)
       = (add_flags a8 b8 c)\<lparr>fl_cf := fl_cf (flags_of f)\<rparr>
   \<and> flags_of (set_oszap_sub_8 a8 b8 (a8 - b8 - of_bool c) f)
       = (sub_flags a8 b8 c)\<lparr>fl_cf := fl_cf (flags_of f)\<rparr>
   \<and> flags_of (set_oszapc_add_16 a16 b16 (a16 + b16 + of_bool c) f) = add_flags a16 b16 c
   \<and> flags_of (set_oszapc_sub_16 a16 b16 (a16 - b16 - of_bool c) f) = sub_flags a16 b16 c
   \<and> flags_of (set_oszapc_logic_16 a16 f) = logic_flags a16
   \<and> flags_of (set_oszap_add_16 a16 b16 (a16 + b16 + of_bool c) f)
       = (add_flags a16 b16 c)\<lparr>fl_cf := fl_cf (flags_of f)\<rparr>
   \<and> flags_of (set_oszap_sub_16 a16 b16 (a16 - b16 - of_bool c) f)
       = (sub_flags a16 b16 c)\<lparr>fl_cf := fl_cf (flags_of f)\<rparr>
   \<and> flags_of (set_oszapc_add_32 a32 b32 (a32 + b32 + of_bool c) f) = add_flags a32 b32 c
   \<and> flags_of (set_oszapc_sub_32 a32 b32 (a32 - b32 - of_bool c) f) = sub_flags a32 b32 c
   \<and> flags_of (set_oszapc_logic_32 a32 f) = logic_flags a32
   \<and> flags_of (set_oszap_add_32 a32 b32 (a32 + b32 + of_bool c) f)
       = (add_flags a32 b32 c)\<lparr>fl_cf := fl_cf (flags_of f)\<rparr>
   \<and> flags_of (set_oszap_sub_32 a32 b32 (a32 - b32 - of_bool c) f)
       = (sub_flags a32 b32 c)\<lparr>fl_cf := fl_cf (flags_of f)\<rparr>
   \<and> flags_of (set_oszapc_add_64 a64 b64 (a64 + b64 + of_bool c) f) = add_flags a64 b64 c
   \<and> flags_of (set_oszapc_sub_64 a64 b64 (a64 - b64 - of_bool c) f) = sub_flags a64 b64 c
   \<and> flags_of (set_oszapc_logic_64 a64 f) = logic_flags a64
   \<and> flags_of (set_oszap_add_64 a64 b64 (a64 + b64 + of_bool c) f)
       = (add_flags a64 b64 c)\<lparr>fl_cf := fl_cf (flags_of f)\<rparr>
   \<and> flags_of (set_oszap_sub_64 a64 b64 (a64 - b64 - of_bool c) f)
       = (sub_flags a64 b64 c)\<lparr>fl_cf := fl_cf (flags_of f)\<rparr>"
  by (simp only: alu8.adc alu8.sbb alu8.logic alu8.adc_keeping alu8.sbb_keeping
      alu16.adc alu16.sbb alu16.logic alu16.adc_keeping alu16.sbb_keeping
      alu32.adc alu32.sbb alu32.logic alu32.adc_keeping alu32.sbb_keeping
      alu64.adc alu64.sbb alu64.logic alu64.adc_keeping alu64.sbb_keeping simp_thms)

text \<open>
  The setters of single flags are independent: each one gives its flag the new value and
  leaves the other five as they were, although OF and CF share the encoding of the top two
  bits and SF, PF and ZF share the stored result.
\<close>

theorem single_flag_setters_independent:
  "flags_of (set_cf v f) = (flags_of f)\<lparr>fl_cf := v\<rparr>
   \<and> flags_of (set_pf v f) = (flags_of f)\<lparr>fl_pf := v\<rparr>
   \<and> flags_of (set_af v f) = (flags_of f)\<lparr>fl_af := v\<rparr>
   \<and> flags_of (set_zf v f) = (flags_of f)\<lparr>fl_zf := v\<rparr>
   \<and> flags_of (set_sf v f) = (flags_of f)\<lparr>fl_sf := v\<rparr>
   \<and> flags_of (set_of v f) = (flags_of f)\<lparr>fl_of := v\<rparr>
   \<and> flags_of (set_flags_oxxxxc (of_bool v) (of_bool w) f) = (flags_of f)\<lparr>fl_of := v, fl_cf := w\<rparr>
   \<and> flags_of (assert_flags_oxxxxc f) = (flags_of f)\<lparr>fl_of := True, fl_cf := True\<rparr>"
  using flags_set_oxxxxc [of True True f]
  by (simp add: flags_setters flags_set_oxxxxc assert_flags_oxxxxc_def)

end
