(* ===== verification/Cpu_Regs.thy ===== *)
theory Cpu_Regs
  imports Lazy_Flags_Laws
begin

text \<open>
  The part of the processor state that the integer instructions on register operands use:
  the general registers with their 8, 16, 32 and 64-bit views (\<^verbatim>\<open>BxGenReg\<close> and the accessors
  of \<^verbatim>\<open>cpu.rs\<close> and \<^verbatim>\<open>cpu_getters_and_setters.rs\<close>), the lazy flags, and the \<^verbatim>\<open>eflags\<close> register
  whose six arithmetic bits are stale until they are copied from the lazy flags. Three more
  fields serve the branches: the pending events word, the scaled limit of the code segment
  (\<^verbatim>\<open>get_segment_limit(Cs)\<close>) and the width of a linear address. An instruction is the decoded
  form with the fields these handlers read.

  Register numbers come from the decoder and are below 20, the length of the register array;
  a number outside it would panic, so the lemmas on writes ask for a number inside the array.
\<close>

section \<open>Register views\<close>

definition erx :: "u64 \<Rightarrow> u32" where "erx v = ucast v"

definition set_erx :: "u32 \<Rightarrow> u64 \<Rightarrow> u64" where
  "set_erx v r = (r AND 0xFFFFFFFF00000000) OR ucast v"

definition hrx :: "u64 \<Rightarrow> u32" where "hrx v = ucast (drop_bit 32 v)"

definition set_hrx :: "u32 \<Rightarrow> u64 \<Rightarrow> u64" where
  "set_hrx v r = (r AND 0x00000000FFFFFFFF) OR push_bit 32 (ucast v)"

definition rx :: "u64 \<Rightarrow> u16" where "rx v = ucast v"

definition set_rx :: "u16 \<Rightarrow> u64 \<Rightarrow> u64" where
  "set_rx v r = (r AND NOT 0xFFFF) OR ucast v"

definition rl :: "u64 \<Rightarrow> u8" where "rl v = ucast v"

definition set_rl :: "u8 \<Rightarrow> u64 \<Rightarrow> u64" where
  "set_rl v r = (r AND NOT 0xFF) OR ucast v"

definition rh :: "u64 \<Rightarrow> u8" where "rh v = ucast (drop_bit 8 v)"

definition set_rh :: "u8 \<Rightarrow> u64 \<Rightarrow> u64" where
  "set_rh v r = (r AND NOT 0xFF00) OR push_bit 8 (ucast v)"

section \<open>Processor and instruction\<close>

record cpu =
  gen_reg :: "u64 list"
  oszapc :: lazyflags
  eflags :: u32
  async_event :: u32
  cs_limit :: u32
  linaddr_width :: nat

definition GEN_REGS :: nat where "GEN_REGS = 20"

text \<open>A processor with all registers and flags clear, on which witnesses are evaluated.\<close>

definition blank_cpu :: cpu where
  "blank_cpu = \<lparr>gen_reg = replicate GEN_REGS 0, oszapc = \<lparr>lf_result = 0, lf_auxbits = 0\<rparr>,
     eflags = 2, async_event = 0, cs_limit = 0xFFFF, linaddr_width = 48\<rparr>"

record instruction =
  i_dst :: nat
  i_src1 :: nat
  i_extend8bit_l :: bool
  i_as32_l :: bool
  i_as64_l :: bool
  i_immediate :: u32

definition i_id :: "instruction \<Rightarrow> u32" where "i_id i = i_immediate i"

definition i_iw :: "instruction \<Rightarrow> u16" where "i_iw i = ucast (i_immediate i)"

definition i_ib :: "instruction \<Rightarrow> u8" where "i_ib i = ucast (i_immediate i)"

section \<open>Faulting handlers\<close>

text \<open>
  A handler that can fault gives a result and the state. The result is \<open>Inl\<close> with the vector
  and the error code that the handler passes to \<^verbatim>\<open>exception\<close>, in the state it raises it in;
  the delivery of the exception is not modelled.
\<close>

datatype exception = De | Gp

type_synonym outcome = "(exception \<times> nat + unit) \<times> cpu"

definition ok_then :: "outcome \<Rightarrow> (cpu \<Rightarrow> outcome) \<Rightarrow> outcome" where
  "ok_then m f = (case m of (Inl e, c) \<Rightarrow> (Inl e, c) | (Inr _, c) \<Rightarrow> f c)"

lemma ok_then_simps [simp]: "ok_then (Inl e, c) f = (Inl e, c)" "ok_then (Inr u, c) f = f c"
  by (simp_all add: ok_then_def)

section \<open>Indexed accessors\<close>

definition get_gpr8 :: "nat \<Rightarrow> cpu \<Rightarrow> u8" where
  "get_gpr8 reg c = (if reg < 4 then rl (gen_reg c ! reg)
                     else if reg < 8 then rh (gen_reg c ! (reg - 4))
                     else rl (gen_reg c ! reg))"

definition set_gpr8 :: "nat \<Rightarrow> u8 \<Rightarrow> cpu \<Rightarrow> cpu" where
  "set_gpr8 reg val c =
     (if reg < 4 then c\<lparr>gen_reg := (gen_reg c)[reg := set_rl val (gen_reg c ! reg)]\<rparr>
      else if reg < 8 then c\<lparr>gen_reg := (gen_reg c)[reg - 4 := set_rh val (gen_reg c ! (reg - 4))]\<rparr>
      else c\<lparr>gen_reg := (gen_reg c)[reg := set_rl val (gen_reg c ! reg)]\<rparr>)"

definition get_gpr8l :: "nat \<Rightarrow> cpu \<Rightarrow> u8" where
  "get_gpr8l reg c = rl (gen_reg c ! reg)"

definition set_gpr8l :: "nat \<Rightarrow> u8 \<Rightarrow> cpu \<Rightarrow> cpu" where
  "set_gpr8l reg val c = c\<lparr>gen_reg := (gen_reg c)[reg := set_rl val (gen_reg c ! reg)]\<rparr>"

definition get_gpr16 :: "nat \<Rightarrow> cpu \<Rightarrow> u16" where
  "get_gpr16 reg c = rx (gen_reg c ! reg)"

definition set_gpr16 :: "nat \<Rightarrow> u16 \<Rightarrow> cpu \<Rightarrow> cpu" where
  "set_gpr16 reg val c = c\<lparr>gen_reg := (gen_reg c)[reg := set_rx val (gen_reg c ! reg)]\<rparr>"

definition get_gpr32 :: "nat \<Rightarrow> cpu \<Rightarrow> u32" where
  "get_gpr32 reg c = erx (gen_reg c ! reg)"

definition set_gpr32 :: "nat \<Rightarrow> u32 \<Rightarrow> cpu \<Rightarrow> cpu" where
  "set_gpr32 reg val c =
     (let c = c\<lparr>gen_reg := (gen_reg c)[reg := set_erx val (gen_reg c ! reg)]\<rparr>
      in c\<lparr>gen_reg := (gen_reg c)[reg := set_hrx 0 (gen_reg c ! reg)]\<rparr>)"

definition get_gpr64 :: "nat \<Rightarrow> cpu \<Rightarrow> u64" where
  "get_gpr64 reg c = gen_reg c ! reg"

definition set_gpr64 :: "nat \<Rightarrow> u64 \<Rightarrow> cpu \<Rightarrow> cpu" where
  "set_gpr64 reg val c = c\<lparr>gen_reg := (gen_reg c)[reg := val]\<rparr>"

definition bx_clear_64bit_high :: "nat \<Rightarrow> cpu \<Rightarrow> cpu" where
  "bx_clear_64bit_high reg c =
     c\<lparr>gen_reg := (gen_reg c)[reg := set_hrx 0 (gen_reg c ! reg)]\<rparr>"

definition read_8bit_regx :: "nat \<Rightarrow> bool \<Rightarrow> cpu \<Rightarrow> u8" where
  "read_8bit_regx reg ext c =
     (if ext \<or> and reg 4 = 0 then rl (gen_reg c ! reg)
      else ucast (drop_bit 8 (get_gpr16 (and reg 3) c)))"

definition write_8bit_regx :: "nat \<Rightarrow> bool \<Rightarrow> u8 \<Rightarrow> cpu \<Rightarrow> cpu" where
  "write_8bit_regx reg ext val c =
     (if ext \<or> and reg 4 = 0
      then c\<lparr>gen_reg := (gen_reg c)[reg := set_rl val (gen_reg c ! reg)]\<rparr>
      else (let reg16 = and reg 3;
                current = get_gpr16 reg16 c;
                new_val = (current AND 0x00FF) OR push_bit 8 (ucast val)
            in set_gpr16 reg16 new_val c))"

section \<open>Named registers\<close>

definition cpu_al :: "cpu \<Rightarrow> u8" where "cpu_al c = rl (gen_reg c ! 0)"
definition cpu_cl :: "cpu \<Rightarrow> u8" where "cpu_cl c = rl (gen_reg c ! 1)"
definition cpu_ax :: "cpu \<Rightarrow> u16" where "cpu_ax c = rx (gen_reg c ! 0)"
definition cpu_eax :: "cpu \<Rightarrow> u32" where "cpu_eax c = erx (gen_reg c ! 0)"
definition cpu_edx :: "cpu \<Rightarrow> u32" where "cpu_edx c = erx (gen_reg c ! 2)"

definition set_eax :: "u32 \<Rightarrow> cpu \<Rightarrow> cpu" where
  "set_eax val c =
     (let c = c\<lparr>gen_reg := (gen_reg c)[0 := set_erx val (gen_reg c ! 0)]\<rparr>
      in c\<lparr>gen_reg := (gen_reg c)[0 := set_hrx 0 (gen_reg c ! 0)]\<rparr>)"

definition set_edx :: "u32 \<Rightarrow> cpu \<Rightarrow> cpu" where
  "set_edx val c =
     (let c = c\<lparr>gen_reg := (gen_reg c)[2 := set_erx val (gen_reg c ! 2)]\<rparr>
      in c\<lparr>gen_reg := (gen_reg c)[2 := set_hrx 0 (gen_reg c ! 2)]\<rparr>)"

definition set_rax :: "u64 \<Rightarrow> cpu \<Rightarrow> cpu" where
  "set_rax val c = c\<lparr>gen_reg := (gen_reg c)[0 := val]\<rparr>"

definition set_rdx :: "u64 \<Rightarrow> cpu \<Rightarrow> cpu" where
  "set_rdx val c = c\<lparr>gen_reg := (gen_reg c)[2 := val]\<rparr>"

section \<open>Flags\<close>

definition get_cf :: "cpu \<Rightarrow> bool" where "get_cf c \<longleftrightarrow> getb_cf (oszapc c) \<noteq> 0"
definition get_zf :: "cpu \<Rightarrow> bool" where "get_zf c \<longleftrightarrow> getb_zf (oszapc c) \<noteq> 0"
definition get_sf :: "cpu \<Rightarrow> bool" where "get_sf c \<longleftrightarrow> getb_sf (oszapc c) \<noteq> 0"
definition get_of :: "cpu \<Rightarrow> bool" where "get_of c \<longleftrightarrow> getb_of (oszapc c) \<noteq> 0"
definition get_pf :: "cpu \<Rightarrow> bool" where "get_pf c \<longleftrightarrow> getb_pf (oszapc c) \<noteq> 0"
definition get_af :: "cpu \<Rightarrow> bool" where "get_af c \<longleftrightarrow> getb_af (oszapc c) \<noteq> 0"

definition update_flags_add32 :: "u32 \<Rightarrow> u32 \<Rightarrow> u32 \<Rightarrow> cpu \<Rightarrow> cpu" where
  "update_flags_add32 op1 op2 res c = c\<lparr>oszapc := set_oszapc_add_32 op1 op2 res (oszapc c)\<rparr>"

definition update_flags_sub32 :: "u32 \<Rightarrow> u32 \<Rightarrow> u32 \<Rightarrow> cpu \<Rightarrow> cpu" where
  "update_flags_sub32 op1 op2 res c = c\<lparr>oszapc := set_oszapc_sub_32 op1 op2 res (oszapc c)\<rparr>"

definition update_flags_logic32 :: "u32 \<Rightarrow> cpu \<Rightarrow> cpu" where
  "update_flags_logic32 res c = c\<lparr>oszapc := set_oszapc_logic_32 res (oszapc c)\<rparr>"

definition update_flags_add64 :: "u64 \<Rightarrow> u64 \<Rightarrow> u64 \<Rightarrow> cpu \<Rightarrow> cpu" where
  "update_flags_add64 op1 op2 res c = c\<lparr>oszapc := set_oszapc_add_64 op1 op2 res (oszapc c)\<rparr>"

definition update_flags_sub64 :: "u64 \<Rightarrow> u64 \<Rightarrow> u64 \<Rightarrow> cpu \<Rightarrow> cpu" where
  "update_flags_sub64 op1 op2 res c = c\<lparr>oszapc := set_oszapc_sub_64 op1 op2 res (oszapc c)\<rparr>"

definition set_cf_of :: "bool \<Rightarrow> bool \<Rightarrow> cpu \<Rightarrow> cpu" where
  "set_cf_of cf ovf c = c\<lparr>oszapc := set_flags_oxxxxc (of_bool ovf) (of_bool cf) (oszapc c)\<rparr>"

definition cpu_set_cf :: "bool \<Rightarrow> cpu \<Rightarrow> cpu" where "cpu_set_cf v c = c\<lparr>oszapc := set_cf v (oszapc c)\<rparr>"

definition cpu_set_af :: "bool \<Rightarrow> cpu \<Rightarrow> cpu" where "cpu_set_af v c = c\<lparr>oszapc := set_af v (oszapc c)\<rparr>"

definition cpu_set_of :: "bool \<Rightarrow> cpu \<Rightarrow> cpu" where "cpu_set_of v c = c\<lparr>oszapc := set_of v (oszapc c)\<rparr>"

definition OSZAPC :: u32 where
  "OSZAPC = push_bit 11 1 OR push_bit 7 1 OR push_bit 6 1 OR push_bit 4 1 OR push_bit 2 1 OR 1"

definition lazy_bits :: "lazyflags \<Rightarrow> u32" where
  "lazy_bits f = getb_cf f OR push_bit 2 (getb_pf f) OR push_bit 4 (getb_af f)
                 OR push_bit 6 (getb_zf f) OR push_bit 7 (getb_sf f) OR push_bit 11 (getb_of f)"

definition force_flags :: "cpu \<Rightarrow> cpu" where
  "force_flags c = c\<lparr>eflags := (eflags c AND NOT OSZAPC) OR (lazy_bits (oszapc c) AND OSZAPC)\<rparr>"

definition read_eflags :: "cpu \<Rightarrow> u32 \<times> cpu" where
  "read_eflags c = (let c = force_flags c in (eflags c, c))"

definition eflags_materialized :: "cpu \<Rightarrow> u32" where
  "eflags_materialized c = (eflags c AND NOT OSZAPC) OR (lazy_bits (oszapc c) AND OSZAPC)"

definition set_eflags_oszapc :: "u32 \<Rightarrow> cpu \<Rightarrow> cpu" where
  "set_eflags_oszapc v c =
     (let f = oszapc c;
          f = set_of (drop_bit 11 v AND 1 \<noteq> 0) f;
          f = set_sf (drop_bit 7 v AND 1 \<noteq> 0) f;
          f = set_zf (drop_bit 6 v AND 1 \<noteq> 0) f;
          f = set_af (drop_bit 4 v AND 1 \<noteq> 0) f;
          f = set_pf (drop_bit 2 v AND 1 \<noteq> 0) f;
          f = set_cf (v AND 1 \<noteq> 0) f
      in c\<lparr>oszapc := f\<rparr>)"

section \<open>Laws of the register views\<close>

lemma bit_numeral_masks:
  "bit (0xFFFFFFFF00000000 :: int) n \<longleftrightarrow> 32 \<le> n \<and> n < 64"
  "bit (0xFFFFFFFF :: int) n \<longleftrightarrow> n < 32"
  "bit (0xFFFF :: int) n \<longleftrightarrow> n < 16"
  "bit (0xFF :: int) n \<longleftrightarrow> n < 8"
proof -
  have m: "(0xFFFFFFFF00000000 :: int) = push_bit 32 (mask 32)"
      "(0xFFFFFFFF :: int) = mask 32" "(0xFFFF :: int) = mask 16" "(0xFF :: int) = mask 8"
    by (simp_all add: mask_eq_exp_minus_1)
  show "bit (0xFFFFFFFF00000000 :: int) n \<longleftrightarrow> 32 \<le> n \<and> n < 64" unfolding m by (auto simp: bit_simps)
  show "bit (0xFFFFFFFF :: int) n \<longleftrightarrow> n < 32" unfolding m by (simp add: bit_simps)
  show "bit (0xFFFF :: int) n \<longleftrightarrow> n < 16" unfolding m by (simp add: bit_simps)
  show "bit (0xFF :: int) n \<longleftrightarrow> n < 8" unfolding m by (simp add: bit_simps)
qed

lemmas view_bits = bit_simps bit_numeral_masks bit_65280

lemma bit_set_erx: "bit (set_erx v r) n \<longleftrightarrow> (if n < 32 then bit v n else bit r n)"
  by (auto simp: set_erx_def view_bits dest: bit_imp_le_length)

lemma bit_set_hrx: "bit (set_hrx v r) n \<longleftrightarrow> (if n < 32 then bit r n else bit v (n - 32))"
  by (auto simp: set_hrx_def view_bits dest: bit_imp_le_length)

lemma bit_set_rx: "bit (set_rx v r) n \<longleftrightarrow> (if n < 16 then bit v n else bit r n)"
  by (auto simp: set_rx_def view_bits dest: bit_imp_le_length)

lemma bit_set_rl: "bit (set_rl v r) n \<longleftrightarrow> (if n < 8 then bit v n else bit r n)"
  by (auto simp: set_rl_def view_bits dest: bit_imp_le_length)

lemma bit_set_rh:
  "bit (set_rh v r) n \<longleftrightarrow> (if 8 \<le> n \<and> n < 16 then bit v (n - 8) else bit r n)"
  by (auto simp: set_rh_def view_bits dest: bit_imp_le_length)

lemma set_hrx_0_set_erx: "set_hrx 0 (set_erx v r) = ucast v"
  by (rule bit_word_eqI) (auto simp: bit_set_hrx bit_set_erx bit_simps dest: bit_imp_le_length)

lemma set_gpr32_eq: "set_gpr32 reg v c = c\<lparr>gen_reg := (gen_reg c)[reg := ucast v]\<rparr>"
  by (cases "reg < length (gen_reg c)")
     (simp_all add: set_gpr32_def Let_def set_hrx_0_set_erx list_update_beyond)

lemma set_eax_eq: "set_eax v c = set_gpr32 0 v c"
  by (simp add: set_eax_def set_gpr32_def)

lemma set_edx_eq: "set_edx v c = set_gpr32 2 v c"
  by (simp add: set_edx_def set_gpr32_def)

lemma erx_ucast [simp]: "erx (ucast v) = v"
  by (simp add: erx_def ucast_up_down)

definition pair64 :: "u32 \<Rightarrow> u32 \<Rightarrow> u64" where
  "pair64 hi lo = push_bit 32 (ucast hi) OR ucast lo"

lemma bit_pair64: "bit (pair64 hi lo) n \<longleftrightarrow> (if n < 32 then bit lo n else bit hi (n - 32))"
  by (auto simp: pair64_def bit_simps dest: bit_imp_le_length)

text \<open>What a read of one view sees after a write through another.\<close>

lemmas view_defs = erx_def hrx_def rx_def rl_def rh_def

lemma views_of_set_rx:
  "rx (set_rx v r) = v" "hrx (set_rx v r) = hrx r"
  by (rule bit_word_eqI; simp add: view_defs bit_set_rx bit_simps)+

lemma views_of_set_rl:
  "rl (set_rl v r) = v" "rh (set_rl v r) = rh r" "hrx (set_rl v r) = hrx r"
  by (rule bit_word_eqI; simp add: view_defs bit_set_rl bit_simps)+

lemma views_of_set_rh:
  "rh (set_rh v r) = v" "rl (set_rh v r) = rl r" "hrx (set_rh v r) = hrx r"
  by (rule bit_word_eqI; simp add: view_defs bit_set_rh bit_simps)+

lemma low_register: "reg < 4 \<Longrightarrow> and reg 4 = 0" for reg :: nat
proof -
  assume "reg < 4"
  then have "reg = 0 \<or> reg = 1 \<or> reg = 2 \<or> reg = 3" by auto
  then show ?thesis by auto
qed

lemma high_register: "4 \<le> reg \<Longrightarrow> reg < 8 \<Longrightarrow> and reg 3 = reg - 4 \<and> and reg 4 \<noteq> 0" for reg :: nat
proof -
  assume "4 \<le> reg" "reg < 8"
  then have "reg = 4 \<or> reg = 5 \<or> reg = 6 \<or> reg = 7" by auto
  then show ?thesis by auto
qed

lemma legacy_high_byte: "set_rx ((rx r AND 0x00FF) OR push_bit 8 (ucast v)) r = set_rh v r"
  by (rule bit_word_eqI)
     (auto simp: bit_set_rx bit_set_rh rx_def view_bits dest: bit_imp_le_length)

lemma write_8bit_regx_eq:
  assumes "reg < 16" "ext \<or> reg < 8"
  shows "write_8bit_regx reg ext v c = (if ext then set_gpr8l reg v c else set_gpr8 reg v c)"
proof -
  show ?thesis
  proof (cases "ext \<or> reg < 4")
    case True
    with low_register [of reg] show ?thesis
      by (auto simp: write_8bit_regx_def set_gpr8l_def set_gpr8_def)
  next
    case False
    with assms high_register [of reg] show ?thesis
      by (simp add: write_8bit_regx_def set_gpr8_def set_gpr16_def get_gpr16_def legacy_high_byte Let_def)
  qed
qed

lemma flags_bool: "get_cf c = fl_cf (flags_of (oszapc c))" "get_zf c = fl_zf (flags_of (oszapc c))"
  "get_sf c = fl_sf (flags_of (oszapc c))" "get_of c = fl_of (flags_of (oszapc c))"
  "get_pf c = fl_pf (flags_of (oszapc c))" "get_af c = fl_af (flags_of (oszapc c))"
  by (simp_all add: get_cf_def get_zf_def get_sf_def get_of_def get_pf_def get_af_def flags_of_def)

section \<open>The flags register\<close>

lemma bit_OSZAPC: "bit OSZAPC n \<longleftrightarrow> n = 0 \<or> n = 2 \<or> n = 4 \<or> n = 6 \<or> n = 7 \<or> n = 11"
  by (auto simp: OSZAPC_def bit_simps simp del: push_bit_of_1)

definition flag_at :: "flags \<Rightarrow> nat \<Rightarrow> bool" where
  "flag_at f n = (if n = 0 then fl_cf f else if n = 2 then fl_pf f else if n = 4 then fl_af f
     else if n = 6 then fl_zf f else if n = 7 then fl_sf f else if n = 11 then fl_of f else False)"

lemma flags_eqI: "(\<And>n. bit OSZAPC n \<Longrightarrow> flag_at f n = flag_at g n) \<Longrightarrow> f = g" for f g :: flags
proof -
  assume "\<And>n. bit OSZAPC n \<Longrightarrow> flag_at f n = flag_at g n"
  from this [of 0] this [of 2] this [of 4] this [of 6] this [of 7] this [of 11]
  show ?thesis by (simp add: bit_OSZAPC flag_at_def)
qed

lemma bit_lazy_bits: "bit (lazy_bits f) n \<longleftrightarrow> flag_at (flags_of f) n"
proof -
  have "lazy_bits f = of_bool (fl_cf (flags_of f)) OR push_bit 2 (of_bool (fl_pf (flags_of f)))
      OR push_bit 4 (of_bool (fl_af (flags_of f))) OR push_bit 6 (of_bool (fl_zf (flags_of f)))
      OR push_bit 7 (of_bool (fl_sf (flags_of f))) OR push_bit 11 (of_bool (fl_of (flags_of f)))"
    by (simp only: lazy_bits_def getb_bits flags_of_bits flags.simps)
  then show ?thesis
    by (simp only:) (auto simp: flag_at_def bit_simps)
qed

lemma flags_set_eflags:
  "flag_at (flags_of (oszapc (set_eflags_oszapc v c))) n \<longleftrightarrow> bit OSZAPC n \<and> bit v n"
  by (auto simp: set_eflags_oszapc_def Let_def flags_setters flag_at_def bit_OSZAPC
      and_1_of_bool bit_simps)

text \<open>
  C15. The lazy flags and the flags register hold the same six bits. Loading arithmetic bits
  into the lazy flags and materializing them gives back exactly those bits and keeps all
  others of the register; reading the register answers the materialized value, leaves it
  materialized, and loading what was read restores the flags. So a push of the flags followed
  by a pop is the identity on them.
\<close>

theorem eflags_round_trip:
  "eflags_materialized (set_eflags_oszapc v c) = (eflags c AND NOT OSZAPC) OR (v AND OSZAPC)
   \<and> fst (read_eflags c) = eflags_materialized c
   \<and> eflags (snd (read_eflags c)) = eflags_materialized c
   \<and> oszapc (snd (read_eflags c)) = oszapc c
   \<and> flags_of (oszapc (set_eflags_oszapc (fst (read_eflags c)) d)) = flags_of (oszapc c)"
proof -
  have e: "eflags (set_eflags_oszapc v c) = eflags c"
    by (simp add: set_eflags_oszapc_def Let_def)
  have "eflags_materialized (set_eflags_oszapc v c) = (eflags c AND NOT OSZAPC) OR (v AND OSZAPC)"
    by (rule bit_word_eqI)
       (auto simp: eflags_materialized_def e bit_or_iff bit_and_iff bit_lazy_bits flags_set_eflags)
  moreover have r: "read_eflags c = (eflags_materialized c, force_flags c)"
    by (simp add: read_eflags_def force_flags_def eflags_materialized_def Let_def)
  moreover have "flags_of (oszapc (set_eflags_oszapc (eflags_materialized c) d)) = flags_of (oszapc c)"
    by (rule flags_eqI)
       (simp add: flags_set_eflags eflags_materialized_def bit_or_iff bit_and_iff bit_not_iff
         bit_lazy_bits)
  ultimately show ?thesis
    by (simp add: force_flags_def eflags_materialized_def)
qed

section \<open>What a write changes\<close>

text \<open>
  \<open>field_written h lo v c c'\<close>: in passing from \<open>c\<close> to \<open>c'\<close> the bits of register \<open>h\<close> from \<open>lo\<close> on
  became those of \<open>v\<close>, as many as \<open>v\<close> has, and nothing else of the processor changed: not the
  other bits of that register, no other register, and no other part of the state.
  \<open>field_read h lo v c\<close>: \<open>v\<close> is that field of register \<open>h\<close>.
\<close>

definition field_written :: "nat \<Rightarrow> nat \<Rightarrow> 'a::len word \<Rightarrow> cpu \<Rightarrow> cpu \<Rightarrow> bool" where
  "field_written h lo v c c' \<longleftrightarrow> c' = c\<lparr>gen_reg := gen_reg c'\<rparr> \<and> length (gen_reg c') = length (gen_reg c) \<and>
     (\<forall>s n. bit (gen_reg c' ! s) n
        = (if s = h \<and> lo \<le> n \<and> n < lo + LENGTH('a) then bit v (n - lo) else bit (gen_reg c ! s) n))"

definition field_read :: "nat \<Rightarrow> nat \<Rightarrow> 'a::len word \<Rightarrow> cpu \<Rightarrow> bool" where
  "field_read h lo v c \<longleftrightarrow> (\<forall>n < LENGTH('a). bit v n = bit (gen_reg c ! h) (lo + n))"

text \<open>
  Where the byte operand of an instruction lies: the low byte of its register with a REX prefix
  or for a number whose bit 2 is clear, else the high byte of one of the first four.
\<close>

definition byte_home :: "bool \<Rightarrow> nat \<Rightarrow> nat \<times> nat" where
  "byte_home ext r = (if ext \<or> even (r div 4) then (r, 0) else (r mod 4, 8))"

lemma and_3_mod: "and r 3 = r mod 4" for r :: nat
  using take_bit_eq_mask [of 2 r] by (simp add: take_bit_eq_mod mask_eq_exp_minus_1)

lemma and_4_even: "and r 4 = 0 \<longleftrightarrow> even (r div 4)" for r :: nat
  using and_exp_eq_0_iff_not_bit [of r 2] by (simp add: bit_iff_odd)

lemma field_writtenI:
  assumes "h < length (gen_reg c)"
    and "\<And>n. bit x n = (if lo \<le> n \<and> n < lo + LENGTH('a) then bit v (n - lo) else bit (gen_reg c ! h) n)"
  shows "field_written h lo (v :: 'a::len word) c (c\<lparr>gen_reg := (gen_reg c)[h := x]\<rparr>)"
  using assms by (simp add: field_written_def nth_list_update)

lemma field_written_views:
  fixes v64 :: u64 and v16 :: u16 and v8 :: u8
  assumes "h < length (gen_reg c)"
  shows "field_written h 0 v64 c (c\<lparr>gen_reg := (gen_reg c)[h := v64]\<rparr>)"
    "field_written h 0 v16 c (c\<lparr>gen_reg := (gen_reg c)[h := set_rx v16 (gen_reg c ! h)]\<rparr>)"
    "field_written h 0 v8 c (c\<lparr>gen_reg := (gen_reg c)[h := set_rl v8 (gen_reg c ! h)]\<rparr>)"
    "field_written h 8 v8 c (c\<lparr>gen_reg := (gen_reg c)[h := set_rh v8 (gen_reg c ! h)]\<rparr>)"
proof -
  have "\<not> n < 64 \<Longrightarrow> bit v64 n = bit (gen_reg c ! h) n" for n
    by (auto dest: bit_imp_le_length)
  then show "field_written h 0 v64 c (c\<lparr>gen_reg := (gen_reg c)[h := v64]\<rparr>)"
    using assms by (intro field_writtenI) simp_all
qed (use assms in \<open>auto intro!: field_writtenI simp: bit_set_rx bit_set_rl bit_set_rh\<close>)

lemma byte_home_in_range: "r < l \<Longrightarrow> fst (byte_home ext r) < l"
  using mod_less_eq_dividend [of r 4] by (auto simp: byte_home_def simp del: mod_less_eq_dividend)

lemma field_written_regx:
  assumes "r < length (gen_reg c)"
  shows "field_written (fst (byte_home ext r)) (snd (byte_home ext r)) v c (write_8bit_regx r ext v c)"
proof (cases "ext \<or> and r 4 = 0")
  case True
  with assms show ?thesis by (simp add: write_8bit_regx_def field_written_views byte_home_def and_4_even)
next
  case False
  then have "byte_home ext r = (r mod 4, 8)" by (simp add: byte_home_def and_4_even)
  with False byte_home_in_range [OF assms, of ext] show ?thesis
    by (simp add: write_8bit_regx_def Let_def get_gpr16_def set_gpr16_def legacy_high_byte and_3_mod
        field_written_views)
qed

text \<open>
  C20. Reading and writing the general registers at every register number of the array. Every
  write reaches exactly the bits the architecture gives its view and leaves all others of the
  register, all other registers and the rest of the processor: 64 bits; 32 bits, which clear
  the high half; the low 16; the low byte; and for the legacy byte numbers 4 to 7 the second
  byte of registers 0 to 3, which the byte operand of an instruction selects without a REX
  prefix only. Every read returns the bits of its view, so what one view reads after a write
  through another is determined. In particular the two byte views of a register do not disturb
  each other.
\<close>

theorem register_views:
  assumes "r < length (gen_reg c)"
  shows "field_written r 0 v64 c (set_gpr64 r v64 c)
   \<and> field_written r 0 (ucast v32 :: u64) c (set_gpr32 r v32 c)
   \<and> field_written r 0 v16 c (set_gpr16 r v16 c)
   \<and> field_written r 0 v8 c (set_gpr8l r v8 c)
   \<and> (if 4 \<le> r \<and> r < 8 then field_written (r - 4) 8 v8 c (set_gpr8 r v8 c)
       else field_written r 0 v8 c (set_gpr8 r v8 c))
   \<and> field_written (fst (byte_home ext r)) (snd (byte_home ext r)) v8 c (write_8bit_regx r ext v8 c)
   \<and> field_read r 0 (get_gpr64 r c) c \<and> field_read r 0 (get_gpr32 r c) c
   \<and> field_read r 0 (get_gpr16 r c) c \<and> field_read r 0 (get_gpr8l r c) c
   \<and> (if 4 \<le> r \<and> r < 8 then field_read (r - 4) 8 (get_gpr8 r c) c else field_read r 0 (get_gpr8 r c) c)
   \<and> field_read (fst (byte_home ext r)) (snd (byte_home ext r)) (read_8bit_regx r ext c) c
   \<and> (r < 4 \<longrightarrow> get_gpr8 (r + 4) (set_gpr8 r v8 c) = get_gpr8 (r + 4) c
              \<and> get_gpr8 r (set_gpr8 (r + 4) v8 c) = get_gpr8 r c)"
proof (intro conjI)
  show "if 4 \<le> r \<and> r < 8 then field_written (r - 4) 8 v8 c (set_gpr8 r v8 c)
       else field_written r 0 v8 c (set_gpr8 r v8 c)"
    using assms by (auto simp: set_gpr8_def field_written_views)
  show "if 4 \<le> r \<and> r < 8 then field_read (r - 4) 8 (get_gpr8 r c) c else field_read r 0 (get_gpr8 r c) c"
    by (auto simp: field_read_def get_gpr8_def view_defs bit_simps)
  show "field_read (fst (byte_home ext r)) (snd (byte_home ext r)) (read_8bit_regx r ext c) c"
    by (auto simp: field_read_def read_8bit_regx_def byte_home_def and_4_even and_3_mod get_gpr16_def
        view_defs bit_simps)
  show "r < 4 \<longrightarrow> get_gpr8 (r + 4) (set_gpr8 r v8 c) = get_gpr8 (r + 4) c
              \<and> get_gpr8 r (set_gpr8 (r + 4) v8 c) = get_gpr8 r c"
    using assms by (simp add: get_gpr8_def set_gpr8_def views_of_set_rl views_of_set_rh)
qed (use assms in \<open>simp_all add: set_gpr64_def set_gpr32_eq set_gpr16_def set_gpr8l_def
      field_written_views field_written_regx field_read_def get_gpr64_def get_gpr32_def
      get_gpr16_def get_gpr8l_def view_defs bit_simps\<close>)

theorem register_views_witness:
  "field_written 0 8 (0xFF :: u8) blank_cpu (write_8bit_regx 4 False 0xFF blank_cpu)
   \<and> field_written 4 0 (0xFF :: u8) blank_cpu (write_8bit_regx 4 True 0xFF blank_cpu)
   \<and> field_written 19 0 (0xFFFF :: u16) blank_cpu (set_gpr16 19 0xFFFF blank_cpu)"
  using register_views [of 4 blank_cpu 0 0 0 "0xFF" False] register_views [of 4 blank_cpu 0 0 0 "0xFF" True]
    register_views [of 19 blank_cpu 0 0 "0xFFFF" 0 False]
  by (simp add: blank_cpu_def GEN_REGS_def byte_home_def)

end
