(* ===== verification/Cpu_Alu.thy ===== *)
theory Cpu_Alu
  imports Cpu_Regs
begin

text \<open>
  The integer arithmetic and logic instructions on register operands: the register forms of
  \<^verbatim>\<open>cpu/arith32.rs\<close>, \<^verbatim>\<open>cpu/logical32.rs\<close> and \<^verbatim>\<open>cpu/arith64.rs\<close>, one definition per handler. A
  handler takes the decoded instruction and the processor state and gives the new state. The
  forms with a memory operand go through segmentation and paging and are not part of the model.
\<close>

section \<open>Handlers\<close>

text \<open>32-bit register forms (\<^verbatim>\<open>arith32.rs\<close>).\<close>

definition ADD_GdEd_R :: "instruction \<Rightarrow> cpu \<Rightarrow> cpu" where
  "ADD_GdEd_R i c =
     (let dst_val = get_gpr32 (i_dst i) c;
          src_val = get_gpr32 (i_src1 i) c;
          result = dst_val + src_val
      in update_flags_add32 dst_val src_val result (set_gpr32 (i_dst i) result c))"

definition ADD_EdGd_R :: "instruction \<Rightarrow> cpu \<Rightarrow> cpu" where
  "ADD_EdGd_R i c =
     (let op1 = get_gpr32 (i_dst i) c;
          op2 = get_gpr32 (i_src1 i) c;
          result = op1 + op2
      in update_flags_add32 op1 op2 result (set_gpr32 (i_dst i) result c))"

definition ADD_EAX_Id :: "instruction \<Rightarrow> cpu \<Rightarrow> cpu" where
  "ADD_EAX_Id i c =
     (let eax = cpu_eax c;
          imm = i_id i;
          result = eax + imm
      in update_flags_add32 eax imm result (set_eax result c))"

definition ADD_EdId_R :: "instruction \<Rightarrow> cpu \<Rightarrow> cpu" where
  "ADD_EdId_R i c =
     (let op1 = get_gpr32 (i_dst i) c;
          op2 = i_id i;
          result = op1 + op2
      in update_flags_add32 op1 op2 result (set_gpr32 (i_dst i) result c))"

definition SUB_GdEd_R :: "instruction \<Rightarrow> cpu \<Rightarrow> cpu" where
  "SUB_GdEd_R i c =
     (let dst_val = get_gpr32 (i_dst i) c;
          src_val = get_gpr32 (i_src1 i) c;
          result = dst_val - src_val
      in update_flags_sub32 dst_val src_val result (set_gpr32 (i_dst i) result c))"

definition SUB_EdGd_R :: "instruction \<Rightarrow> cpu \<Rightarrow> cpu" where
  "SUB_EdGd_R i c =
     (let op1 = get_gpr32 (i_dst i) c;
          op2 = get_gpr32 (i_src1 i) c;
          result = op1 - op2
      in update_flags_sub32 op1 op2 result (set_gpr32 (i_dst i) result c))"

definition SUB_EAX_Id :: "instruction \<Rightarrow> cpu \<Rightarrow> cpu" where
  "SUB_EAX_Id i c =
     (let eax = cpu_eax c;
          imm = i_id i;
          result = eax - imm
      in update_flags_sub32 eax imm result (set_eax result c))"

definition SUB_EdId_R :: "instruction \<Rightarrow> cpu \<Rightarrow> cpu" where
  "SUB_EdId_R i c =
     (let op1 = get_gpr32 (i_dst i) c;
          op2 = i_id i;
          result = op1 - op2
      in update_flags_sub32 op1 op2 result (set_gpr32 (i_dst i) result c))"

definition ADC_GdEd_R :: "instruction \<Rightarrow> cpu \<Rightarrow> cpu" where
  "ADC_GdEd_R i c =
     (let op1_32 = get_gpr32 (i_dst i) c;
          op2_32 = get_gpr32 (i_src1 i) c;
          cf = of_bool (get_cf c);
          sum_32 = op1_32 + op2_32 + cf
      in update_flags_add32 op1_32 op2_32 sum_32 (set_gpr32 (i_dst i) sum_32 c))"

definition ADC_EdGd_R :: "instruction \<Rightarrow> cpu \<Rightarrow> cpu" where
  "ADC_EdGd_R i c =
     (let op1 = get_gpr32 (i_dst i) c;
          op2 = get_gpr32 (i_src1 i) c;
          cf = of_bool (get_cf c);
          result = op1 + op2 + cf
      in update_flags_add32 op1 op2 result (set_gpr32 (i_dst i) result c))"

definition ADC_EAX_Id :: "instruction \<Rightarrow> cpu \<Rightarrow> cpu" where
  "ADC_EAX_Id i c =
     (let op1 = cpu_eax c;
          op2 = i_id i;
          cf = of_bool (get_cf c);
          result = op1 + op2 + cf
      in update_flags_add32 op1 op2 result (set_eax result c))"

definition ADC_EdId_R :: "instruction \<Rightarrow> cpu \<Rightarrow> cpu" where
  "ADC_EdId_R i c =
     (let op1 = get_gpr32 (i_dst i) c;
          op2 = i_id i;
          cf = of_bool (get_cf c);
          result = op1 + op2 + cf
      in update_flags_add32 op1 op2 result (set_gpr32 (i_dst i) result c))"

definition ADC_EdIb_R :: "instruction \<Rightarrow> cpu \<Rightarrow> cpu" where
  "ADC_EdIb_R i c =
     (let op1 = get_gpr32 (i_dst i) c;
          op2 = scast (i_ib i) :: u32;
          cf = of_bool (get_cf c);
          result = op1 + op2 + cf
      in update_flags_add32 op1 op2 result (set_gpr32 (i_dst i) result c))"

definition SBB_GdEd_R :: "instruction \<Rightarrow> cpu \<Rightarrow> cpu" where
  "SBB_GdEd_R i c =
     (let op1 = get_gpr32 (i_dst i) c;
          op2 = get_gpr32 (i_src1 i) c;
          cf = of_bool (get_cf c);
          result = op1 - op2 - cf
      in update_flags_sub32 op1 op2 result (set_gpr32 (i_dst i) result c))"

definition SBB_EdGd_R :: "instruction \<Rightarrow> cpu \<Rightarrow> cpu" where
  "SBB_EdGd_R i c =
     (let op1 = get_gpr32 (i_dst i) c;
          op2 = get_gpr32 (i_src1 i) c;
          cf = of_bool (get_cf c);
          result = op1 - op2 - cf
      in update_flags_sub32 op1 op2 result (set_gpr32 (i_dst i) result c))"

definition SBB_EAX_Id :: "instruction \<Rightarrow> cpu \<Rightarrow> cpu" where
  "SBB_EAX_Id i c =
     (let eax = cpu_eax c;
          imm = i_id i;
          cf = of_bool (get_cf c);
          result = eax - imm - cf
      in update_flags_sub32 eax imm result (set_eax result c))"

definition SBB_EdId_R :: "instruction \<Rightarrow> cpu \<Rightarrow> cpu" where
  "SBB_EdId_R i c =
     (let op1 = get_gpr32 (i_dst i) c;
          op2 = i_id i;
          cf = of_bool (get_cf c);
          result = op1 - op2 - cf
      in update_flags_sub32 op1 op2 result (set_gpr32 (i_dst i) result c))"

definition SBB_EdIb_R :: "instruction \<Rightarrow> cpu \<Rightarrow> cpu" where
  "SBB_EdIb_R i c =
     (let op1 = get_gpr32 (i_dst i) c;
          op2 = scast (i_ib i) :: u32;
          cf = of_bool (get_cf c);
          result = op1 - op2 - cf
      in update_flags_sub32 op1 op2 result (set_gpr32 (i_dst i) result c))"

definition CMP_EdId_R :: "instruction \<Rightarrow> cpu \<Rightarrow> cpu" where
  "CMP_EdId_R i c =
     (let op1 = get_gpr32 (i_dst i) c;
          op2 = i_id i;
          result = op1 - op2
      in update_flags_sub32 op1 op2 result c)"

definition CMP_EdGd_R :: "instruction \<Rightarrow> cpu \<Rightarrow> cpu" where
  "CMP_EdGd_R i c =
     (let op1 = get_gpr32 (i_dst i) c;
          op2 = get_gpr32 (i_src1 i) c;
          diff = op1 - op2
      in update_flags_sub32 op1 op2 diff c)"

definition NEG_EdR :: "instruction \<Rightarrow> cpu \<Rightarrow> cpu" where
  "NEG_EdR i c =
     (let op1 = get_gpr32 (i_dst i) c;
          result = 0 - op1
      in update_flags_sub32 0 op1 result (set_gpr32 (i_dst i) result c))"

definition CMPXCHG_EdGd_R :: "instruction \<Rightarrow> cpu \<Rightarrow> cpu" where
  "CMPXCHG_EdGd_R i c =
     (let op1 = get_gpr32 (i_dst i) c;
          eax = cpu_eax c;
          diff = eax - op1;
          c = update_flags_sub32 eax op1 diff c
      in if diff = 0 then set_gpr32 (i_dst i) (get_gpr32 (i_src1 i) c) c else set_rax (ucast op1) c)"

definition XADD_EdGd_R :: "instruction \<Rightarrow> cpu \<Rightarrow> cpu" where
  "XADD_EdGd_R i c =
     (let op1 = get_gpr32 (i_dst i) c;
          op2 = get_gpr32 (i_src1 i) c;
          s = op1 + op2;
          c = set_gpr32 (i_src1 i) op1 c;
          c = set_gpr32 (i_dst i) s c
      in update_flags_add32 op1 op2 s c)"

text \<open>32-bit register forms (\<^verbatim>\<open>logical32.rs\<close>).\<close>

definition zero_idiom_gd_r :: "instruction \<Rightarrow> cpu \<Rightarrow> cpu" where
  "zero_idiom_gd_r i c =
     (let c = set_gpr32 (i_dst i) 0 c
      in update_flags_logic32 0 c)"

definition cmp_eax_id :: "instruction \<Rightarrow> cpu \<Rightarrow> cpu" where
  "cmp_eax_id i c =
     (let op1 = get_gpr32 0 c;
          op2 = i_id i;
          result = op1 - op2
      in update_flags_sub32 op1 op2 result c)"

definition test_ed_gd_r :: "instruction \<Rightarrow> cpu \<Rightarrow> cpu" where
  "test_ed_gd_r i c =
     (let op1 = get_gpr32 (i_dst i) c;
          op2 = get_gpr32 (i_src1 i) c;
          result = op1 AND op2
      in update_flags_logic32 result c)"

definition test_eax_id :: "instruction \<Rightarrow> cpu \<Rightarrow> cpu" where
  "test_eax_id i c =
     (let op1 = get_gpr32 0 c;
          op2 = i_id i;
          result = op1 AND op2
      in update_flags_logic32 result c)"

definition test_ed_id_r :: "instruction \<Rightarrow> cpu \<Rightarrow> cpu" where
  "test_ed_id_r i c =
     (let op1 = get_gpr32 (i_dst i) c;
          op2 = i_id i;
          result = op1 AND op2
      in update_flags_logic32 result c)"

definition and_ed_gd_r :: "instruction \<Rightarrow> cpu \<Rightarrow> cpu" where
  "and_ed_gd_r i c =
     (let op1 = get_gpr32 (i_dst i) c;
          op2 = get_gpr32 (i_src1 i) c;
          result = op1 AND op2
      in update_flags_logic32 result (set_gpr32 (i_dst i) result c))"

definition and_gd_ed_r :: "instruction \<Rightarrow> cpu \<Rightarrow> cpu" where
  "and_gd_ed_r i c =
     (let op1 = get_gpr32 (i_dst i) c;
          op2 = get_gpr32 (i_src1 i) c;
          result = op1 AND op2
      in update_flags_logic32 result (set_gpr32 (i_dst i) result c))"

definition and_eax_id :: "instruction \<Rightarrow> cpu \<Rightarrow> cpu" where
  "and_eax_id i c =
     (let op1 = get_gpr32 0 c;
          op2 = i_id i;
          result = op1 AND op2
      in update_flags_logic32 result (set_gpr32 0 result c))"

definition and_ed_id_r :: "instruction \<Rightarrow> cpu \<Rightarrow> cpu" where
  "and_ed_id_r i c =
     (let op1 = get_gpr32 (i_dst i) c;
          op2 = i_id i;
          result = op1 AND op2
      in update_flags_logic32 result (set_gpr32 (i_dst i) result c))"

definition xor_ed_gd_r :: "instruction \<Rightarrow> cpu \<Rightarrow> cpu" where
  "xor_ed_gd_r i c =
     (let op1 = get_gpr32 (i_dst i) c;
          op2 = get_gpr32 (i_src1 i) c;
          result = op1 XOR op2
      in update_flags_logic32 result (set_gpr32 (i_dst i) result c))"

definition xor_gd_ed_r :: "instruction \<Rightarrow> cpu \<Rightarrow> cpu" where
  "xor_gd_ed_r i c =
     (let op1 = get_gpr32 (i_dst i) c;
          op2 = get_gpr32 (i_src1 i) c;
          result = op1 XOR op2
      in update_flags_logic32 result (set_gpr32 (i_dst i) result c))"

definition xor_eax_id :: "instruction \<Rightarrow> cpu \<Rightarrow> cpu" where
  "xor_eax_id i c =
     (let op1 = get_gpr32 0 c;
          op2 = i_id i;
          result = op1 XOR op2
      in update_flags_logic32 result (set_gpr32 0 result c))"

definition xor_ed_id_r :: "instruction \<Rightarrow> cpu \<Rightarrow> cpu" where
  "xor_ed_id_r i c =
     (let op1 = get_gpr32 (i_dst i) c;
          op2 = i_id i;
          result = op1 XOR op2
      in update_flags_logic32 result (set_gpr32 (i_dst i) result c))"

definition or_ed_gd_r :: "instruction \<Rightarrow> cpu \<Rightarrow> cpu" where
  "or_ed_gd_r i c =
     (let op1 = get_gpr32 (i_dst i) c;
          op2 = get_gpr32 (i_src1 i) c;
          result = op1 OR op2
      in update_flags_logic32 result (set_gpr32 (i_dst i) result c))"

definition or_gd_ed_r :: "instruction \<Rightarrow> cpu \<Rightarrow> cpu" where
  "or_gd_ed_r i c =
     (let op1 = get_gpr32 (i_dst i) c;
          op2 = get_gpr32 (i_src1 i) c;
          result = op1 OR op2
      in update_flags_logic32 result (set_gpr32 (i_dst i) result c))"

definition or_eax_id :: "instruction \<Rightarrow> cpu \<Rightarrow> cpu" where
  "or_eax_id i c =
     (let op1 = get_gpr32 0 c;
          op2 = i_id i;
          result = op1 OR op2
      in update_flags_logic32 result (set_gpr32 0 result c))"

definition or_ed_id_r :: "instruction \<Rightarrow> cpu \<Rightarrow> cpu" where
  "or_ed_id_r i c =
     (let op1 = get_gpr32 (i_dst i) c;
          op2 = i_id i;
          result = op1 OR op2
      in update_flags_logic32 result (set_gpr32 (i_dst i) result c))"

definition not_ed_r :: "instruction \<Rightarrow> cpu \<Rightarrow> cpu" where
  "not_ed_r i c =
     (let op1 = get_gpr32 (i_dst i) c
      in set_gpr32 (i_dst i) (NOT op1) c)"

definition inc_ed_r :: "instruction \<Rightarrow> cpu \<Rightarrow> cpu" where
  "inc_ed_r i c =
     (let op1 = get_gpr32 (i_dst i) c;
          result = op1 + 1;
          c = set_gpr32 (i_dst i) result c
      in c\<lparr>oszapc := set_oszap_add_32 op1 0 result (oszapc c)\<rparr>)"

definition dec_ed_r :: "instruction \<Rightarrow> cpu \<Rightarrow> cpu" where
  "dec_ed_r i c =
     (let op1 = get_gpr32 (i_dst i) c;
          result = op1 - 1;
          c = set_gpr32 (i_dst i) result c
      in c\<lparr>oszapc := set_oszap_sub_32 op1 0 result (oszapc c)\<rparr>)"

text \<open>64-bit register forms (\<^verbatim>\<open>arith64.rs\<close>); a 32-bit immediate is sign extended.\<close>

definition add_gq_eq_r :: "instruction \<Rightarrow> cpu \<Rightarrow> cpu" where
  "add_gq_eq_r i c =
     (let op1 = get_gpr64 (i_dst i) c;
          op2 = get_gpr64 (i_src1 i) c;
          s = op1 + op2
      in update_flags_add64 op1 op2 s (set_gpr64 (i_dst i) s c))"

definition add_eq_id_r :: "instruction \<Rightarrow> cpu \<Rightarrow> cpu" where
  "add_eq_id_r i c =
     (let op1 = get_gpr64 (i_dst i) c;
          op2 = scast (i_id i) :: u64;
          s = op1 + op2
      in update_flags_add64 op1 op2 s (set_gpr64 (i_dst i) s c))"

definition add_rax_id :: "instruction \<Rightarrow> cpu \<Rightarrow> cpu" where
  "add_rax_id i c =
     (let op1 = get_gpr64 0 c;
          op2 = scast (i_id i) :: u64;
          s = op1 + op2
      in update_flags_add64 op1 op2 s (set_gpr64 0 s c))"

definition adc_gq_eq_r :: "instruction \<Rightarrow> cpu \<Rightarrow> cpu" where
  "adc_gq_eq_r i c =
     (let op1 = get_gpr64 (i_dst i) c;
          op2 = get_gpr64 (i_src1 i) c;
          cf = of_bool (get_cf c);
          s = op1 + op2 + cf
      in update_flags_add64 op1 op2 s (set_gpr64 (i_dst i) s c))"

definition adc_eq_id_r :: "instruction \<Rightarrow> cpu \<Rightarrow> cpu" where
  "adc_eq_id_r i c =
     (let op1 = get_gpr64 (i_dst i) c;
          op2 = scast (i_id i) :: u64;
          cf = of_bool (get_cf c);
          s = op1 + op2 + cf
      in update_flags_add64 op1 op2 s (set_gpr64 (i_dst i) s c))"

definition adc_rax_id :: "instruction \<Rightarrow> cpu \<Rightarrow> cpu" where
  "adc_rax_id i c =
     (let op1 = get_gpr64 0 c;
          op2 = scast (i_id i) :: u64;
          cf = of_bool (get_cf c);
          s = op1 + op2 + cf
      in update_flags_add64 op1 op2 s (set_gpr64 0 s c))"

definition sbb_gq_eq_r :: "instruction \<Rightarrow> cpu \<Rightarrow> cpu" where
  "sbb_gq_eq_r i c =
     (let op1 = get_gpr64 (i_dst i) c;
          op2 = get_gpr64 (i_src1 i) c;
          cf = of_bool (get_cf c);
          diff = op1 - (op2 + cf)
      in update_flags_sub64 op1 op2 diff (set_gpr64 (i_dst i) diff c))"

definition sbb_eq_id_r :: "instruction \<Rightarrow> cpu \<Rightarrow> cpu" where
  "sbb_eq_id_r i c =
     (let op1 = get_gpr64 (i_dst i) c;
          op2 = scast (i_id i) :: u64;
          cf = of_bool (get_cf c);
          diff = op1 - (op2 + cf)
      in update_flags_sub64 op1 op2 diff (set_gpr64 (i_dst i) diff c))"

definition sbb_rax_id :: "instruction \<Rightarrow> cpu \<Rightarrow> cpu" where
  "sbb_rax_id i c =
     (let op1 = get_gpr64 0 c;
          op2 = scast (i_id i) :: u64;
          cf = of_bool (get_cf c);
          diff = op1 - (op2 + cf)
      in update_flags_sub64 op1 op2 diff (set_gpr64 0 diff c))"

definition sub_gq_eq_r :: "instruction \<Rightarrow> cpu \<Rightarrow> cpu" where
  "sub_gq_eq_r i c =
     (let op1 = get_gpr64 (i_dst i) c;
          op2 = get_gpr64 (i_src1 i) c;
          diff = op1 - op2
      in update_flags_sub64 op1 op2 diff (set_gpr64 (i_dst i) diff c))"

definition sub_eq_id_r :: "instruction \<Rightarrow> cpu \<Rightarrow> cpu" where
  "sub_eq_id_r i c =
     (let op1 = get_gpr64 (i_dst i) c;
          op2 = scast (i_id i) :: u64;
          diff = op1 - op2
      in update_flags_sub64 op1 op2 diff (set_gpr64 (i_dst i) diff c))"

definition sub_rax_id :: "instruction \<Rightarrow> cpu \<Rightarrow> cpu" where
  "sub_rax_id i c =
     (let op1 = get_gpr64 0 c;
          op2 = scast (i_id i) :: u64;
          diff = op1 - op2
      in update_flags_sub64 op1 op2 diff (set_gpr64 0 diff c))"

definition cmp_gq_eq_r :: "instruction \<Rightarrow> cpu \<Rightarrow> cpu" where
  "cmp_gq_eq_r i c =
     (let op1 = get_gpr64 (i_dst i) c;
          op2 = get_gpr64 (i_src1 i) c;
          diff = op1 - op2
      in update_flags_sub64 op1 op2 diff c)"

definition cmp_eq_id_r :: "instruction \<Rightarrow> cpu \<Rightarrow> cpu" where
  "cmp_eq_id_r i c =
     (let op1 = get_gpr64 (i_dst i) c;
          op2 = scast (i_id i) :: u64;
          diff = op1 - op2
      in update_flags_sub64 op1 op2 diff c)"

definition neg_eq_r :: "instruction \<Rightarrow> cpu \<Rightarrow> cpu" where
  "neg_eq_r i c =
     (let op1 = get_gpr64 (i_dst i) c;
          result = 0 - op1
      in update_flags_sub64 0 op1 result (set_gpr64 (i_dst i) result c))"

definition inc_eq_r :: "instruction \<Rightarrow> cpu \<Rightarrow> cpu" where
  "inc_eq_r i c =
     (let op1 = get_gpr64 (i_dst i) c;
          result = op1 + 1;
          c = set_gpr64 (i_dst i) result c
      in c\<lparr>oszapc := set_oszap_add_64 op1 0 result (oszapc c)\<rparr>)"

definition dec_eq_r :: "instruction \<Rightarrow> cpu \<Rightarrow> cpu" where
  "dec_eq_r i c =
     (let op1 = get_gpr64 (i_dst i) c;
          result = op1 - 1;
          c = set_gpr64 (i_dst i) result c
      in c\<lparr>oszapc := set_oszap_sub_64 op1 0 result (oszapc c)\<rparr>)"

definition xadd_eq_gq_r :: "instruction \<Rightarrow> cpu \<Rightarrow> cpu" where
  "xadd_eq_gq_r i c =
     (let op1 = get_gpr64 (i_dst i) c;
          op2 = get_gpr64 (i_src1 i) c;
          s = op1 + op2;
          c = set_gpr64 (i_src1 i) op1 c;
          c = set_gpr64 (i_dst i) s c
      in update_flags_add64 op1 op2 s c)"

definition cmpxchg_eq_gq_r :: "instruction \<Rightarrow> cpu \<Rightarrow> cpu" where
  "cmpxchg_eq_gq_r i c =
     (let op1 = get_gpr64 (i_dst i) c;
          rax = get_gpr64 0 c;
          diff = rax - op1;
          c = update_flags_sub64 rax op1 diff c
      in if diff = 0 then set_gpr64 (i_dst i) (get_gpr64 (i_src1 i) c) c else set_gpr64 0 op1 c)"

definition cdqe :: "instruction \<Rightarrow> cpu \<Rightarrow> cpu" where
  "cdqe i c =
     (let eax = get_gpr32 0 c
      in set_gpr64 0 (scast eax) c)"

definition cqo :: "instruction \<Rightarrow> cpu \<Rightarrow> cpu" where
  "cqo i c =
     (let rax = get_gpr64 0 c
      in set_gpr64 2 (if rax AND 0x8000000000000000 \<noteq> 0 then - 1 else 0) c)"

lemmas arith32_defs =
  ADD_GdEd_R_def ADD_EdGd_R_def ADD_EAX_Id_def ADD_EdId_R_def SUB_GdEd_R_def SUB_EdGd_R_def
  SUB_EAX_Id_def SUB_EdId_R_def ADC_GdEd_R_def ADC_EdGd_R_def ADC_EAX_Id_def ADC_EdId_R_def
  ADC_EdIb_R_def SBB_GdEd_R_def SBB_EdGd_R_def SBB_EAX_Id_def SBB_EdId_R_def SBB_EdIb_R_def
  CMP_EdId_R_def CMP_EdGd_R_def NEG_EdR_def CMPXCHG_EdGd_R_def XADD_EdGd_R_def

lemmas logical32_defs =
  zero_idiom_gd_r_def cmp_eax_id_def test_ed_gd_r_def test_eax_id_def test_ed_id_r_def
  and_ed_gd_r_def and_gd_ed_r_def and_eax_id_def and_ed_id_r_def xor_ed_gd_r_def
  xor_gd_ed_r_def xor_eax_id_def xor_ed_id_r_def or_ed_gd_r_def or_gd_ed_r_def or_eax_id_def
  or_ed_id_r_def not_ed_r_def inc_ed_r_def dec_ed_r_def

lemmas arith64_defs =
  add_gq_eq_r_def add_eq_id_r_def add_rax_id_def adc_gq_eq_r_def adc_eq_id_r_def
  adc_rax_id_def sbb_gq_eq_r_def sbb_eq_id_r_def sbb_rax_id_def sub_gq_eq_r_def
  sub_eq_id_r_def sub_rax_id_def cmp_gq_eq_r_def cmp_eq_id_r_def neg_eq_r_def inc_eq_r_def
  dec_eq_r_def xadd_eq_gq_r_def cmpxchg_eq_gq_r_def cdqe_def cqo_def

section \<open>Effect of a handler\<close>

text \<open>
  \<open>wrote d v fl c c'\<close>: the handler put \<open>v\<close> in register \<open>d\<close>, left the flags \<open>fl\<close> and changed
  nothing else. \<open>flagged fl c c'\<close>: it only left the flags \<open>fl\<close>.
\<close>

definition wrote :: "nat \<Rightarrow> u64 \<Rightarrow> flags \<Rightarrow> cpu \<Rightarrow> cpu \<Rightarrow> bool" where
  "wrote d v fl c c' \<longleftrightarrow>
     c' = c\<lparr>gen_reg := (gen_reg c)[d := v], oszapc := oszapc c'\<rparr> \<and> flags_of (oszapc c') = fl"

definition flagged :: "flags \<Rightarrow> cpu \<Rightarrow> cpu \<Rightarrow> bool" where
  "flagged fl c c' \<longleftrightarrow> c' = c\<lparr>oszapc := oszapc c'\<rparr> \<and> flags_of (oszapc c') = fl"

lemmas reg_writes = set_gpr32_eq set_gpr64_def set_eax_eq set_rax_def
  update_flags_add32_def update_flags_sub32_def update_flags_logic32_def
  update_flags_add64_def update_flags_sub64_def

lemmas reg_reads = get_gpr32_def get_gpr64_def cpu_eax_def

lemma cpu_eax_eq: "cpu_eax c = get_gpr32 0 c"
  by (simp add: cpu_eax_def get_gpr32_def)

lemma wrote_setters:
  "wrote d (ucast (a + b)) (add_flags a b False) c
     (update_flags_add32 a b (a + b) (set_gpr32 d (a + b) c))"
  "wrote d (ucast (a + b + of_bool k)) (add_flags a b k) c
     (update_flags_add32 a b (a + b + of_bool k) (set_gpr32 d (a + b + of_bool k) c))"
  "wrote d (ucast (a - b)) (sub_flags a b False) c
     (update_flags_sub32 a b (a - b) (set_gpr32 d (a - b) c))"
  "wrote d (ucast (a - b - of_bool k)) (sub_flags a b k) c
     (update_flags_sub32 a b (a - b - of_bool k) (set_gpr32 d (a - b - of_bool k) c))"
  "wrote d (ucast r) (logic_flags r) c (update_flags_logic32 r (set_gpr32 d r c))"
  "wrote d (x + y) (add_flags x y False) c
     (update_flags_add64 x y (x + y) (set_gpr64 d (x + y) c))"
  "wrote d (x + y + of_bool k) (add_flags x y k) c
     (update_flags_add64 x y (x + y + of_bool k) (set_gpr64 d (x + y + of_bool k) c))"
  "wrote d (x - y) (sub_flags x y False) c
     (update_flags_sub64 x y (x - y) (set_gpr64 d (x - y) c))"
  "wrote d (x - y - of_bool k) (sub_flags x y k) c
     (update_flags_sub64 x y (x - y - of_bool k) (set_gpr64 d (x - y - of_bool k) c))"
  by (simp_all add: wrote_def reg_writes alu_exact)

lemma flagged_setters:
  "flagged (sub_flags a b False) c (update_flags_sub32 a b (a - b) c)"
  "flagged (logic_flags r) c (update_flags_logic32 r c)"
  "flagged (sub_flags x y False) c (update_flags_sub64 x y (x - y) c)"
  by (simp_all add: flagged_def reg_writes alu_exact)

lemma wrote_step:
  "wrote d (ucast (a + 1)) ((add_flags a 1 False)\<lparr>fl_cf := get_cf c\<rparr>) c
     ((set_gpr32 d (a + 1) c)\<lparr>oszapc := set_oszap_add_32 a 0 (a + 1) (oszapc (set_gpr32 d (a + 1) c))\<rparr>)"
  "wrote d (ucast (a - 1)) ((sub_flags a 1 False)\<lparr>fl_cf := get_cf c\<rparr>) c
     ((set_gpr32 d (a - 1) c)\<lparr>oszapc := set_oszap_sub_32 a 0 (a - 1) (oszapc (set_gpr32 d (a - 1) c))\<rparr>)"
  "wrote d (x + 1) ((add_flags x 1 False)\<lparr>fl_cf := get_cf c\<rparr>) c
     ((set_gpr64 d (x + 1) c)\<lparr>oszapc := set_oszap_add_64 x 0 (x + 1) (oszapc (set_gpr64 d (x + 1) c))\<rparr>)"
  "wrote d (x - 1) ((sub_flags x 1 False)\<lparr>fl_cf := get_cf c\<rparr>) c
     ((set_gpr64 d (x - 1) c)\<lparr>oszapc := set_oszap_sub_64 x 0 (x - 1) (oszapc (set_gpr64 d (x - 1) c))\<rparr>)"
  by (simp_all add: wrote_def reg_writes alu_exact flags_bool)

lemmas handler_effects = wrote_setters flagged_setters wrote_step

text \<open>
  C17. The 32-bit additions and subtractions are exact. Every register form of ADD, ADC, SUB
  and SBB writes the wrapped sum or difference of its operands (with the carry flag of the
  moment for ADC and SBB) to its destination, zero extended to 64 bits, leaves the
  architectural flags of that operation and changes nothing else; CMP only leaves the flags of
  the difference; NEG is the subtraction from zero; INC and DEC add and subtract one and keep CF.
\<close>

theorem alu32_arithmetic:
  "let a = get_gpr32 (i_dst i) c; b = get_gpr32 (i_src1 i) c; e = cpu_eax c; m = i_id i;
       s = scast (i_ib i); k = get_cf c; d = i_dst i; keep = (\<lambda>f. f\<lparr>fl_cf := k\<rparr>) in
     wrote d (ucast (a + b)) (add_flags a b False) c (ADD_GdEd_R i c)
   \<and> wrote d (ucast (a + b)) (add_flags a b False) c (ADD_EdGd_R i c)
   \<and> wrote 0 (ucast (e + m)) (add_flags e m False) c (ADD_EAX_Id i c)
   \<and> wrote d (ucast (a + m)) (add_flags a m False) c (ADD_EdId_R i c)
   \<and> wrote d (ucast (a + b + of_bool k)) (add_flags a b k) c (ADC_GdEd_R i c)
   \<and> wrote d (ucast (a + b + of_bool k)) (add_flags a b k) c (ADC_EdGd_R i c)
   \<and> wrote 0 (ucast (e + m + of_bool k)) (add_flags e m k) c (ADC_EAX_Id i c)
   \<and> wrote d (ucast (a + m + of_bool k)) (add_flags a m k) c (ADC_EdId_R i c)
   \<and> wrote d (ucast (a + s + of_bool k)) (add_flags a s k) c (ADC_EdIb_R i c)
   \<and> wrote d (ucast (a - b)) (sub_flags a b False) c (SUB_GdEd_R i c)
   \<and> wrote d (ucast (a - b)) (sub_flags a b False) c (SUB_EdGd_R i c)
   \<and> wrote 0 (ucast (e - m)) (sub_flags e m False) c (SUB_EAX_Id i c)
   \<and> wrote d (ucast (a - m)) (sub_flags a m False) c (SUB_EdId_R i c)
   \<and> wrote d (ucast (a - b - of_bool k)) (sub_flags a b k) c (SBB_GdEd_R i c)
   \<and> wrote d (ucast (a - b - of_bool k)) (sub_flags a b k) c (SBB_EdGd_R i c)
   \<and> wrote 0 (ucast (e - m - of_bool k)) (sub_flags e m k) c (SBB_EAX_Id i c)
   \<and> wrote d (ucast (a - m - of_bool k)) (sub_flags a m k) c (SBB_EdId_R i c)
   \<and> wrote d (ucast (a - s - of_bool k)) (sub_flags a s k) c (SBB_EdIb_R i c)
   \<and> flagged (sub_flags a m False) c (CMP_EdId_R i c)
   \<and> flagged (sub_flags a b False) c (CMP_EdGd_R i c)
   \<and> flagged (sub_flags e m False) c (cmp_eax_id i c)
   \<and> wrote d (ucast (0 - a)) (sub_flags 0 a False) c (NEG_EdR i c)
   \<and> wrote d (ucast (a + 1)) (keep (add_flags a 1 False)) c (inc_ed_r i c)
   \<and> wrote d (ucast (a - 1)) (keep (sub_flags a 1 False)) c (dec_ed_r i c)"
  by (simp only: Let_def arith32_defs logical32_defs set_eax_eq handler_effects cpu_eax_eq simp_thms)

text \<open>
  The 64-bit additions and subtractions are exact: every register form of ADD, ADC, SUB,
  SBB, CMP, NEG, INC and DEC writes the wrapped result of its operands (a 32-bit immediate
  sign extended) to its destination and leaves the architectural flags of that operation, INC
  and DEC keeping CF; CDQE sign extends the accumulator.
\<close>

theorem alu64_arithmetic:
  "let a = get_gpr64 (i_dst i) c; b = get_gpr64 (i_src1 i) c; x = get_gpr64 0 c;
       m = scast (i_id i); k = get_cf c; d = i_dst i; keep = (\<lambda>f. f\<lparr>fl_cf := k\<rparr>) in
     wrote d (a + b) (add_flags a b False) c (add_gq_eq_r i c)
   \<and> wrote d (a + m) (add_flags a m False) c (add_eq_id_r i c)
   \<and> wrote 0 (x + m) (add_flags x m False) c (add_rax_id i c)
   \<and> wrote d (a + b + of_bool k) (add_flags a b k) c (adc_gq_eq_r i c)
   \<and> wrote d (a + m + of_bool k) (add_flags a m k) c (adc_eq_id_r i c)
   \<and> wrote 0 (x + m + of_bool k) (add_flags x m k) c (adc_rax_id i c)
   \<and> wrote d (a - b) (sub_flags a b False) c (sub_gq_eq_r i c)
   \<and> wrote d (a - m) (sub_flags a m False) c (sub_eq_id_r i c)
   \<and> wrote 0 (x - m) (sub_flags x m False) c (sub_rax_id i c)
   \<and> wrote d (a - b - of_bool k) (sub_flags a b k) c (sbb_gq_eq_r i c)
   \<and> wrote d (a - m - of_bool k) (sub_flags a m k) c (sbb_eq_id_r i c)
   \<and> wrote 0 (x - m - of_bool k) (sub_flags x m k) c (sbb_rax_id i c)
   \<and> flagged (sub_flags a b False) c (cmp_gq_eq_r i c)
   \<and> flagged (sub_flags a m False) c (cmp_eq_id_r i c)
   \<and> wrote d (0 - a) (sub_flags 0 a False) c (neg_eq_r i c)
   \<and> wrote d (a + 1) (keep (add_flags a 1 False)) c (inc_eq_r i c)
   \<and> wrote d (a - 1) (keep (sub_flags a 1 False)) c (dec_eq_r i c)
   \<and> wrote 0 (scast (get_gpr32 0 c)) (flags_of (oszapc c)) c (cdqe i c)"
proof -
  have "wrote 0 v (flags_of (oszapc c)) c (set_gpr64 0 v c)" for v
    by (simp add: wrote_def reg_writes)
  then show ?thesis
    by (simp only: Let_def arith64_defs handler_effects simp_thms flip: diff_diff_eq)
qed

text \<open>
  The bitwise instructions compute the bitwise function of their operands and leave the
  flags of the result with CF and OF clear; TEST only leaves the flags, NOT leaves them alone,
  and the zeroing idiom is the exclusive or of a register with itself.
\<close>

theorem logical32_exact:
  "let a = get_gpr32 (i_dst i) c; b = get_gpr32 (i_src1 i) c; e = get_gpr32 0 c; m = i_id i;
       d = i_dst i in
     wrote d (ucast (a AND b)) (logic_flags (a AND b)) c (and_ed_gd_r i c)
   \<and> wrote d (ucast (a AND b)) (logic_flags (a AND b)) c (and_gd_ed_r i c)
   \<and> wrote 0 (ucast (e AND m)) (logic_flags (e AND m)) c (and_eax_id i c)
   \<and> wrote d (ucast (a AND m)) (logic_flags (a AND m)) c (and_ed_id_r i c)
   \<and> wrote d (ucast (a OR b)) (logic_flags (a OR b)) c (or_ed_gd_r i c)
   \<and> wrote d (ucast (a OR b)) (logic_flags (a OR b)) c (or_gd_ed_r i c)
   \<and> wrote 0 (ucast (e OR m)) (logic_flags (e OR m)) c (or_eax_id i c)
   \<and> wrote d (ucast (a OR m)) (logic_flags (a OR m)) c (or_ed_id_r i c)
   \<and> wrote d (ucast (a XOR b)) (logic_flags (a XOR b)) c (xor_ed_gd_r i c)
   \<and> wrote d (ucast (a XOR b)) (logic_flags (a XOR b)) c (xor_gd_ed_r i c)
   \<and> wrote 0 (ucast (e XOR m)) (logic_flags (e XOR m)) c (xor_eax_id i c)
   \<and> wrote d (ucast (a XOR m)) (logic_flags (a XOR m)) c (xor_ed_id_r i c)
   \<and> flagged (logic_flags (a AND b)) c (test_ed_gd_r i c)
   \<and> flagged (logic_flags (e AND m)) c (test_eax_id i c)
   \<and> flagged (logic_flags (a AND m)) c (test_ed_id_r i c)
   \<and> wrote d (ucast (NOT a)) (flags_of (oszapc c)) c (not_ed_r i c)
   \<and> zero_idiom_gd_r i c = xor_gd_ed_r (i\<lparr>i_src1 := i_dst i\<rparr>) c"
proof -
  have "wrote d (ucast v) (flags_of (oszapc c)) c (set_gpr32 d v c)" for d v
    by (simp add: wrote_def reg_writes)
  moreover have "zero_idiom_gd_r i c = xor_gd_ed_r (i\<lparr>i_src1 := i_dst i\<rparr>) c"
    by (simp add: zero_idiom_gd_r_def xor_gd_ed_r_def)
  ultimately show ?thesis
    unfolding Let_def by (simp only: Let_def logical32_defs handler_effects simp_thms)
qed

text \<open>
  The exchange instructions on registers. CMPXCHG compares the accumulator with its
  destination: on equality the source goes to the destination, otherwise the destination goes
  to the accumulator, with the flags of the comparison in both cases. XADD leaves the old
  destination in the source and the sum in the destination, the sum winning when both are the
  same register.
\<close>

theorem exchange_forms:
  "let a = get_gpr32 (i_dst i) c; b = get_gpr32 (i_src1 i) c; e = cpu_eax c;
       x = get_gpr64 (i_dst i) c; y = get_gpr64 (i_src1 i) c; z = get_gpr64 0 c in
     wrote (if e = a then i_dst i else 0) (ucast (if e = a then b else a)) (sub_flags e a False) c
       (CMPXCHG_EdGd_R i c)
   \<and> wrote (if z = x then i_dst i else 0) (if z = x then y else x) (sub_flags z x False) c
       (cmpxchg_eq_gq_r i c)
   \<and> gen_reg (XADD_EdGd_R i c) = (gen_reg c)[i_src1 i := ucast a, i_dst i := ucast (a + b)]
   \<and> flags_of (oszapc (XADD_EdGd_R i c)) = add_flags a b False
   \<and> gen_reg (xadd_eq_gq_r i c) = (gen_reg c)[i_src1 i := x, i_dst i := x + y]
   \<and> flags_of (oszapc (xadd_eq_gq_r i c)) = add_flags x y False"
  by (simp add: Let_def CMPXCHG_EdGd_R_def cmpxchg_eq_gq_r_def XADD_EdGd_R_def xadd_eq_gq_r_def
      wrote_def reg_writes reg_reads alu_exact)

end
