(* ===== verification/Cpu_Branch.thy ===== *)
theory Cpu_Branch
  imports Cpu_Alu
begin

text \<open>
  Near control transfers and conditions: the branch helpers and conditional jumps of
  \<^verbatim>\<open>cpu/ctrl_xfer32.rs\<close> and \<^verbatim>\<open>cpu/ctrl_xfer64.rs\<close>, the LOOP and JCXZ families of the three
  operand sizes (\<^verbatim>\<open>ctrl_xfer16.rs\<close>), SETcc on a register (\<^verbatim>\<open>bit.rs\<close>), CMOVcc on registers
  (\<^verbatim>\<open>data_xfer_ext.rs\<close>, \<^verbatim>\<open>data_xfer64.rs\<close>) and the canonical address check of \<^verbatim>\<open>cpu.rs\<close>.

  The calls of the tracing hooks, which only observe, are left out.
\<close>

section \<open>Branch helpers\<close>

definition EIP :: nat where "EIP = 16"

definition cpu_ip :: "cpu \<Rightarrow> u16" where "cpu_ip c = rx (gen_reg c ! EIP)"

definition cpu_eip :: "cpu \<Rightarrow> u32" where "cpu_eip c = erx (gen_reg c ! EIP)"

definition cpu_rip :: "cpu \<Rightarrow> u64" where "cpu_rip c = gen_reg c ! EIP"

definition set_eip :: "u32 \<Rightarrow> cpu \<Rightarrow> cpu" where
  "set_eip val c = c\<lparr>gen_reg := (gen_reg c)[EIP := set_erx val (gen_reg c ! EIP)]\<rparr>"

definition set_rip :: "u64 \<Rightarrow> cpu \<Rightarrow> cpu" where
  "set_rip val c = c\<lparr>gen_reg := (gen_reg c)[EIP := val]\<rparr>"

definition BX_ASYNC_EVENT_STOP_TRACE :: u32 where
  "BX_ASYNC_EVENT_STOP_TRACE = push_bit 31 1"

definition branch_near16 :: "u16 \<Rightarrow> cpu \<Rightarrow> outcome" where
  "branch_near16 new_ip c =
     (if cs_limit c < ucast new_ip then (Inl (Gp, 0), c)
      else (let c = set_eip (ucast new_ip) c
            in (Inr (), c\<lparr>async_event := async_event c OR BX_ASYNC_EVENT_STOP_TRACE\<rparr>)))"

definition branch_near32 :: "u32 \<Rightarrow> cpu \<Rightarrow> outcome" where
  "branch_near32 new_eip c =
     (if cs_limit c < new_eip then (Inl (Gp, 0), c)
      else (let c = set_eip new_eip c
            in (Inr (), c\<lparr>async_event := async_event c OR BX_ASYNC_EVENT_STOP_TRACE\<rparr>)))"

definition is_canonical_to_width :: "u64 \<Rightarrow> nat \<Rightarrow> bool" where
  "is_canonical_to_width addr width =
     (let shifted = signed_drop_bit (width - 1) addr; jumped = shifted + 1 in jumped < 2)"

definition is_canonical :: "cpu \<Rightarrow> u64 \<Rightarrow> bool" where
  "is_canonical c addr = is_canonical_to_width addr (linaddr_width c)"

definition branch_near64 :: "instruction \<Rightarrow> cpu \<Rightarrow> outcome" where
  "branch_near64 i c =
     (let new_rip = cpu_rip c + scast (i_id i) in
      if \<not> is_canonical c new_rip then (Inl (Gp, 0), c)
      else (let c = set_rip new_rip c
            in (Inr (), c\<lparr>async_event := async_event c OR BX_ASYNC_EVENT_STOP_TRACE\<rparr>)))"

definition conditional_branch16 :: "bool \<Rightarrow> u16 \<Rightarrow> cpu \<Rightarrow> outcome" where
  "conditional_branch16 taken new_ip c = (if taken then branch_near16 new_ip c else (Inr (), c))"

definition conditional_branch32 :: "bool \<Rightarrow> u32 \<Rightarrow> cpu \<Rightarrow> outcome" where
  "conditional_branch32 taken new_eip c = (if taken then branch_near32 new_eip c else (Inr (), c))"

definition conditional_branch64 :: "bool \<Rightarrow> instruction \<Rightarrow> cpu \<Rightarrow> outcome" where
  "conditional_branch64 taken i c = (if taken then branch_near64 i c else (Inr (), c))"

section \<open>Conditions\<close>

text \<open>
  The sixteen conditions. Each of the sources has one function per condition, which differ in
  nothing else; here the condition is an argument.
\<close>

datatype condition = CcO | CcNO | CcB | CcNB | CcZ | CcNZ | CcBE | CcNBE
  | CcS | CcNS | CcP | CcNP | CcL | CcNL | CcLE | CcNLE

fun cc_holds :: "condition \<Rightarrow> cpu \<Rightarrow> bool" where
  "cc_holds CcO c = get_of c"
| "cc_holds CcNO c = (\<not> get_of c)"
| "cc_holds CcB c = get_cf c"
| "cc_holds CcNB c = (\<not> get_cf c)"
| "cc_holds CcZ c = get_zf c"
| "cc_holds CcNZ c = (\<not> get_zf c)"
| "cc_holds CcBE c = (get_cf c \<or> get_zf c)"
| "cc_holds CcNBE c = (\<not> get_cf c \<and> \<not> get_zf c)"
| "cc_holds CcS c = get_sf c"
| "cc_holds CcNS c = (\<not> get_sf c)"
| "cc_holds CcP c = get_pf c"
| "cc_holds CcNP c = (\<not> get_pf c)"
| "cc_holds CcL c = (get_sf c \<noteq> get_of c)"
| "cc_holds CcNL c = (get_sf c = get_of c)"
| "cc_holds CcLE c = (get_zf c \<or> get_sf c \<noteq> get_of c)"
| "cc_holds CcNLE c = (\<not> get_zf c \<and> get_sf c = get_of c)"

section \<open>Jumps, SETcc and CMOVcc\<close>

definition jcc_jb :: "condition \<Rightarrow> instruction \<Rightarrow> cpu \<Rightarrow> outcome" where
  "jcc_jb cc i c =
     (let new_ip = cpu_ip c + scast (i_ib i) in conditional_branch16 (cc_holds cc c) new_ip c)"

definition jcc_jw :: "condition \<Rightarrow> instruction \<Rightarrow> cpu \<Rightarrow> outcome" where
  "jcc_jw cc i c =
     (let new_ip = cpu_ip c + i_iw i in conditional_branch16 (cc_holds cc c) new_ip c)"

definition jcc_jd :: "condition \<Rightarrow> instruction \<Rightarrow> cpu \<Rightarrow> outcome" where
  "jcc_jd cc i c =
     (let new_eip = cpu_eip c + i_id i in conditional_branch32 (cc_holds cc c) new_eip c)"

definition jcc_jq :: "condition \<Rightarrow> instruction \<Rightarrow> cpu \<Rightarrow> outcome" where
  "jcc_jq cc i c = conditional_branch64 (cc_holds cc c) i c"

definition jmp_jb :: "instruction \<Rightarrow> cpu \<Rightarrow> outcome" where
  "jmp_jb i c = (let new_ip = cpu_ip c + scast (i_ib i) in branch_near16 new_ip c)"

definition jmp_jw :: "instruction \<Rightarrow> cpu \<Rightarrow> outcome" where
  "jmp_jw i c = (let new_ip = cpu_ip c + i_iw i in branch_near16 new_ip c)"

definition jmp_jd :: "instruction \<Rightarrow> cpu \<Rightarrow> outcome" where
  "jmp_jd i c = (let new_eip = cpu_eip c + i_id i in branch_near32 new_eip c)"

definition jmp_jq :: "instruction \<Rightarrow> cpu \<Rightarrow> outcome" where
  "jmp_jq i c =
     (let new_rip = cpu_rip c + scast (i_id i) in
      if \<not> is_canonical c new_rip then (Inl (Gp, 0), c)
      else (let c = set_rip new_rip c
            in (Inr (), c\<lparr>async_event := async_event c OR BX_ASYNC_EVENT_STOP_TRACE\<rparr>)))"

definition setcc_eb_r :: "instruction \<Rightarrow> bool \<Rightarrow> cpu \<Rightarrow> cpu" where
  "setcc_eb_r i v c = write_8bit_regx (i_dst i) (i_extend8bit_l i) (of_bool v) c"

definition set_cc_eb_r :: "condition \<Rightarrow> instruction \<Rightarrow> cpu \<Rightarrow> cpu" where
  "set_cc_eb_r cc i c = setcc_eb_r i (cc_holds cc c) c"

definition cmovcc_gw_ew_r :: "condition \<Rightarrow> instruction \<Rightarrow> cpu \<Rightarrow> cpu" where
  "cmovcc_gw_ew_r cc i c =
     (if cc_holds cc c then set_gpr16 (i_dst i) (get_gpr16 (i_src1 i) c) c else c)"

definition cmovcc_gd_ed_r :: "condition \<Rightarrow> instruction \<Rightarrow> cpu \<Rightarrow> cpu" where
  "cmovcc_gd_ed_r cc i c =
     bx_clear_64bit_high (i_dst i)
       (if cc_holds cc c then set_gpr32 (i_dst i) (get_gpr32 (i_src1 i) c) c else c)"

definition cmovcc_gq_eq_r :: "condition \<Rightarrow> instruction \<Rightarrow> cpu \<Rightarrow> cpu" where
  "cmovcc_gq_eq_r cc i c =
     (let val = get_gpr64 (i_src1 i) c
      in if cc_holds cc c then set_gpr64 (i_dst i) val c else c)"

section \<open>LOOP and JCXZ\<close>

definition cpu_cx :: "cpu \<Rightarrow> u16" where "cpu_cx c = rx (gen_reg c ! 1)"

definition cpu_ecx :: "cpu \<Rightarrow> u32" where "cpu_ecx c = erx (gen_reg c ! 1)"

definition set_cx :: "u16 \<Rightarrow> cpu \<Rightarrow> cpu" where
  "set_cx val c = c\<lparr>gen_reg := (gen_reg c)[1 := set_rx val (gen_reg c ! 1)]\<rparr>"

definition set_ecx :: "u32 \<Rightarrow> cpu \<Rightarrow> cpu" where
  "set_ecx val c =
     (let c = c\<lparr>gen_reg := (gen_reg c)[1 := set_erx val (gen_reg c ! 1)]\<rparr>
      in c\<lparr>gen_reg := (gen_reg c)[1 := set_hrx 0 (gen_reg c ! 1)]\<rparr>)"

definition loop16_jb :: "instruction \<Rightarrow> cpu \<Rightarrow> outcome" where
  "loop16_jb i c =
     (let new_ip = cpu_ip c + scast (i_ib i) in
      if i_as32_l i
      then (let count = get_gpr32 1 c - 1
            in ok_then (conditional_branch16 (count \<noteq> 0) new_ip c)
                 (\<lambda>c. (Inr (), set_gpr32 1 count c)))
      else (let count = get_gpr16 1 c - 1
            in ok_then (conditional_branch16 (count \<noteq> 0) new_ip c)
                 (\<lambda>c. (Inr (), set_gpr16 1 count c))))"

definition loope16_jb :: "instruction \<Rightarrow> cpu \<Rightarrow> outcome" where
  "loope16_jb i c =
     (let new_ip = cpu_ip c + scast (i_ib i) in
      if i_as32_l i
      then (let count = get_gpr32 1 c - 1
            in ok_then (conditional_branch16 (count \<noteq> 0 \<and> get_zf c) new_ip c)
                 (\<lambda>c. (Inr (), set_gpr32 1 count c)))
      else (let count = get_gpr16 1 c - 1
            in ok_then (conditional_branch16 (count \<noteq> 0 \<and> get_zf c) new_ip c)
                 (\<lambda>c. (Inr (), set_gpr16 1 count c))))"

definition loopne16_jb :: "instruction \<Rightarrow> cpu \<Rightarrow> outcome" where
  "loopne16_jb i c =
     (let new_ip = cpu_ip c + scast (i_ib i) in
      if i_as32_l i
      then (let count = get_gpr32 1 c - 1
            in ok_then (conditional_branch16 (count \<noteq> 0 \<and> \<not> get_zf c) new_ip c)
                 (\<lambda>c. (Inr (), set_gpr32 1 count c)))
      else (let count = get_gpr16 1 c - 1
            in ok_then (conditional_branch16 (count \<noteq> 0 \<and> \<not> get_zf c) new_ip c)
                 (\<lambda>c. (Inr (), set_gpr16 1 count c))))"

definition loop32_jb :: "instruction \<Rightarrow> cpu \<Rightarrow> outcome" where
  "loop32_jb i c =
     (if i_as32_l i
      then (let count = cpu_ecx c - 1; c = set_ecx count c;
                new_eip = cpu_eip c + scast (i_ib i)
            in conditional_branch32 (count \<noteq> 0) new_eip c)
      else (let count = cpu_cx c - 1; c = set_cx count c;
                new_eip = cpu_eip c + scast (i_ib i)
            in conditional_branch32 (count \<noteq> 0) new_eip c))"

definition loope32_jb :: "instruction \<Rightarrow> cpu \<Rightarrow> outcome" where
  "loope32_jb i c =
     (if i_as32_l i
      then (let count = cpu_ecx c - 1; c = set_ecx count c;
                new_eip = cpu_eip c + scast (i_ib i)
            in conditional_branch32 (count \<noteq> 0 \<and> get_zf c) new_eip c)
      else (let count = cpu_cx c - 1; c = set_cx count c;
                new_eip = cpu_eip c + scast (i_ib i)
            in conditional_branch32 (count \<noteq> 0 \<and> get_zf c) new_eip c))"

definition loopne32_jb :: "instruction \<Rightarrow> cpu \<Rightarrow> outcome" where
  "loopne32_jb i c =
     (if i_as32_l i
      then (let count = cpu_ecx c - 1; c = set_ecx count c;
                new_eip = cpu_eip c + scast (i_ib i)
            in conditional_branch32 (count \<noteq> 0 \<and> \<not> get_zf c) new_eip c)
      else (let count = cpu_cx c - 1; c = set_cx count c;
                new_eip = cpu_eip c + scast (i_ib i)
            in conditional_branch32 (count \<noteq> 0 \<and> \<not> get_zf c) new_eip c))"

definition loop64_jb :: "instruction \<Rightarrow> cpu \<Rightarrow> outcome" where
  "loop64_jb i c =
     (if i_as64_l i
      then (let count = get_gpr64 1 c - 1
            in ok_then (conditional_branch64 (count \<noteq> 0) i c)
                 (\<lambda>c. (Inr (), set_gpr64 1 count c)))
      else (let count = get_gpr32 1 c - 1
            in ok_then (conditional_branch64 (count \<noteq> 0) i c)
                 (\<lambda>c. (Inr (), set_gpr32 1 count c))))"

definition loope64_jb :: "instruction \<Rightarrow> cpu \<Rightarrow> outcome" where
  "loope64_jb i c =
     (if i_as64_l i
      then (let count = get_gpr64 1 c - 1
            in ok_then (conditional_branch64 (count \<noteq> 0 \<and> get_zf c) i c)
                 (\<lambda>c. (Inr (), set_gpr64 1 count c)))
      else (let count = get_gpr32 1 c - 1
            in ok_then (conditional_branch64 (count \<noteq> 0 \<and> get_zf c) i c)
                 (\<lambda>c. (Inr (), set_gpr32 1 count c))))"

definition loopne64_jb :: "instruction \<Rightarrow> cpu \<Rightarrow> outcome" where
  "loopne64_jb i c =
     (if i_as64_l i
      then (let count = get_gpr64 1 c - 1
            in ok_then (conditional_branch64 (count \<noteq> 0 \<and> \<not> get_zf c) i c)
                 (\<lambda>c. (Inr (), set_gpr64 1 count c)))
      else (let count = get_gpr32 1 c - 1
            in ok_then (conditional_branch64 (count \<noteq> 0 \<and> \<not> get_zf c) i c)
                 (\<lambda>c. (Inr (), set_gpr32 1 count c))))"

definition jcxz_jb :: "instruction \<Rightarrow> cpu \<Rightarrow> outcome" where
  "jcxz_jb i c =
     (let count = if i_as32_l i then get_gpr32 1 c else ucast (get_gpr16 1 c);
          new_ip = cpu_ip c + scast (i_ib i)
      in conditional_branch16 (count = 0) new_ip c)"

definition jecxz_jb :: "instruction \<Rightarrow> cpu \<Rightarrow> outcome" where
  "jecxz_jb i c =
     (let count = if i_as32_l i then get_gpr32 1 c else ucast (get_gpr16 1 c);
          new_eip = cpu_eip c + i_id i
      in conditional_branch32 (count = 0) new_eip c)"

definition jrcxz_jb :: "instruction \<Rightarrow> cpu \<Rightarrow> outcome" where
  "jrcxz_jb i c =
     (let temp_rcx = if i_as64_l i then get_gpr64 1 c else ucast (get_gpr32 1 c)
      in conditional_branch64 (temp_rcx = 0) i c)"

section \<open>Conditions after a comparison\<close>

text \<open>Moving a register onto itself, and the clearing that every 32-bit CMOVcc does.\<close>

lemma same_move:
  "set_gpr16 r (get_gpr16 r c) c = c" "set_gpr64 r (get_gpr64 r c) c = c"
proof -
  have "set_rx (rx v) v = v" for v by (rule bit_word_eqI) (auto simp: bit_set_rx rx_def bit_simps)
  then show "set_gpr16 r (get_gpr16 r c) c = c" by (simp add: set_gpr16_def get_gpr16_def)
  show "set_gpr64 r (get_gpr64 r c) c = c" by (simp add: set_gpr64_def get_gpr64_def)
qed

lemma clear_high_eq:
  "bx_clear_64bit_high r c = set_gpr32 r (get_gpr32 r c) c"
  "set_gpr32 r (get_gpr32 r (set_gpr32 r v c)) (set_gpr32 r v c) = set_gpr32 r v c"
proof -
  have e: "set_hrx 0 v = ucast (erx v)" for v
    by (rule bit_word_eqI) (auto simp: bit_set_hrx erx_def bit_simps)
  show "bx_clear_64bit_high r c = set_gpr32 r (get_gpr32 r c) c"
    by (simp add: bx_clear_64bit_high_def set_gpr32_eq get_gpr32_def e)
  show "set_gpr32 r (get_gpr32 r (set_gpr32 r v c)) (set_gpr32 r v c) = set_gpr32 r v c"
    by (cases "r < length (gen_reg c)") (simp_all add: set_gpr32_eq get_gpr32_def list_update_beyond)
qed

lemma sint_bounds:
  fixes a :: "'a::len word"
  assumes "LENGTH('a) = Suc n"
  shows "- (2 ^ n) \<le> sint a" "sint a < 2 ^ n"
  using sint_greater_eq [of a] sint_less [of a] assms by simp_all

lemma signed_less_flags:
  "fl_sf (sub_flags a b False) \<noteq> fl_of (sub_flags a b False) \<longleftrightarrow> sint a < sint b"
  for a b :: "'a::len word"
proof -
  obtain n where n: "LENGTH('a) = Suc n" using len_not_eq_0 [where 'a = 'a] by (metis not0_implies_Suc)
  define D N where "D = sint a - sint b" and "N = (2 ^ n :: int)"
  have N: "0 < N" by (simp add: N_def)
  have D: "- (2 * N) < D" "D < 2 * N"
    using sint_bounds [OF n, of a] sint_bounds [OF n, of b] by (simp_all add: D_def N_def)
  have r: "sint (a - b) = (D + N) mod (2 * N) - N"
    by (simp add: sint_word_ariths n signed_take_bit_eq_take_bit_shift take_bit_eq_mod D_def N_def)
  consider "D + N < 0" | "0 \<le> D + N" "D + N < 2 * N" | "2 * N \<le> D + N" by linarith
  then have "(sint (a - b) < 0) \<noteq> (sint (a - b) \<noteq> D) \<longleftrightarrow> D < 0"
  proof cases
    case 1
    then have "(D + N) mod (2 * N) = D + 3 * N"
      using D mod_add_self2 [of "D + N" "2 * N"] by (simp add: algebra_simps)
    with 1 D N show ?thesis by (simp add: r)
  next
    case 2
    with N show ?thesis by (simp add: r)
  next
    case 3
    then have "(D + N) mod (2 * N) = D - N"
      using D mod_add_self2 [of "D - N" "2 * N"] by (simp add: algebra_simps)
    with 3 D N show ?thesis by (simp add: r)
  qed
  then show ?thesis by (simp add: sub_flags_def Let_def D_def)
qed

lemma compare_flags:
  "fl_zf (sub_flags a b False) \<longleftrightarrow> a = b" "fl_cf (sub_flags a b False) \<longleftrightarrow> a < b"
  for a b :: "'a::len word"
  by (simp_all add: sub_flags_def Let_def word_less_nat_alt)

text \<open>The relation of two compared operands that each condition names.\<close>

fun stands_in :: "condition \<Rightarrow> 'a::len word \<Rightarrow> 'a word \<Rightarrow> bool" where
  "stands_in CcO a b \<longleftrightarrow> sint (a - b) \<noteq> sint a - sint b"
| "stands_in CcNO a b \<longleftrightarrow> sint (a - b) = sint a - sint b"
| "stands_in CcB a b \<longleftrightarrow> unat a < unat b"
| "stands_in CcNB a b \<longleftrightarrow> unat a \<ge> unat b"
| "stands_in CcZ a b \<longleftrightarrow> a = b"
| "stands_in CcNZ a b \<longleftrightarrow> a \<noteq> b"
| "stands_in CcBE a b \<longleftrightarrow> unat a \<le> unat b"
| "stands_in CcNBE a b \<longleftrightarrow> unat a > unat b"
| "stands_in CcS a b \<longleftrightarrow> sint (a - b) < 0"
| "stands_in CcNS a b \<longleftrightarrow> sint (a - b) \<ge> 0"
| "stands_in CcP a b \<longleftrightarrow> even_parity (a - b)"
| "stands_in CcNP a b \<longleftrightarrow> \<not> even_parity (a - b)"
| "stands_in CcL a b \<longleftrightarrow> sint a < sint b"
| "stands_in CcNL a b \<longleftrightarrow> sint a \<ge> sint b"
| "stands_in CcLE a b \<longleftrightarrow> sint a \<le> sint b"
| "stands_in CcNLE a b \<longleftrightarrow> sint a > sint b"

lemma cc_holds_compared:
  fixes a b :: "'a::len word"
  assumes "flags_of (oszapc c) = sub_flags a b False"
  shows "cc_holds cc c = stands_in cc a b"
proof -
  have c: "get_cf c = (unat a < unat b)" "get_zf c = (a = b)"
    by (simp_all add: flags_bool assms compare_flags word_less_nat_alt)
  have l: "(get_sf c = get_of c) = (\<not> sint a < sint b)"
    using signed_less_flags [of a b] by (auto simp: flags_bool assms)
  have o: "get_of c = (sint (a - b) \<noteq> sint a - sint b)" "get_sf c = (sint (a - b) < 0)"
      "get_pf c = even_parity (a - b)"
    by (simp_all add: flags_bool assms sub_flags_def Let_def)
  have e: "(a = b) = (sint a = sint b)" "(a = b) = (unat a = unat b)"
    by (auto intro: signed_word_eqI word_unat_eqI)
  show ?thesis
  proof (cases cc)
    case CcBE
    show ?thesis unfolding CcBE cc_holds.simps stands_in.simps c e(2) by linarith
  next
    case CcNBE
    show ?thesis unfolding CcNBE cc_holds.simps stands_in.simps c e(2) by linarith
  next
    case CcLE
    show ?thesis unfolding CcLE cc_holds.simps stands_in.simps c l e(1) by linarith
  next
    case CcNLE
    show ?thesis unfolding CcNLE cc_holds.simps stands_in.simps c l e(1) by linarith
  next
    case CcL
    show ?thesis unfolding CcL cc_holds.simps stands_in.simps l by simp
  next
    case CcNL
    show ?thesis unfolding CcNL cc_holds.simps stands_in.simps l by linarith
  qed (auto simp: c o)
qed

text \<open>
  C10. A comparison decides what follows it. After CMP of two 32-bit or two 64-bit registers,
  every one of the sixteen conditions holds exactly when the operands stand in the relation it
  names: equal, below and above as unsigned numbers, less and greater as signed numbers, and
  sign, overflow and parity of the difference. The jumps with 8, 16, 32 and 64-bit branch
  targets are taken, SETcc stores one and CMOVcc moves in exactly that case; a 32-bit CMOVcc
  clears the high half of its destination either way.
\<close>

theorem comparison_decides_branches:
  "let a = get_gpr32 (i_dst k) c; b = get_gpr32 (i_src1 k) c; c1 = CMP_EdGd_R k c; r = stands_in cc a b;
       x = get_gpr64 (i_dst k) c; y = get_gpr64 (i_src1 k) c; c2 = cmp_gq_eq_r k c; q = stands_in cc x y in
     cc_holds cc c1 = r \<and> cc_holds cc c2 = q
   \<and> jcc_jb cc i c1 = (if r then jmp_jb i c1 else (Inr (), c1))
   \<and> jcc_jw cc i c1 = (if r then jmp_jw i c1 else (Inr (), c1))
   \<and> jcc_jd cc i c1 = (if r then jmp_jd i c1 else (Inr (), c1))
   \<and> jcc_jq cc i c2 = (if q then jmp_jq i c2 else (Inr (), c2))
   \<and> set_cc_eb_r cc i c1 = write_8bit_regx (i_dst i) (i_extend8bit_l i) (if r then 1 else 0) c1
   \<and> cmovcc_gw_ew_r cc i c1 = set_gpr16 (i_dst i) (get_gpr16 (if r then i_src1 i else i_dst i) c1) c1
   \<and> cmovcc_gd_ed_r cc i c1 = set_gpr32 (i_dst i) (get_gpr32 (if r then i_src1 i else i_dst i) c1) c1
   \<and> cmovcc_gq_eq_r cc i c2 = set_gpr64 (i_dst i) (get_gpr64 (if q then i_src1 i else i_dst i) c2) c2"
proof -
  let ?c = "CMP_EdGd_R k c" and ?d = "cmp_gq_eq_r k c"
  have "flags_of (oszapc ?c) = sub_flags (get_gpr32 (i_dst k) c) (get_gpr32 (i_src1 k) c) False"
    by (simp add: CMP_EdGd_R_def Let_def reg_writes alu_exact)
  note f = cc_holds_compared [OF this, of cc]
  have "flags_of (oszapc ?d) = sub_flags (get_gpr64 (i_dst k) c) (get_gpr64 (i_src1 k) c) False"
    by (simp add: cmp_gq_eq_r_def Let_def reg_writes alu_exact)
  note g = cc_holds_compared [OF this, of cc]
  show ?thesis
    unfolding Let_def f g jcc_jb_def jcc_jw_def jcc_jd_def jcc_jq_def set_cc_eb_r_def setcc_eb_r_def
      cmovcc_gw_ew_r_def cmovcc_gd_ed_r_def cmovcc_gq_eq_r_def jmp_jb_def jmp_jw_def jmp_jd_def jmp_jq_def
    by (simp add: conditional_branch16_def conditional_branch32_def conditional_branch64_def
        branch_near64_def Let_def same_move clear_high_eq)
qed

section \<open>Canonical addresses\<close>

lemma word_less_2: "x < 2 \<longleftrightarrow> x = 0 \<or> x = 1" for x :: u64
  by (simp add: word_less_nat_alt word_unat_eq_iff less_2_cases_iff)

lemma word_sint_eq_iff: "x = y \<longleftrightarrow> sint x = sint y" for x y :: "'a::len word"
  by (auto intro: signed_word_eqI)

lemma div_unit_interval:
  "0 < p \<Longrightarrow> x div p = - 1 \<or> x div p = 0 \<longleftrightarrow> - p \<le> x \<and> x < p" for x p :: int
proof -
  assume p: "0 < p"
  define q where "q = x div p"
  have x: "x = p * q + x mod p" "0 \<le> x mod p" "x mod p < p" using p by (simp_all add: q_def)
  consider "q \<le> - 2" | "q = - 1" | "q = 0" | "1 \<le> q" by linarith
  then show ?thesis
    unfolding q_def [symmetric]
  proof cases
    case 1
    then have "p * q \<le> p * (- 2)" using p by (intro mult_left_mono) simp_all
    with 1 x show "q = - 1 \<or> q = 0 \<longleftrightarrow> - p \<le> x \<and> x < p" by linarith
  next
    case 4
    then have "p * 1 \<le> p * q" using p by (intro mult_left_mono) simp_all
    with 4 x show "q = - 1 \<or> q = 0 \<longleftrightarrow> - p \<le> x \<and> x < p" by linarith
  qed (use x in auto)
qed

text \<open>
  The canonical address check accepts an address exactly when it is the sign extension of
  its low \<open>w\<close> bits: as a signed number it lies between \<open>-2^(w-1)\<close> and \<open>2^(w-1)\<close>.
\<close>

theorem canonical_iff_sign_extended:
  assumes "0 < w" "w \<le> 64"
  shows "is_canonical_to_width addr w \<longleftrightarrow> - (2 ^ (w - 1)) \<le> sint addr \<and> sint addr < 2 ^ (w - 1)"
proof -
  let ?s = "signed_drop_bit (w - 1) addr" and ?p = "2 ^ (w - 1) :: int"
  have "?s + 1 < 2 \<longleftrightarrow> ?s + 1 = 0 \<or> ?s + 1 = 1" by (rule word_less_2)
  also have "\<dots> \<longleftrightarrow> ?s = - 1 \<or> ?s = 0"
    by (simp only: eq_neg_iff_add_eq_0) simp
  also have "\<dots> \<longleftrightarrow> sint ?s = - 1 \<or> sint ?s = 0"
    unfolding word_sint_eq_iff [of _ "- 1"] word_sint_eq_iff [of _ 0] by simp
  also have "sint ?s = sint addr div ?p"
    by (simp add: sint_signed_drop_bit_eq drop_bit_eq_div)
  also have "sint addr div ?p = - 1 \<or> sint addr div ?p = 0 \<longleftrightarrow> - ?p \<le> sint addr \<and> sint addr < ?p"
    by (rule div_unit_interval) simp
  finally show ?thesis by (simp add: is_canonical_to_width_def)
qed

theorem canonical_iff_sign_extended_witness:
  "is_canonical_to_width 0xFFFF800000000000 48
   \<and> - (2 ^ 47) \<le> sint (0xFFFF800000000000 :: u64)"
proof -
  have "is_canonical_to_width 0xFFFF800000000000 48"
    by (simp add: canonical_iff_sign_extended)
  then show ?thesis by simp
qed

section \<open>LOOP\<close>

text \<open>
  The register that LOOP counts in, at the width the address size selects, and what a LOOP
  must leave: the unchanged state when it faults, the decremented counter otherwise.
\<close>

definition counted16 :: "instruction \<Rightarrow> cpu \<Rightarrow> outcome \<Rightarrow> bool" where
  "counted16 i c r = (case r of
     (Inl _, c') \<Rightarrow> c' = c
   | (Inr _, c') \<Rightarrow> if i_as32_l i then get_gpr32 1 c' = get_gpr32 1 c - 1
                   else get_gpr16 1 c' = get_gpr16 1 c - 1)"

definition counted64 :: "instruction \<Rightarrow> cpu \<Rightarrow> outcome \<Rightarrow> bool" where
  "counted64 i c r = (case r of
     (Inl _, c') \<Rightarrow> c' = c
   | (Inr _, c') \<Rightarrow> if i_as64_l i then get_gpr64 1 c' = get_gpr64 1 c - 1
                   else get_gpr32 1 c' = get_gpr32 1 c - 1)"

lemmas branch_defs = conditional_branch16_def conditional_branch32_def conditional_branch64_def
  branch_near16_def branch_near32_def branch_near64_def set_eip_def set_rip_def

lemma counted16_ok_then:
  assumes "1 < length (gen_reg c)"
  shows "i_as32_l i \<Longrightarrow> counted16 i c
      (ok_then (conditional_branch16 p t c) (\<lambda>c'. (Inr (), set_gpr32 1 (get_gpr32 1 c - 1) c')))"
    "\<not> i_as32_l i \<Longrightarrow> counted16 i c
      (ok_then (conditional_branch16 p t c) (\<lambda>c'. (Inr (), set_gpr16 1 (get_gpr16 1 c - 1) c')))"
  using assms
  by (simp_all add: counted16_def branch_defs Let_def get_gpr32_def set_gpr32_eq get_gpr16_def
      set_gpr16_def views_of_set_rx)

lemma counted64_ok_then:
  assumes "1 < length (gen_reg c)"
  shows "i_as64_l i \<Longrightarrow> counted64 i c
      (ok_then (conditional_branch64 p i c) (\<lambda>c'. (Inr (), set_gpr64 1 (get_gpr64 1 c - 1) c')))"
    "\<not> i_as64_l i \<Longrightarrow> counted64 i c
      (ok_then (conditional_branch64 p i c) (\<lambda>c'. (Inr (), set_gpr32 1 (get_gpr32 1 c - 1) c')))"
  using assms
  by (simp_all add: counted64_def branch_defs Let_def get_gpr32_def set_gpr32_eq get_gpr64_def
      set_gpr64_def)

text \<open>
  The 16-bit and 64-bit LOOP instructions are restartable: when the branch faults (a target
  beyond the code segment limit, a non-canonical target) the whole state is as before, so the
  fault handler can run the instruction again; otherwise the counter is one less.
\<close>

theorem loops_restartable:
  assumes "1 < length (gen_reg c)"
  shows "counted16 i c (loop16_jb i c) \<and> counted16 i c (loope16_jb i c)
   \<and> counted16 i c (loopne16_jb i c) \<and> counted64 i c (loop64_jb i c)
   \<and> counted64 i c (loope64_jb i c) \<and> counted64 i c (loopne64_jb i c)"
  by (simp add: loop16_jb_def loope16_jb_def loopne16_jb_def loop64_jb_def loope64_jb_def
      loopne64_jb_def Let_def counted16_ok_then counted64_ok_then assms del: One_nat_def)

theorem loops_restartable_witness:
  "counted16 \<lparr>i_dst = 0, i_src1 = 0, i_extend8bit_l = False, i_as32_l = True, i_as64_l = False,
      i_immediate = 0xFE\<rparr> blank_cpu
     (loop16_jb \<lparr>i_dst = 0, i_src1 = 0, i_extend8bit_l = False, i_as32_l = True, i_as64_l = False,
      i_immediate = 0xFE\<rparr> blank_cpu)"
  using loops_restartable [of blank_cpu "\<lparr>i_dst = 0, i_src1 = 0, i_extend8bit_l = False,
      i_as32_l = True, i_as64_l = False, i_immediate = 0xFE\<rparr>"]
  by (simp add: blank_cpu_def GEN_REGS_def)

text \<open>
  C16. The 32-bit LOOP is not restartable. It decrements the counter before it checks the branch
  target, so when the target lies beyond the code segment limit the fault is raised with the
  counter already one less, and running the instruction again after the fault counts twice.
\<close>

theorem loop32_fault_loses_count:
  assumes "i_as32_l i" "get_gpr32 1 c \<noteq> 1" "cs_limit c < cpu_eip c + scast (i_ib i)"
  shows "loop32_jb i c = (Inl (Gp, 0), set_gpr32 1 (get_gpr32 1 c - 1) c)"
proof -
  have e: "set_ecx v c = set_gpr32 1 v c" for v by (simp add: set_ecx_def set_gpr32_def)
  have "cpu_eip (set_gpr32 1 v c) = cpu_eip c" for v
    by (simp add: cpu_eip_def EIP_def set_gpr32_eq)
  moreover have "cs_limit (set_gpr32 1 v c) = cs_limit c" for v by (simp add: set_gpr32_eq)
  moreover have "cpu_ecx c = get_gpr32 1 c" by (simp add: cpu_ecx_def get_gpr32_def)
  ultimately show ?thesis
    using assms by (simp add: loop32_jb_def e branch_defs)
qed

theorem loop32_fault_loses_count_witness:
  "let i = \<lparr>i_dst = 0, i_src1 = 0, i_extend8bit_l = False, i_as32_l = True, i_as64_l = False,
            i_immediate = 0xFE\<rparr>;
       c = set_gpr32 1 3 blank_cpu in
   loop32_jb i c = (Inl (Gp, 0), set_gpr32 1 2 c)"
proof -
  let ?i = "\<lparr>i_dst = 0, i_src1 = 0, i_extend8bit_l = False, i_as32_l = True, i_as64_l = False,
            i_immediate = 0xFE\<rparr>" and ?c = "set_gpr32 1 3 blank_cpu"
  have g: "get_gpr32 1 ?c = 3"
    by (simp add: get_gpr32_def set_gpr32_eq blank_cpu_def GEN_REGS_def erx_def)
  have "cs_limit ?c < cpu_eip ?c + scast (i_ib ?i)"
    by (simp add: cpu_eip_def EIP_def set_gpr32_eq blank_cpu_def GEN_REGS_def i_ib_def erx_def)
  with g show ?thesis using loop32_fault_loses_count [of ?i ?c] by simp
qed

end
