(* ===== verification/Cpu_Shift.thy ===== *)
theory Cpu_Shift
  imports Cpu_Alu
begin

text \<open>
  The 32-bit shifts and rotates of \<^verbatim>\<open>cpu/shift32.rs\<close> on a register operand (the branch of each
  handler that \<^verbatim>\<open>mod_c0\<close> selects; \<^verbatim>\<open>shift_read32\<close> and \<^verbatim>\<open>shift_write32\<close> are then \<open>get_gpr32\<close> and
  \<open>set_gpr32\<close>). Each operation comes with the count one, with the count in CL and with an
  immediate count; the last two use the low five bits and a count of zero only clears the high
  half of the register. The lemmas give the result as arithmetic on the operand, the rotates
  through carry as rotations of the 33-bit value made of the carry flag and the operand.
\<close>

section \<open>Handlers\<close>

definition shift32_count0_clear :: "instruction \<Rightarrow> cpu \<Rightarrow> cpu" where
  "shift32_count0_clear i c = bx_clear_64bit_high (i_dst i) c"

definition update_flags_shl32 :: "u32 \<Rightarrow> bool \<Rightarrow> bool \<Rightarrow> cpu \<Rightarrow> cpu" where
  "update_flags_shl32 result cf ovf c = set_cf_of cf ovf (update_flags_logic32 result c)"

definition update_flags_shr32 :: "u32 \<Rightarrow> bool \<Rightarrow> bool \<Rightarrow> cpu \<Rightarrow> cpu" where
  "update_flags_shr32 result cf ovf c = set_cf_of cf ovf (update_flags_logic32 result c)"

definition update_flags_sar32 :: "u32 \<Rightarrow> bool \<Rightarrow> cpu \<Rightarrow> cpu" where
  "update_flags_sar32 result cf c = set_cf_of cf False (update_flags_logic32 result c)"

definition count_cl :: "cpu \<Rightarrow> nat" where
  "count_cl c = unat (cpu_cl c AND 0x1F)"

definition count_ib :: "instruction \<Rightarrow> nat" where
  "count_ib i = unat (i_ib i AND 0x1F)"

definition shl_ed_1_r :: "instruction \<Rightarrow> cpu \<Rightarrow> cpu" where
  "shl_ed_1_r i c =
     (let op1 = get_gpr32 (i_dst i) c;
          result = push_bit 1 op1;
          cf = op1 AND 0x80000000 \<noteq> 0;
          ovf = (result XOR op1) AND 0x80000000 \<noteq> 0
      in update_flags_shl32 result cf ovf (set_gpr32 (i_dst i) result c))"

definition shl_ed_cl_r :: "instruction \<Rightarrow> cpu \<Rightarrow> cpu" where
  "shl_ed_cl_r i c =
     (let count = count_cl c in
      if count = 0 then shift32_count0_clear i c
      else (let op1 = get_gpr32 (i_dst i) c;
                result = push_bit count op1;
                cf = push_bit (count - 1) op1 AND 0x80000000 \<noteq> 0;
                ovf = (cf \<noteq> (drop_bit 31 result \<noteq> 0))
            in update_flags_shl32 result cf ovf (set_gpr32 (i_dst i) result c)))"

definition shl_ed_ib_r :: "instruction \<Rightarrow> cpu \<Rightarrow> cpu" where
  "shl_ed_ib_r i c =
     (let count = count_ib i in
      if count = 0 then shift32_count0_clear i c
      else (let op1 = get_gpr32 (i_dst i) c;
                result = push_bit count op1;
                cf = push_bit (count - 1) op1 AND 0x80000000 \<noteq> 0;
                ovf = (cf \<noteq> (drop_bit 31 result \<noteq> 0))
            in update_flags_shl32 result cf ovf (set_gpr32 (i_dst i) result c)))"

definition shr_ed_1_r :: "instruction \<Rightarrow> cpu \<Rightarrow> cpu" where
  "shr_ed_1_r i c =
     (let op1 = get_gpr32 (i_dst i) c;
          result = drop_bit 1 op1;
          cf = op1 AND 0x00000001 \<noteq> 0;
          ovf = op1 AND 0x80000000 \<noteq> 0
      in update_flags_shr32 result cf ovf (set_gpr32 (i_dst i) result c))"

definition shr_ed_cl_r :: "instruction \<Rightarrow> cpu \<Rightarrow> cpu" where
  "shr_ed_cl_r i c =
     (let count = count_cl c in
      if count = 0 then shift32_count0_clear i c
      else (let op1 = get_gpr32 (i_dst i) c;
                result = drop_bit count op1;
                cf = drop_bit (count - 1) op1 AND 0x00000001 \<noteq> 0;
                ovf = drop_bit 31 (push_bit 1 result XOR result) \<noteq> 0
            in update_flags_shr32 result cf ovf (set_gpr32 (i_dst i) result c)))"

definition shr_ed_ib_r :: "instruction \<Rightarrow> cpu \<Rightarrow> cpu" where
  "shr_ed_ib_r i c =
     (let count = count_ib i in
      if count = 0 then shift32_count0_clear i c
      else (let op1 = get_gpr32 (i_dst i) c;
                result = drop_bit count op1;
                cf = drop_bit (count - 1) op1 AND 0x00000001 \<noteq> 0;
                ovf = drop_bit 31 (push_bit 1 result XOR result) \<noteq> 0
            in update_flags_shr32 result cf ovf (set_gpr32 (i_dst i) result c)))"

definition sar_ed_1_r :: "instruction \<Rightarrow> cpu \<Rightarrow> cpu" where
  "sar_ed_1_r i c =
     (let op1 = get_gpr32 (i_dst i) c;
          result = signed_drop_bit 1 op1;
          cf = op1 AND 0x00000001 \<noteq> 0
      in update_flags_sar32 result cf (set_gpr32 (i_dst i) result c))"

definition sar_ed_cl_r :: "instruction \<Rightarrow> cpu \<Rightarrow> cpu" where
  "sar_ed_cl_r i c =
     (let count = count_cl c in
      if count = 0 then shift32_count0_clear i c
      else (let op1 = get_gpr32 (i_dst i) c;
                result = signed_drop_bit count op1;
                cf = signed_drop_bit (count - 1) op1 AND 0x00000001 \<noteq> 0
            in update_flags_sar32 result cf (set_gpr32 (i_dst i) result c)))"

definition sar_ed_ib_r :: "instruction \<Rightarrow> cpu \<Rightarrow> cpu" where
  "sar_ed_ib_r i c =
     (let count = count_ib i in
      if count = 0 then shift32_count0_clear i c
      else (let op1 = get_gpr32 (i_dst i) c;
                result = signed_drop_bit count op1;
                cf = signed_drop_bit (count - 1) op1 AND 0x00000001 \<noteq> 0
            in update_flags_sar32 result cf (set_gpr32 (i_dst i) result c)))"

definition rol_ed_1_r :: "instruction \<Rightarrow> cpu \<Rightarrow> cpu" where
  "rol_ed_1_r i c =
     (let op1 = get_gpr32 (i_dst i) c;
          result = word_rotl 1 op1;
          cf = result AND 1 \<noteq> 0;
          ovf = (result XOR drop_bit 31 result) AND 1 \<noteq> 0
      in set_cf_of cf ovf (set_gpr32 (i_dst i) result c))"

definition rol_ed_cl_r :: "instruction \<Rightarrow> cpu \<Rightarrow> cpu" where
  "rol_ed_cl_r i c =
     (let count = count_cl c in
      if count = 0 then shift32_count0_clear i c
      else (let op1 = get_gpr32 (i_dst i) c;
                result = word_rotl count op1;
                cf = result AND 1 \<noteq> 0;
                ovf = (result XOR drop_bit 31 result) AND 1 \<noteq> 0
            in set_cf_of cf ovf (set_gpr32 (i_dst i) result c)))"

definition rol_ed_ib_r :: "instruction \<Rightarrow> cpu \<Rightarrow> cpu" where
  "rol_ed_ib_r i c =
     (let count = count_ib i in
      if count = 0 then shift32_count0_clear i c
      else (let op1 = get_gpr32 (i_dst i) c;
                result = word_rotl count op1;
                cf = result AND 1 \<noteq> 0;
                ovf = (result XOR drop_bit 31 result) AND 1 \<noteq> 0
            in set_cf_of cf ovf (set_gpr32 (i_dst i) result c)))"

definition ror_ed_1_r :: "instruction \<Rightarrow> cpu \<Rightarrow> cpu" where
  "ror_ed_1_r i c =
     (let op1 = get_gpr32 (i_dst i) c;
          result = word_rotr 1 op1;
          cf = result AND 0x80000000 \<noteq> 0;
          ovf = (result XOR push_bit 1 result) AND 0x80000000 \<noteq> 0
      in set_cf_of cf ovf (set_gpr32 (i_dst i) result c))"

definition ror_ed_cl_r :: "instruction \<Rightarrow> cpu \<Rightarrow> cpu" where
  "ror_ed_cl_r i c =
     (let count = count_cl c in
      if count = 0 then shift32_count0_clear i c
      else (let op1 = get_gpr32 (i_dst i) c;
                result = word_rotr count op1;
                cf = result AND 0x80000000 \<noteq> 0;
                ovf = (result XOR push_bit 1 result) AND 0x80000000 \<noteq> 0
            in set_cf_of cf ovf (set_gpr32 (i_dst i) result c)))"

definition ror_ed_ib_r :: "instruction \<Rightarrow> cpu \<Rightarrow> cpu" where
  "ror_ed_ib_r i c =
     (let count = count_ib i in
      if count = 0 then shift32_count0_clear i c
      else (let op1 = get_gpr32 (i_dst i) c;
                result = word_rotr count op1;
                cf = result AND 0x80000000 \<noteq> 0;
                ovf = (result XOR push_bit 1 result) AND 0x80000000 \<noteq> 0
            in set_cf_of cf ovf (set_gpr32 (i_dst i) result c)))"

definition rcl_ed_1_r :: "instruction \<Rightarrow> cpu \<Rightarrow> cpu" where
  "rcl_ed_1_r i c =
     (let op1 = get_gpr32 (i_dst i) c;
          temp_cf = of_bool (get_cf c) :: u32;
          result = push_bit 1 op1 OR temp_cf;
          cf = drop_bit 31 op1 AND 1;
          ovf = cf XOR drop_bit 31 result
      in set_cf_of (cf \<noteq> 0) (ovf \<noteq> 0) (set_gpr32 (i_dst i) result c))"

definition rcl_ed_cl_r :: "instruction \<Rightarrow> cpu \<Rightarrow> cpu" where
  "rcl_ed_cl_r i c =
     (let count = count_cl c in
      if count = 0 then shift32_count0_clear i c
      else (let op1 = get_gpr32 (i_dst i) c;
                temp_cf = of_bool (get_cf c) :: u32;
                result = (if count = 1 then push_bit 1 op1 OR temp_cf
                          else push_bit count op1 OR push_bit (count - 1) temp_cf OR drop_bit (33 - count) op1);
                cf = drop_bit (32 - count) op1 AND 1;
                ovf = cf XOR drop_bit 31 result
            in set_cf_of (cf \<noteq> 0) (ovf \<noteq> 0) (set_gpr32 (i_dst i) result c)))"

definition rcl_ed_ib_r :: "instruction \<Rightarrow> cpu \<Rightarrow> cpu" where
  "rcl_ed_ib_r i c =
     (let count = count_ib i in
      if count = 0 then shift32_count0_clear i c
      else (let op1 = get_gpr32 (i_dst i) c;
                temp_cf = of_bool (get_cf c) :: u32;
                result = (if count = 1 then push_bit 1 op1 OR temp_cf
                          else push_bit count op1 OR push_bit (count - 1) temp_cf OR drop_bit (33 - count) op1);
                cf = drop_bit (32 - count) op1 AND 1;
                ovf = cf XOR drop_bit 31 result
            in set_cf_of (cf \<noteq> 0) (ovf \<noteq> 0) (set_gpr32 (i_dst i) result c)))"

definition rcr_ed_1_r :: "instruction \<Rightarrow> cpu \<Rightarrow> cpu" where
  "rcr_ed_1_r i c =
     (let op1 = get_gpr32 (i_dst i) c;
          temp_cf = of_bool (get_cf c) :: u32;
          result = drop_bit 1 op1 OR push_bit 31 temp_cf;
          cf = op1 AND 1;
          ovf = drop_bit 31 (push_bit 1 result XOR result)
      in set_cf_of (cf \<noteq> 0) (ovf \<noteq> 0) (set_gpr32 (i_dst i) result c))"

definition rcr_ed_cl_r :: "instruction \<Rightarrow> cpu \<Rightarrow> cpu" where
  "rcr_ed_cl_r i c =
     (let count = count_cl c in
      if count = 0 then shift32_count0_clear i c
      else (let op1 = get_gpr32 (i_dst i) c;
                temp_cf = of_bool (get_cf c) :: u32;
                result = (if count = 1 then drop_bit 1 op1 OR push_bit 31 temp_cf
                          else drop_bit count op1 OR push_bit (32 - count) temp_cf OR push_bit (33 - count) op1);
                cf = drop_bit (count - 1) op1 AND 1;
                ovf = drop_bit 31 (push_bit 1 result XOR result)
            in set_cf_of (cf \<noteq> 0) (ovf \<noteq> 0) (set_gpr32 (i_dst i) result c)))"

definition rcr_ed_ib_r :: "instruction \<Rightarrow> cpu \<Rightarrow> cpu" where
  "rcr_ed_ib_r i c =
     (let count = count_ib i in
      if count = 0 then shift32_count0_clear i c
      else (let op1 = get_gpr32 (i_dst i) c;
                temp_cf = of_bool (get_cf c) :: u32;
                result = (if count = 1 then drop_bit 1 op1 OR push_bit 31 temp_cf
                          else drop_bit count op1 OR push_bit (32 - count) temp_cf OR push_bit (33 - count) op1);
                cf = drop_bit (count - 1) op1 AND 1;
                ovf = drop_bit 31 (push_bit 1 result XOR result)
            in set_cf_of (cf \<noteq> 0) (ovf \<noteq> 0) (set_gpr32 (i_dst i) result c)))"

definition shld_ed_gd_ib_r :: "instruction \<Rightarrow> cpu \<Rightarrow> cpu" where
  "shld_ed_gd_ib_r i c =
     (let count = count_ib i in
      if count = 0 then shift32_count0_clear i c
      else (let op1 = get_gpr32 (i_dst i) c;
                op2 = get_gpr32 (i_src1 i) c;
                result = push_bit count op1 OR drop_bit (32 - count) op2;
                c = update_flags_logic32 result (set_gpr32 (i_dst i) result c);
                cf = drop_bit (32 - count) op1 AND 0x1 \<noteq> 0;
                ovf = (cf \<noteq> (drop_bit 31 result \<noteq> 0))
            in set_cf_of cf ovf c))"

definition shld_ed_gd_cl_r :: "instruction \<Rightarrow> cpu \<Rightarrow> cpu" where
  "shld_ed_gd_cl_r i c =
     (let count = count_cl c in
      if count = 0 then shift32_count0_clear i c
      else (let op1 = get_gpr32 (i_dst i) c;
                op2 = get_gpr32 (i_src1 i) c;
                result = push_bit count op1 OR drop_bit (32 - count) op2;
                c = update_flags_logic32 result (set_gpr32 (i_dst i) result c);
                cf = drop_bit (32 - count) op1 AND 0x1 \<noteq> 0;
                ovf = (cf \<noteq> (drop_bit 31 result \<noteq> 0))
            in set_cf_of cf ovf c))"

definition shrd_ed_gd_ib_r :: "instruction \<Rightarrow> cpu \<Rightarrow> cpu" where
  "shrd_ed_gd_ib_r i c =
     (let count = count_ib i in
      if count = 0 then shift32_count0_clear i c
      else (let op1 = get_gpr32 (i_dst i) c;
                op2 = get_gpr32 (i_src1 i) c;
                result = push_bit (32 - count) op2 OR drop_bit count op1;
                c = update_flags_logic32 result (set_gpr32 (i_dst i) result c);
                cf = drop_bit (count - 1) op1 AND 0x1 \<noteq> 0;
                ovf = drop_bit 31 (push_bit 1 result XOR result) \<noteq> 0
            in set_cf_of cf ovf c))"

definition shrd_ed_gd_cl_r :: "instruction \<Rightarrow> cpu \<Rightarrow> cpu" where
  "shrd_ed_gd_cl_r i c =
     (let count = count_cl c in
      if count = 0 then shift32_count0_clear i c
      else (let op1 = get_gpr32 (i_dst i) c;
                op2 = get_gpr32 (i_src1 i) c;
                result = push_bit (32 - count) op2 OR drop_bit count op1;
                c = update_flags_logic32 result (set_gpr32 (i_dst i) result c);
                cf = drop_bit (count - 1) op1 AND 0x1 \<noteq> 0;
                ovf = drop_bit 31 (push_bit 1 result XOR result) \<noteq> 0
            in set_cf_of cf ovf c))"

section \<open>Laws\<close>

lemma and_msb: "x AND 0x80000000 \<noteq> 0 \<longleftrightarrow> bit x 31" for x :: u32
proof -
  have m: "(0x80000000 :: u32) = bitm 31" by (simp add: bitm_def)
  show ?thesis unfolding m by (simp add: bits)
qed

lemma and_lsb: "x AND 1 \<noteq> 0 \<longleftrightarrow> bit x 0" for x :: u32
  by (simp add: and_1_of_bool)

lemma drop_31: "drop_bit 31 x = of_bool (bit x 31)" for x :: u32
proof (rule bit_word_eqI)
  fix n assume "n < LENGTH(32)"
  show "bit (drop_bit 31 x) n \<longleftrightarrow> bit (of_bool (bit x 31) :: u32) n"
    by (cases "n = 0") (auto simp: bit_simps dest: bit_imp_le_length)
qed

lemma bit_double_31: "bit (push_bit 1 v) 31 \<longleftrightarrow> bit v 30" for v :: u32
  unfolding bit_push_bit_iff by simp

lemma msb_xor: "drop_bit 31 (push_bit 1 v XOR v) \<noteq> 0 \<longleftrightarrow> bit v 30 \<noteq> bit v 31" for v :: u32
  unfolding drop_31 bit_xor_iff bit_double_31 by simp

lemmas flag_bits = and_msb and_lsb drop_31 and_1_of_bool

lemma wrote_shift:
  "wrote d (ucast v) ((logic_flags v)\<lparr>fl_of := ovf, fl_cf := cf\<rparr>) c
     (set_cf_of cf ovf (update_flags_logic32 v (set_gpr32 d v c)))"
  by (simp add: wrote_def set_cf_of_def reg_writes flags_set_oxxxxc alu_exact)

lemma wrote_rotate:
  "wrote d (ucast v) ((flags_of (oszapc c))\<lparr>fl_of := ovf, fl_cf := cf\<rparr>) c
     (set_cf_of cf ovf (set_gpr32 d v c))"
  by (simp add: wrote_def set_cf_of_def reg_writes flags_set_oxxxxc)

lemma count_bounds: "count_cl c < 32" "count_ib i < 32"
proof -
  have "unat (w AND 0x1F) < 32" for w :: u8
  proof -
    have "w AND 0x1F = take_bit 5 w" by (simp add: take_bit_eq_mask mask_eq_exp_minus_1)
    then show ?thesis by (simp only: unsigned_take_bit_eq) (simp add: take_bit_eq_mod)
  qed
  then show "count_cl c < 32" "count_ib i < 32" by (simp_all add: count_cl_def count_ib_def)
qed

text \<open>
  What a shift by \<open>n\<close> leaves in register \<open>d\<close>: nothing but the cleared high half for a count of
  zero, otherwise the value and the flags.
\<close>

definition shift_done :: "nat \<Rightarrow> nat \<Rightarrow> u32 \<Rightarrow> flags \<Rightarrow> cpu \<Rightarrow> cpu \<Rightarrow> bool" where
  "shift_done d n v fl c c' \<longleftrightarrow>
     (if n = 0 then c' = bx_clear_64bit_high d c else wrote d (ucast v) fl c c')"

definition shifted_flags :: "u32 \<Rightarrow> bool \<Rightarrow> bool \<Rightarrow> flags" where
  "shifted_flags v cf ovf = (logic_flags v)\<lparr>fl_of := ovf, fl_cf := cf\<rparr>"

definition shl_done :: "nat \<Rightarrow> nat \<Rightarrow> u32 \<Rightarrow> cpu \<Rightarrow> cpu \<Rightarrow> bool" where
  "shl_done d n a = (let v = a * 2 ^ n; cf = bit a (32 - n) in
     shift_done d n v (shifted_flags v cf (cf \<noteq> bit v 31)))"

definition shr_done :: "nat \<Rightarrow> nat \<Rightarrow> u32 \<Rightarrow> cpu \<Rightarrow> cpu \<Rightarrow> bool" where
  "shr_done d n a = (let v = a div 2 ^ n in
     shift_done d n v (shifted_flags v (bit a (n - 1)) (n = 1 \<and> bit a 31)))"

definition sar_done :: "nat \<Rightarrow> nat \<Rightarrow> u32 \<Rightarrow> cpu \<Rightarrow> cpu \<Rightarrow> bool" where
  "sar_done d n a = (let v = word_of_int (sint a div 2 ^ n) in
     shift_done d n v (shifted_flags v (bit a (n - 1)) False))"

lemmas shift_helpers = shift32_count0_clear_def update_flags_shl32_def update_flags_shr32_def
  update_flags_sar32_def

lemma sar_value: "signed_drop_bit n a = word_of_int (sint a div 2 ^ n)" for a :: u32
  by (simp flip: drop_bit_eq_div sint_signed_drop_bit_eq)

lemma shl_n:
  assumes "0 < n" "n < 32"
  shows "shl_done d n a c (update_flags_shl32 (push_bit n a) (push_bit (n - 1) a AND 0x80000000 \<noteq> 0)
      ((push_bit (n - 1) a AND 0x80000000 \<noteq> 0) \<noteq> (drop_bit 31 (push_bit n a) \<noteq> 0))
      (set_gpr32 d (push_bit n a) c))"
proof -
  have m: "push_bit n a = a * 2 ^ n" by (simp add: push_bit_eq_mult)
  have "31 - (n - 1) = 32 - n" using assms by simp
  then have cf: "push_bit (n - 1) a AND 0x80000000 \<noteq> 0 \<longleftrightarrow> bit a (32 - n)"
    using assms unfolding and_msb bit_push_bit_iff by auto
  show ?thesis
    unfolding cf unfolding m shl_done_def Let_def shift_done_def shifted_flags_def shift_helpers
    using assms by (simp add: flag_bits wrote_shift)
qed

lemma shr_n:
  assumes "0 < n" "n < 32"
  shows "shr_done d n a c (update_flags_shr32 (drop_bit n a) (drop_bit (n - 1) a AND 0x00000001 \<noteq> 0)
      (drop_bit 31 (push_bit 1 (drop_bit n a) XOR drop_bit n a) \<noteq> 0) (set_gpr32 d (drop_bit n a) c))"
proof -
  have top: "\<not> bit a (31 + n)" "bit a (30 + n) \<longleftrightarrow> n = 1 \<and> bit a 31"
    using assms bit_imp_le_length [of a "31 + n"] bit_imp_le_length [of a "30 + n"]
    by (cases "n = 1"; auto)+
  have ovf: "drop_bit 31 (push_bit 1 (drop_bit n a) XOR drop_bit n a) \<noteq> 0 \<longleftrightarrow> n = 1 \<and> bit a 31"
    using top unfolding msb_xor bit_drop_bit_eq by (simp add: add.commute)
  have cf: "drop_bit (n - 1) a AND 0x00000001 \<noteq> 0 \<longleftrightarrow> bit a (n - 1)"
    by (simp add: and_1_of_bool bit_drop_bit_eq)
  show ?thesis
    unfolding cf ovf shr_done_def Let_def shift_done_def shifted_flags_def shift_helpers
    using assms by (simp add: drop_bit_eq_div wrote_shift)
qed

lemma sar_n:
  assumes "0 < n" "n < 32"
  shows "sar_done d n a c (update_flags_sar32 (signed_drop_bit n a)
      (signed_drop_bit (n - 1) a AND 0x00000001 \<noteq> 0) (set_gpr32 d (signed_drop_bit n a) c))"
proof -
  have cf: "signed_drop_bit (n - 1) a AND 0x00000001 \<noteq> 0 \<longleftrightarrow> bit a (n - 1)"
    using assms by (simp add: and_1_of_bool bit_signed_drop_bit_iff)
  show ?thesis
    unfolding cf sar_done_def Let_def shift_done_def shifted_flags_def shift_helpers
    using assms by (simp add: sar_value wrote_shift)
qed

lemma count_0_done:
  "shl_done d 0 a c (bx_clear_64bit_high d c)" "shr_done d 0 a c (bx_clear_64bit_high d c)"
  "sar_done d 0 a c (bx_clear_64bit_high d c)"
  by (simp_all add: shl_done_def shr_done_def sar_done_def shift_done_def Let_def)

text \<open>
  C19. The 32-bit shifts are exact for every count and in each of their three forms. SHL
  multiplies by a power of two modulo \<open>2^32\<close>, SHR divides the unsigned and SAR the signed
  operand by it, rounding down; CF is the last bit shifted out; OF is what the architecture
  defines for a count of one; SF, ZF and PF describe the result. A count of zero changes no flag
  and only clears the high half of the register.
\<close>

theorem shifts_exact:
  "let a = get_gpr32 (i_dst i) c; d = i_dst i; k = count_cl c; m = count_ib i in
     shl_done d 1 a c (shl_ed_1_r i c) \<and> shl_done d k a c (shl_ed_cl_r i c)
   \<and> shl_done d m a c (shl_ed_ib_r i c)
   \<and> shr_done d 1 a c (shr_ed_1_r i c) \<and> shr_done d k a c (shr_ed_cl_r i c)
   \<and> shr_done d m a c (shr_ed_ib_r i c)
   \<and> sar_done d 1 a c (sar_ed_1_r i c) \<and> sar_done d k a c (sar_ed_cl_r i c)
   \<and> sar_done d m a c (sar_ed_ib_r i c)"
proof -
  note forms = shl_ed_1_r_def shl_ed_cl_r_def shl_ed_ib_r_def shr_ed_1_r_def shr_ed_cl_r_def
    shr_ed_ib_r_def sar_ed_1_r_def sar_ed_cl_r_def sar_ed_ib_r_def
  note zero = count_0_done shift32_count0_clear_def
  have "shl_done (i_dst i) 1 (get_gpr32 (i_dst i) c) c (shl_ed_1_r i c)"
  proof -
    have o1: "(push_bit 1 x XOR x) AND 0x80000000 \<noteq> 0
        \<longleftrightarrow> (push_bit (1 - 1) x AND 0x80000000 \<noteq> 0) \<noteq> (drop_bit 31 (push_bit 1 x) \<noteq> 0)" for x :: u32
      unfolding and_msb bit_xor_iff drop_31 by auto
    show ?thesis
      using shl_n [of 1 "i_dst i" "get_gpr32 (i_dst i) c" c]
      unfolding shl_ed_1_r_def Let_def o1 by simp
  qed
  moreover have "shr_done (i_dst i) 1 (get_gpr32 (i_dst i) c) c (shr_ed_1_r i c)"
  proof -
    have o1: "x AND 0x80000000 \<noteq> 0
        \<longleftrightarrow> drop_bit 31 (push_bit 1 (drop_bit 1 x) XOR drop_bit 1 x) \<noteq> 0" for x :: u32
      using bit_imp_le_length [of x 32] unfolding and_msb msb_xor bit_drop_bit_eq by auto
    show ?thesis
      using shr_n [of 1 "i_dst i" "get_gpr32 (i_dst i) c" c]
      unfolding shr_ed_1_r_def Let_def o1 by simp
  qed
  moreover have "sar_done (i_dst i) 1 (get_gpr32 (i_dst i) c) c (sar_ed_1_r i c)"
    using sar_n [of 1 "i_dst i" "get_gpr32 (i_dst i) c" c]
    by (simp add: sar_ed_1_r_def Let_def)
  moreover have "shl_done (i_dst i) (count_cl c) (get_gpr32 (i_dst i) c) c (shl_ed_cl_r i c)"
    "shl_done (i_dst i) (count_ib i) (get_gpr32 (i_dst i) c) c (shl_ed_ib_r i c)"
    unfolding forms Let_def using shl_n [OF _ count_bounds(1)] shl_n [OF _ count_bounds(2)]
    by (simp_all add: zero)
  moreover have "shr_done (i_dst i) (count_cl c) (get_gpr32 (i_dst i) c) c (shr_ed_cl_r i c)"
    "shr_done (i_dst i) (count_ib i) (get_gpr32 (i_dst i) c) c (shr_ed_ib_r i c)"
    unfolding forms Let_def using shr_n [OF _ count_bounds(1)] shr_n [OF _ count_bounds(2)]
    by (simp_all add: zero)
  moreover have "sar_done (i_dst i) (count_cl c) (get_gpr32 (i_dst i) c) c (sar_ed_cl_r i c)"
    "sar_done (i_dst i) (count_ib i) (get_gpr32 (i_dst i) c) c (sar_ed_ib_r i c)"
    unfolding forms Let_def using sar_n [OF _ count_bounds(1)] sar_n [OF _ count_bounds(2)]
    by (simp_all add: zero)
  ultimately show ?thesis unfolding Let_def by blast
qed

section \<open>Rotates\<close>

text \<open>
  A rotate through carry is a rotation of the 33-bit value with the carry flag on top. The
  specification of a rotate: the value, CF, and OF, the other flags unchanged.
\<close>

definition carried :: "bool \<Rightarrow> u32 \<Rightarrow> 33 word" where
  "carried k a = ucast a OR push_bit 32 (of_bool k)"

definition rotate_done :: "nat \<Rightarrow> nat \<Rightarrow> u32 \<Rightarrow> bool \<Rightarrow> bool \<Rightarrow> cpu \<Rightarrow> cpu \<Rightarrow> bool" where
  "rotate_done d n v cf ovf c =
     shift_done d n v ((flags_of (oszapc c))\<lparr>fl_of := ovf, fl_cf := cf\<rparr>) c"

definition rol_done :: "nat \<Rightarrow> nat \<Rightarrow> u32 \<Rightarrow> cpu \<Rightarrow> cpu \<Rightarrow> bool" where
  "rol_done d n a = (let v = word_rotl n a in rotate_done d n v (bit v 0) (bit v 0 \<noteq> bit v 31))"

definition ror_done :: "nat \<Rightarrow> nat \<Rightarrow> u32 \<Rightarrow> cpu \<Rightarrow> cpu \<Rightarrow> bool" where
  "ror_done d n a = (let v = word_rotr n a in rotate_done d n v (bit v 31) (bit v 31 \<noteq> bit v 30))"

definition rcl_done :: "nat \<Rightarrow> nat \<Rightarrow> bool \<Rightarrow> u32 \<Rightarrow> cpu \<Rightarrow> cpu \<Rightarrow> bool" where
  "rcl_done d n k a = (let w = word_rotl n (carried k a) in
     rotate_done d n (ucast w) (bit w 32) (bit w 32 \<noteq> bit w 31))"

definition rcr_done :: "nat \<Rightarrow> nat \<Rightarrow> bool \<Rightarrow> u32 \<Rightarrow> cpu \<Rightarrow> cpu \<Rightarrow> bool" where
  "rcr_done d n k a = (let w = word_rotr n (carried k a) in
     rotate_done d n (ucast w) (bit w 32) (bit w 31 \<noteq> bit w 30))"

lemma bit_carried: "bit (carried k a) n \<longleftrightarrow> (if n = 32 then k else bit a n)"
  by (auto simp: carried_def bit_simps dest: bit_imp_le_length)

lemma bit_rotl_carried:
  assumes "0 < n" "n < 32" "m < 33"
  shows "bit (word_rotl n (carried k a)) m
    \<longleftrightarrow> (if n \<le> m then bit a (m - n) else if m = n - 1 then k else bit a (m + 33 - n))"
proof (cases "n \<le> m")
  case True
  then have "(m + (33 - n mod 33)) mod 33 = m - n"
    using assms mod_add_self2 [of "m - n" 33] by simp
  with True assms show ?thesis
    by (auto simp: bit_word_rotl_iff bit_carried)
next
  case False
  then have "(m + (33 - n mod 33)) mod 33 = m + 33 - n" using assms by simp
  with False assms show ?thesis
    by (auto simp: bit_word_rotl_iff bit_carried)
qed

lemma bit_rotr_carried:
  assumes "0 < n" "n < 32" "m < 33"
  shows "bit (word_rotr n (carried k a)) m
    \<longleftrightarrow> (if m + n < 32 then bit a (m + n) else if m + n = 32 then k else bit a (m + n - 33))"
proof (cases "m + n < 33")
  case True
  then have "(m + n) mod 33 = m + n" by simp
  with True assms show ?thesis by (auto simp: bit_word_rotr_iff bit_carried)
next
  case False
  then have "(m + n) mod 33 = m + n - 33" using assms by (simp add: le_mod_geq)
  with False assms show ?thesis by (auto simp: bit_word_rotr_iff bit_carried)
qed

lemma rcl_value:
  assumes "0 < n" "n < 32"
  shows "(if n = 1 then push_bit 1 a OR of_bool k
          else push_bit n a OR push_bit (n - 1) (of_bool k) OR drop_bit (33 - n) a)
       = (ucast (word_rotl n (carried k a)) :: u32)" (is "?l = ?r")
proof (rule bit_word_eqI)
  fix m assume "m < LENGTH(32)"
  then have m: "m < 32" by simp
  have r: "bit ?r m \<longleftrightarrow> (if n \<le> m then bit a (m - n) else if m = n - 1 then k else bit a (m + 33 - n))"
    using m assms by (simp add: bit_unsigned_iff bit_rotl_carried)
  show "bit ?l m \<longleftrightarrow> bit ?r m"
  proof (cases "n = 1")
    case True
    have "bit ?l m \<longleftrightarrow> (1 \<le> m \<and> bit a (m - 1)) \<or> (k \<and> m = 0)"
      using m by (simp only: True simp_thms if_True bit_or_iff bit_push_bit_iff bit_of_bool_0) auto
    then show ?thesis unfolding r using True by (cases "m = 0") auto
  next
    case False
    have i: "33 - n + m = m + 33 - n" using assms by simp
    have "bit ?l m \<longleftrightarrow> n \<le> m \<and> bit a (m - n) \<or> m = n - 1 \<and> k \<or> bit a (m + 33 - n)"
      using False assms m i
      by (simp only: bit_or_iff bit_push_bit_iff bit_of_bool_0 bit_drop_bit_eq if_False o_apply) auto
    moreover have "\<not> bit a (m + 33 - n)" if "n \<le> m \<or> m = n - 1"
      using that assms bit_imp_le_length [of a "m + 33 - n"] by auto
    ultimately show ?thesis unfolding r using assms by auto
  qed
qed

lemma rcr_value:
  assumes "0 < n" "n < 32"
  shows "(if n = 1 then drop_bit 1 a OR push_bit 31 (of_bool k)
          else drop_bit n a OR push_bit (32 - n) (of_bool k) OR push_bit (33 - n) a)
       = (ucast (word_rotr n (carried k a)) :: u32)" (is "?l = ?r")
proof (rule bit_word_eqI)
  fix m assume "m < LENGTH(32)"
  then have m: "m < 32" by simp
  have r: "bit ?r m \<longleftrightarrow> (if m + n < 32 then bit a (m + n) else if m + n = 32 then k else bit a (m + n - 33))"
    using m assms by (simp add: bit_unsigned_iff bit_rotr_carried)
  have d: "\<not> bit a (m + n)" if "32 \<le> m + n" using that bit_imp_le_length [of a "m + n"] by auto
  show "bit ?l m \<longleftrightarrow> bit ?r m"
  proof (cases "n = 1")
    case True
    have "bit ?l m \<longleftrightarrow> bit a (m + 1) \<or> (k \<and> m = 31)"
      using m
      by (simp only: True simp_thms if_True bit_or_iff bit_push_bit_iff bit_drop_bit_eq bit_of_bool_0)
         (auto simp: o_def)
    then show ?thesis unfolding r using True d m by auto
  next
    case False
    have "bit ?l m \<longleftrightarrow> bit a (m + n) \<or> m = 32 - n \<and> k \<or> 33 - n \<le> m \<and> bit a (m - (33 - n))"
      using False assms m
      by (simp only: bit_or_iff bit_push_bit_iff bit_of_bool_0 bit_drop_bit_eq if_False) (auto simp: add.commute)
    then show ?thesis unfolding r using assms d m by auto
  qed
qed

text \<open>The handlers' flags, read from the 33-bit value.\<close>

lemma rcl_n:
  assumes "0 < n" "n < 32"
    and v: "v = (if n = 1 then push_bit 1 a OR of_bool k
          else push_bit n a OR push_bit (n - 1) (of_bool k) OR drop_bit (33 - n) a)"
  shows "rcl_done d n k a c (set_cf_of (drop_bit (32 - n) a AND 1 \<noteq> 0)
      ((drop_bit (32 - n) a AND 1) XOR drop_bit 31 v \<noteq> 0) (set_gpr32 d v c))"
proof -
  let ?w = "word_rotl n (carried k a)"
  have u: "v = ucast ?w" unfolding v by (rule rcl_value [OF assms(1,2)])
  have cf: "bit ?w 32 \<longleftrightarrow> bit a (32 - n)" using assms(1,2) by (simp add: bit_rotl_carried)
  have ovf: "(drop_bit (32 - n) a AND 1) XOR drop_bit 31 v \<noteq> 0 \<longleftrightarrow> bit ?w 32 \<noteq> bit ?w 31"
    unfolding drop_31 and_1_of_bool u cf by (simp add: bit_drop_bit_eq bit_unsigned_iff)
  show ?thesis
    unfolding ovf unfolding rcl_done_def rotate_done_def shift_done_def Let_def and_1_of_bool
    using assms(1) cf by (simp add: bit_drop_bit_eq wrote_rotate flip: u)
qed

lemma rcr_n:
  assumes "0 < n" "n < 32"
    and v: "v = (if n = 1 then drop_bit 1 a OR push_bit 31 (of_bool k)
          else drop_bit n a OR push_bit (32 - n) (of_bool k) OR push_bit (33 - n) a)"
  shows "rcr_done d n k a c (set_cf_of (drop_bit (n - 1) a AND 1 \<noteq> 0)
      (drop_bit 31 (push_bit 1 v XOR v) \<noteq> 0) (set_gpr32 d v c))"
proof -
  let ?w = "word_rotr n (carried k a)"
  have u: "v = ucast ?w" unfolding v by (rule rcr_value [OF assms(1,2)])
  have "32 + n - 33 = n - 1" using assms(1) by simp
  then have cf: "bit ?w 32 \<longleftrightarrow> bit a (n - 1)" using assms(1,2) by (simp add: bit_rotr_carried)
  have ovf: "drop_bit 31 (push_bit 1 v XOR v) \<noteq> 0 \<longleftrightarrow> bit ?w 31 \<noteq> bit ?w 30"
    unfolding msb_xor u by (auto simp: bit_unsigned_iff)
  show ?thesis
    unfolding ovf rcr_done_def rotate_done_def shift_done_def Let_def and_1_of_bool
    using assms(1) cf by (simp add: bit_drop_bit_eq wrote_rotate flip: u)
qed

lemma rol_n:
  "0 < n \<Longrightarrow> v = word_rotl n a \<Longrightarrow> rol_done d n a c (set_cf_of (v AND 1 \<noteq> 0)
      ((v XOR drop_bit 31 v) AND 1 \<noteq> 0) (set_gpr32 d v c))"
  unfolding rol_done_def rotate_done_def shift_done_def Let_def and_1_of_bool bit_xor_iff
  by (simp add: bit_drop_bit_eq wrote_rotate)

lemma ror_n:
  "0 < n \<Longrightarrow> v = word_rotr n a \<Longrightarrow> ror_done d n a c (set_cf_of (v AND 0x80000000 \<noteq> 0)
      ((v XOR push_bit 1 v) AND 0x80000000 \<noteq> 0) (set_gpr32 d v c))"
  unfolding ror_done_def rotate_done_def shift_done_def Let_def and_msb bit_xor_iff bit_double_31
  by (simp add: wrote_rotate)

lemma count_0_rotated:
  "rol_done d 0 a c (bx_clear_64bit_high d c)" "ror_done d 0 a c (bx_clear_64bit_high d c)"
  "rcl_done d 0 k a c (bx_clear_64bit_high d c)" "rcr_done d 0 k a c (bx_clear_64bit_high d c)"
  by (simp_all add: rol_done_def ror_done_def rcl_done_def rcr_done_def rotate_done_def
      shift_done_def Let_def)

text \<open>
  The rotates are exact for every count and in each of their three forms. ROL and ROR
  rotate the 32-bit operand; RCL and RCR rotate the 33-bit value formed by the carry flag and
  the operand, which is what their special cases for the count one and their three shifts
  compute. CF is the bit that last crossed the end of the register, OF compares the two bits
  the architecture names, the other flags stay, and a count of zero only clears the high half.
\<close>

theorem rotates_exact:
  "let a = get_gpr32 (i_dst i) c; d = i_dst i; n = count_cl c; m = count_ib i; k = get_cf c in
     rol_done d 1 a c (rol_ed_1_r i c) \<and> rol_done d n a c (rol_ed_cl_r i c)
   \<and> rol_done d m a c (rol_ed_ib_r i c)
   \<and> ror_done d 1 a c (ror_ed_1_r i c) \<and> ror_done d n a c (ror_ed_cl_r i c)
   \<and> ror_done d m a c (ror_ed_ib_r i c)
   \<and> rcl_done d 1 k a c (rcl_ed_1_r i c) \<and> rcl_done d n k a c (rcl_ed_cl_r i c)
   \<and> rcl_done d m k a c (rcl_ed_ib_r i c)
   \<and> rcr_done d 1 k a c (rcr_ed_1_r i c) \<and> rcr_done d n k a c (rcr_ed_cl_r i c)
   \<and> rcr_done d m k a c (rcr_ed_ib_r i c)"
proof -
  let ?a = "get_gpr32 (i_dst i) c" and ?d = "i_dst i" and ?k = "get_cf c"
  note zero = count_0_rotated shift32_count0_clear_def
  have "rol_done ?d 1 ?a c (rol_ed_1_r i c)" "rol_done ?d (count_cl c) ?a c (rol_ed_cl_r i c)"
    "rol_done ?d (count_ib i) ?a c (rol_ed_ib_r i c)"
    unfolding rol_ed_1_r_def rol_ed_cl_r_def rol_ed_ib_r_def Let_def
    using rol_n [OF _ refl, of 1] rol_n [OF _ refl, of "count_cl c"] rol_n [OF _ refl, of "count_ib i"]
    by (simp_all add: zero)
  moreover have "ror_done ?d 1 ?a c (ror_ed_1_r i c)" "ror_done ?d (count_cl c) ?a c (ror_ed_cl_r i c)"
    "ror_done ?d (count_ib i) ?a c (ror_ed_ib_r i c)"
    unfolding ror_ed_1_r_def ror_ed_cl_r_def ror_ed_ib_r_def Let_def
    using ror_n [OF _ refl, of 1] ror_n [OF _ refl, of "count_cl c"] ror_n [OF _ refl, of "count_ib i"]
    by (simp_all add: zero)
  moreover have "rcl_done ?d 1 ?k ?a c (rcl_ed_1_r i c)"
    using rcl_n [of 1 _ ?a ?k] unfolding rcl_ed_1_r_def Let_def by simp
  moreover have "rcl_done ?d (count_cl c) ?k ?a c (rcl_ed_cl_r i c)"
    "rcl_done ?d (count_ib i) ?k ?a c (rcl_ed_ib_r i c)"
    unfolding rcl_ed_cl_r_def rcl_ed_ib_r_def Let_def
    using rcl_n [OF _ count_bounds(1) refl] rcl_n [OF _ count_bounds(2) refl]
    by (simp_all add: zero)
  moreover have "rcr_done ?d 1 ?k ?a c (rcr_ed_1_r i c)"
    using rcr_n [of 1 _ ?a ?k] unfolding rcr_ed_1_r_def Let_def by simp
  moreover have "rcr_done ?d (count_cl c) ?k ?a c (rcr_ed_cl_r i c)"
    "rcr_done ?d (count_ib i) ?k ?a c (rcr_ed_ib_r i c)"
    unfolding rcr_ed_cl_r_def rcr_ed_ib_r_def Let_def
    using rcr_n [OF _ count_bounds(1) refl] rcr_n [OF _ count_bounds(2) refl]
    by (simp_all add: zero)
  ultimately show ?thesis unfolding Let_def by blast
qed

section \<open>Double precision shifts\<close>

definition shld_done :: "nat \<Rightarrow> nat \<Rightarrow> u32 \<Rightarrow> u32 \<Rightarrow> cpu \<Rightarrow> cpu \<Rightarrow> bool" where
  "shld_done d n a b = (let v = ucast (drop_bit 32 (push_bit n (pair64 a b))); cf = bit a (32 - n) in
     shift_done d n v (shifted_flags v cf (cf \<noteq> bit v 31)))"

definition shrd_done :: "nat \<Rightarrow> nat \<Rightarrow> u32 \<Rightarrow> u32 \<Rightarrow> cpu \<Rightarrow> cpu \<Rightarrow> bool" where
  "shrd_done d n a b = (let v = ucast (drop_bit n (pair64 b a)) in
     shift_done d n v (shifted_flags v (bit a (n - 1)) (bit v 30 \<noteq> bit v 31)))"

lemma shld_value:
  assumes "0 < n" "n < 32"
  shows "push_bit n a OR drop_bit (32 - n) b = (ucast (drop_bit 32 (push_bit n (pair64 a b))) :: u32)"
proof (rule bit_word_eqI)
  fix m assume "m < LENGTH(32)"
  then have m: "m < 32" by simp
  have "\<not> bit b (m + 32 - n)" if "n \<le> m" using that assms bit_imp_le_length [of b "m + 32 - n"] by auto
  moreover have i: "32 - n + m = m + 32 - n" using assms by simp
  ultimately show "bit (push_bit n a OR drop_bit (32 - n) b) m
      \<longleftrightarrow> bit (ucast (drop_bit 32 (push_bit n (pair64 a b))) :: u32) m"
    using assms m
    by (simp only: bit_or_iff bit_push_bit_iff bit_drop_bit_eq o_apply bit_unsigned_iff bit_pair64)
       (auto simp: add.commute)
qed

lemma shrd_value:
  assumes "0 < n" "n < 32"
  shows "push_bit (32 - n) b OR drop_bit n a = (ucast (drop_bit n (pair64 b a)) :: u32)"
proof (rule bit_word_eqI)
  fix m assume "m < LENGTH(32)"
  then have m: "m < 32" by simp
  have "\<not> bit a (n + m)" if "32 \<le> n + m" using that bit_imp_le_length [of a "n + m"] by auto
  then show "bit (push_bit (32 - n) b OR drop_bit n a) m
      \<longleftrightarrow> bit (ucast (drop_bit n (pair64 b a)) :: u32) m"
    using assms m
    by (simp only: bit_or_iff bit_push_bit_iff bit_drop_bit_eq o_apply bit_unsigned_iff bit_pair64)
       (auto simp: add.commute)
qed

text \<open>
  SHLD and SHRD are shifts of a 64-bit value: the destination over the source shifted left,
  of which the high half is kept, and the source over the destination shifted right, of which
  the low half is kept, with the flags of the result and the last bit shifted out in CF.
\<close>

theorem double_shifts_exact:
  "let a = get_gpr32 (i_dst i) c; b = get_gpr32 (i_src1 i) c; d = i_dst i; n = count_cl c;
       m = count_ib i in
     shld_done d n a b c (shld_ed_gd_cl_r i c) \<and> shld_done d m a b c (shld_ed_gd_ib_r i c)
   \<and> shrd_done d n a b c (shrd_ed_gd_cl_r i c) \<and> shrd_done d m a b c (shrd_ed_gd_ib_r i c)"
proof -
  have l: "shld_done d n a b c (set_cf_of (drop_bit (32 - n) a AND 1 \<noteq> 0)
      ((drop_bit (32 - n) a AND 1 \<noteq> 0) \<noteq> (drop_bit 31 v \<noteq> 0))
      (update_flags_logic32 v (set_gpr32 d v c)))"
    if "0 < n" "n < 32" "v = push_bit n a OR drop_bit (32 - n) b" for d n a b v
    unfolding that(3) shld_value [OF that(1,2)] shld_done_def shift_done_def shifted_flags_def Let_def
    using that(1) by (simp add: and_1_of_bool drop_31 bit_drop_bit_eq wrote_shift)
  have r: "shrd_done d n a b c (set_cf_of (drop_bit (n - 1) a AND 1 \<noteq> 0)
      (drop_bit 31 (push_bit 1 v XOR v) \<noteq> 0) (update_flags_logic32 v (set_gpr32 d v c)))"
    if "0 < n" "n < 32" "v = push_bit (32 - n) b OR drop_bit n a" for d n a b v
    unfolding that(3) shrd_value [OF that(1,2)] shrd_done_def shift_done_def shifted_flags_def Let_def
      msb_xor
    using that(1) by (simp add: and_1_of_bool bit_drop_bit_eq wrote_shift)
  have zero: "shld_done d 0 a b c (bx_clear_64bit_high d c)" "shrd_done d 0 a b c (bx_clear_64bit_high d c)"
    for d a b by (simp_all add: shld_done_def shrd_done_def shift_done_def Let_def)
  show ?thesis
    unfolding Let_def shld_ed_gd_cl_r_def shld_ed_gd_ib_r_def shrd_ed_gd_cl_r_def shrd_ed_gd_ib_r_def
      shift32_count0_clear_def
    using l [OF _ count_bounds(1) refl] l [OF _ count_bounds(2) refl]
      r [OF _ count_bounds(1) refl] r [OF _ count_bounds(2) refl] zero
    by simp
qed

end
