(* ===== verification/Cpu_Mult.thy ===== *)
theory Cpu_Mult
  imports Cpu_Alu "HOL-Library.Signed_Division"
begin

text \<open>
  The 32-bit multiplications and divisions of \<^verbatim>\<open>cpu/mult32.rs\<close> on register operands. Products
  are formed in 64 bits; the signed division is Rust's, which rounds towards zero. A division
  whose divisor is zero or whose quotient does not fit raises the divide error.

  A value that the source holds as an \<^verbatim>\<open>i64\<close> is an integer here. The products of two \<^verbatim>\<open>i32\<close> fit,
  and the one quotient that would not fit, of the least \<^verbatim>\<open>i64\<close> by minus one, is excluded by the
  handler's own check.
\<close>

section \<open>Handlers\<close>

definition mul_eax_ed_r :: "instruction \<Rightarrow> cpu \<Rightarrow> outcome" where
  "mul_eax_ed_r i c =
     (let op1 = get_gpr32 0 c;
          op2 = get_gpr32 (i_dst i) c;
          product_64 = ucast op1 * ucast op2 :: u64;
          product_32l = ucast (product_64 AND 0xFFFFFFFF) :: u32;
          product_32h = ucast (drop_bit 32 product_64) :: u32;
          c = set_gpr32 0 product_32l c;
          c = set_gpr32 2 product_32h c;
          c = update_flags_logic32 product_32l c
      in (Inr (), if product_32h \<noteq> 0 then c\<lparr>oszapc := assert_flags_oxxxxc (oszapc c)\<rparr> else c))"

definition imul_eax_ed_r :: "instruction \<Rightarrow> cpu \<Rightarrow> outcome" where
  "imul_eax_ed_r i c =
     (let op1 = sint (get_gpr32 0 c);
          op2 = sint (get_gpr32 (i_dst i) c);
          product_64 = op1 * op2;
          product_32l = word_of_int product_64 :: u32;
          product_32h = word_of_int (drop_bit 32 product_64) :: u32;
          c = set_gpr32 0 product_32l c;
          c = set_gpr32 2 product_32h c;
          c = update_flags_logic32 product_32l c
      in (Inr (), if product_64 \<noteq> sint (word_of_int product_64 :: u32)
                  then c\<lparr>oszapc := assert_flags_oxxxxc (oszapc c)\<rparr> else c))"

definition div_eax_ed_r :: "instruction \<Rightarrow> cpu \<Rightarrow> outcome" where
  "div_eax_ed_r i c =
     (let op2 = get_gpr32 (i_dst i) c in
      if op2 = 0 then (Inl (De, 0), c)
      else
        let edx = get_gpr32 2 c;
            eax = get_gpr32 0 c;
            op1 = push_bit 32 (ucast edx) OR ucast eax :: u64;
            quotient_64 = op1 div ucast op2;
            remainder_32 = ucast (op1 mod ucast op2) :: u32;
            quotient_32l = ucast (quotient_64 AND 0xFFFFFFFF) :: u32
        in if quotient_64 \<noteq> ucast quotient_32l then (Inl (De, 0), c)
           else (Inr (), set_gpr32 2 remainder_32 (set_gpr32 0 quotient_32l c)))"

definition idiv_eax_ed_r :: "instruction \<Rightarrow> cpu \<Rightarrow> outcome" where
  "idiv_eax_ed_r i c =
     (let edx = get_gpr32 2 c;
          eax = get_gpr32 0 c;
          op1 = sint (ucast eax OR push_bit 32 (ucast edx) :: u64)
      in if op1 = sint (0x8000000000000000 :: u64) then (Inl (De, 0), c)
         else
           let op2 = sint (get_gpr32 (i_dst i) c) in
           if op2 = 0 then (Inl (De, 0), c)
           else
             let quotient_64 = op1 sdiv op2;
                 remainder_32 = word_of_int (op1 smod op2) :: u32;
                 quotient_32l = word_of_int quotient_64 :: u32
             in if quotient_64 \<noteq> sint quotient_32l then (Inl (De, 0), c)
                else (Inr (), set_gpr32 2 remainder_32 (set_gpr32 0 quotient_32l c)))"

definition imul_gd_ed_r :: "instruction \<Rightarrow> cpu \<Rightarrow> outcome" where
  "imul_gd_ed_r i c =
     (let op1 = sint (get_gpr32 (i_dst i) c);
          op2 = sint (get_gpr32 (i_src1 i) c);
          product_64 = op1 * op2;
          product_32 = word_of_int product_64 :: u32;
          c = set_gpr32 (i_dst i) product_32 c;
          c = update_flags_logic32 product_32 c
      in (Inr (), if product_64 \<noteq> sint (word_of_int product_64 :: u32)
                  then c\<lparr>oszapc := assert_flags_oxxxxc (oszapc c)\<rparr> else c))"

definition imul_gd_ed_ib_r :: "instruction \<Rightarrow> cpu \<Rightarrow> outcome" where
  "imul_gd_ed_ib_r i c =
     (let op1 = sint (get_gpr32 (i_src1 i) c);
          op2 = sint (i_ib i);
          product_64 = op1 * op2;
          product_32 = word_of_int product_64 :: u32;
          c = set_gpr32 (i_dst i) product_32 c;
          c = update_flags_logic32 product_32 c
      in (Inr (), if product_64 \<noteq> sint product_32
                  then c\<lparr>oszapc := assert_flags_oxxxxc (oszapc c)\<rparr> else c))"

definition imul_gd_ed_id_r :: "instruction \<Rightarrow> cpu \<Rightarrow> outcome" where
  "imul_gd_ed_id_r i c =
     (let op2 = sint (get_gpr32 (i_src1 i) c);
          op3 = sint (i_id i);
          product_64 = op2 * op3;
          product_32 = word_of_int product_64 :: u32;
          c = set_gpr32 (i_dst i) product_32 c;
          c = update_flags_logic32 product_32 c
      in (Inr (), if product_64 \<noteq> sint product_32
                  then c\<lparr>oszapc := assert_flags_oxxxxc (oszapc c)\<rparr> else c))"

section \<open>Multiplication\<close>

definition product_flags :: "u32 \<Rightarrow> bool \<Rightarrow> flags" where
  "product_flags lo big = (logic_flags lo)\<lparr>fl_of := big, fl_cf := big\<rparr>"

definition finish_product :: "bool \<Rightarrow> u32 \<Rightarrow> cpu \<Rightarrow> cpu" where
  "finish_product big lo c = (let c = update_flags_logic32 lo c in
     if big then c\<lparr>oszapc := assert_flags_oxxxxc (oszapc c)\<rparr> else c)"

lemma finish_product_effect:
  "gen_reg (finish_product big lo c) = gen_reg c"
  "flags_of (oszapc (finish_product big lo c)) = product_flags lo big"
  "wrote d (ucast lo) (product_flags lo big) c (finish_product big lo (set_gpr32 d lo c))"
  using flags_set_oxxxxc [of True True]
  by (simp_all add: finish_product_def Let_def product_flags_def wrote_def reg_writes alu_exact
      assert_flags_oxxxxc_def logic_flags_def)

lemma unat_product: "unat (ucast a * ucast b :: u64) = unat a * unat b" for a b :: u32
proof -
  have "unat a * unat b < 2 ^ 32 * 2 ^ 32"
    using unat_bound [of a] unat_bound [of b] by (intro mult_strict_mono) simp_all
  then show ?thesis by (simp add: unat_word_ariths unat_ucast_up)
qed

lemma low_half: "(ucast (w AND 0xFFFFFFFF) :: u32) = of_nat (unat w)" for w :: u64
proof -
  have "(ucast (w AND 0xFFFFFFFF) :: u32) = ucast w"
    by (rule bit_word_eqI) (simp add: bit_simps bit_numeral_masks)
  then show ?thesis by simp
qed

lemma high_half: "(ucast (drop_bit 32 w) :: u32) = of_nat (unat w div 2 ^ 32)" for w :: u64
  unfolding word_unat_eq_iff unsigned_ucast_eq unat_drop_bit_eq
  by (simp add: unsigned_of_nat drop_bit_eq_div)

lemma fits_iff: "sint (word_of_int z :: u32) = z \<longleftrightarrow> - (2 ^ 31) \<le> z \<and> z < 2 ^ 31"
  by (simp add: signed_of_int signed_take_bit_int_eq_self_iff)

lemma not_fits: "z \<noteq> sint (word_of_int z :: u32) \<longleftrightarrow> \<not> (- (2 ^ 31) \<le> z \<and> z < 2 ^ 31)"
  using fits_iff [of z] by auto

lemma ucast_of_nat_32: "(ucast (of_nat n :: u32) :: u64) = of_nat (n mod 2 ^ 32)"
  by (rule word_unat_eqI) (simp add: unat_ucast_up unsigned_of_nat take_bit_eq_mod)

lemma product_high: "unat a * unat b div 2 ^ 32 < 2 ^ 32" for a b :: u32
  using unat_bound [of "ucast a * ucast b :: u64"]
  unfolding unat_product by (simp add: less_mult_imp_div_less)

lemma gen_reg_two:
  "gen_reg (set_gpr32 s y (set_gpr32 r x c)) = (gen_reg c)[r := ucast x, s := ucast y]"
  by (simp add: set_gpr32_eq)

lemma mul_eax_ed_r_eq:
  assumes u: "u = unat (get_gpr32 0 c) * unat (get_gpr32 (i_dst i) c)"
  shows "mul_eax_ed_r i c = (Inr (), finish_product (2 ^ 32 \<le> u) (of_nat u)
           (set_gpr32 2 (of_nat (u div 2 ^ 32)) (set_gpr32 0 (of_nat u) c)))"
proof -
  have "u div 2 ^ 32 < 2 ^ 32" unfolding u by (rule product_high)
  then have "(of_nat (u div 2 ^ 32) :: u32) \<noteq> 0 \<longleftrightarrow> 2 ^ 32 \<le> u"
    by (simp add: word_unat_eq_iff unat_of_nat_small div_eq_0_iff not_less)
  then show ?thesis
    unfolding mul_eax_ed_r_def finish_product_def Let_def low_half high_half unat_product u by simp
qed

lemma imul_eqs:
  "imul_eax_ed_r i c = (let p = sint (get_gpr32 0 c) * sint (get_gpr32 (i_dst i) c);
       lo = word_of_int p in
     (Inr (), finish_product (\<not> (- (2 ^ 31) \<le> p \<and> p < 2 ^ 31)) lo
        (set_gpr32 2 (word_of_int (p div 2 ^ 32)) (set_gpr32 0 lo c))))"
  "imul_gd_ed_r i c = (let p = sint (get_gpr32 (i_dst i) c) * sint (get_gpr32 (i_src1 i) c);
       lo = word_of_int p in
     (Inr (), finish_product (\<not> (- (2 ^ 31) \<le> p \<and> p < 2 ^ 31)) lo (set_gpr32 (i_dst i) lo c)))"
  "imul_gd_ed_ib_r i c = (let p = sint (get_gpr32 (i_src1 i) c) * sint (i_ib i);
       lo = word_of_int p in
     (Inr (), finish_product (\<not> (- (2 ^ 31) \<le> p \<and> p < 2 ^ 31)) lo (set_gpr32 (i_dst i) lo c)))"
  "imul_gd_ed_id_r i c = (let p = sint (get_gpr32 (i_src1 i) c) * sint (i_id i);
       lo = word_of_int p in
     (Inr (), finish_product (\<not> (- (2 ^ 31) \<le> p \<and> p < 2 ^ 31)) lo (set_gpr32 (i_dst i) lo c)))"
proof -
  note defs = imul_eax_ed_r_def imul_gd_ed_r_def imul_gd_ed_ib_r_def imul_gd_ed_id_r_def
  show "imul_eax_ed_r i c = (let p = sint (get_gpr32 0 c) * sint (get_gpr32 (i_dst i) c);
       lo = word_of_int p in
     (Inr (), finish_product (\<not> (- (2 ^ 31) \<le> p \<and> p < 2 ^ 31)) lo
        (set_gpr32 2 (word_of_int (p div 2 ^ 32)) (set_gpr32 0 lo c))))"
    unfolding defs finish_product_def Let_def not_fits by (simp add: drop_bit_eq_div)
qed (simp_all only: imul_gd_ed_r_def imul_gd_ed_ib_r_def imul_gd_ed_id_r_def finish_product_def
    Let_def not_fits)

text \<open>
  C18. The 32-bit multiplications are exact. MUL leaves the unsigned and IMUL the signed 64-bit
  product of EAX and the operand in EDX:EAX; the two and three operand forms of IMUL leave its
  low half in the destination. CF and OF are set exactly when the low half alone does not
  represent the product.
\<close>

theorem multiplication_exact:
  "let e = get_gpr32 0 c; s = get_gpr32 (i_dst i) c; t = get_gpr32 (i_src1 i) c;
       u = unat e * unat s; p = sint e * sint s; q = sint s * sint t;
       rb = sint t * sint (i_ib i); rd = sint t * sint (i_id i);
       low = (\<lambda>z. word_of_int z :: u32); fits = (\<lambda>z. - (2 ^ 31) \<le> z \<and> z < (2 ^ 31 :: int)) in
     gen_reg (snd (mul_eax_ed_r i c)) = (gen_reg c)[0 := of_nat (u mod 2 ^ 32), 2 := of_nat (u div 2 ^ 32)]
   \<and> flags_of (oszapc (snd (mul_eax_ed_r i c))) = product_flags (of_nat u) (2 ^ 32 \<le> u)
   \<and> gen_reg (snd (imul_eax_ed_r i c)) = (gen_reg c)[0 := ucast (low p), 2 := ucast (low (p div 2 ^ 32))]
   \<and> flags_of (oszapc (snd (imul_eax_ed_r i c))) = product_flags (low p) (\<not> fits p)
   \<and> wrote (i_dst i) (ucast (low q)) (product_flags (low q) (\<not> fits q)) c (snd (imul_gd_ed_r i c))
   \<and> wrote (i_dst i) (ucast (low rb)) (product_flags (low rb) (\<not> fits rb)) c (snd (imul_gd_ed_ib_r i c))
   \<and> wrote (i_dst i) (ucast (low rd)) (product_flags (low rd) (\<not> fits rd)) c (snd (imul_gd_ed_id_r i c))"
  unfolding Let_def mul_eax_ed_r_eq [OF refl] imul_eqs snd_conv
  by (simp only: finish_product_effect gen_reg_two ucast_of_nat_32 mod_less [OF product_high] simp_thms)

section \<open>Division\<close>

lemma unat_pair64: "unat (pair64 hi lo) = 2 ^ 32 * unat hi + unat lo"
proof -
  have "push_bit 32 (ucast hi) AND (ucast lo :: u64) = 0"
    by (rule bit_word_eqI) (auto simp: bit_simps dest: bit_imp_le_length)
  then have "pair64 hi lo = push_bit 32 (ucast hi) + ucast lo"
    by (simp add: pair64_def disjunctive_add_eq_or)
  moreover have "unat (push_bit 32 (ucast hi) :: u64) = 2 ^ 32 * unat hi"
    unfolding unsigned_push_bit_eq using unat_bound [of hi]
    by (simp add: unat_ucast_up push_bit_eq_mult take_bit_nat_eq_self mult.commute)
  ultimately show ?thesis
    using unat_bound [of hi] unat_bound [of lo] by (simp add: unat_word_ariths unat_ucast_up)
qed

lemma sint_pair64: "sint (pair64 hi lo) = 2 ^ 32 * sint hi + int (unat lo)"
proof -
  have "take_bit 63 (2 ^ 32 * unat hi + unat lo) = 2 ^ 32 * take_bit 31 (unat hi) + unat lo"
    using mod_mult2_eq [of "2 ^ 32 * unat hi + unat lo" "2 ^ 32" "2 ^ 31"] unat_bound [of lo]
    by (simp add: take_bit_eq_mod)
  then have "sint (pair64 hi lo) = int (2 ^ 32 * take_bit 31 (unat hi) + unat lo) - 2 ^ 63 * of_bool (bit hi 31)"
    by (simp add: sint_split [of 63] unat_pair64 bit_pair64)
  then show ?thesis by (simp add: sint_split [of 31 hi] algebra_simps)
qed

text \<open>The least dividend has no representable quotient, so its separate check changes nothing.\<close>

lemma least_dividend:
  assumes "s \<noteq> 0" "- (2 ^ 31) \<le> s" "s < 2 ^ 31"
  shows "\<not> (- (2 ^ 31) \<le> - (2 ^ 63) sdiv s \<and> - (2 ^ 63) sdiv s < (2 ^ 31 :: int))"
proof -
  have "(2 ^ 32 :: int) = 2 ^ 63 div 2 ^ 31" by simp
  also have "\<dots> \<le> 2 ^ 63 div \<bar>s\<bar>" using assms by (intro zdiv_mono2) auto
  finally have "2 ^ 32 \<le> \<bar>- (2 ^ 63) sdiv s\<bar>"
    using assms(1) by (cases "0 < s") (simp_all add: signed_divide_int_def abs_mult)
  moreover have "2 ^ 32 \<le> \<bar>z\<bar> \<Longrightarrow> \<not> (- (2 ^ 31) \<le> z \<and> z < 2 ^ 31)" for z :: int by auto
  ultimately show ?thesis by blast
qed

lemma fits_32: "w = ucast (ucast w :: u32) \<longleftrightarrow> unat w < 2 ^ 32" for w :: u64
proof -
  have "unat (ucast (ucast w :: u32) :: u64) = take_bit 32 (unat w)"
    using unat_ucast_up [of "ucast w :: u32", where 'b = 64] by (simp add: unsigned_ucast_eq)
  then show ?thesis
    by (simp add: word_unat_eq_iff [of w] take_bit_eq_mod eq_commute [of "unat w"]
        mod_eq_self_iff_div_eq_0 div_eq_0_iff)
qed

text \<open>
  C11. The 32-bit divisions are exact or raise the divide error. With the dividend in EDX:EAX,
  DIV raises it exactly when the divisor is zero or the quotient needs more than 32 bits, IDIV
  exactly when the divisor is zero or the signed quotient (rounded towards zero) does not fit
  in 32 bits; nothing has changed then. Otherwise the quotient is in EAX, the remainder in EDX
  and no flag changes.
\<close>

theorem division_exact:
  "let n = 2 ^ 32 * unat (get_gpr32 2 c) + unat (get_gpr32 0 c);
       k = 2 ^ 32 * sint (get_gpr32 2 c) + int (unat (get_gpr32 0 c));
       d = unat (get_gpr32 (i_dst i) c); s = sint (get_gpr32 (i_dst i) c) in
     div_eax_ed_r i c =
       (if d = 0 \<or> 2 ^ 32 \<le> n div d then (Inl (De, 0), c)
        else (Inr (), set_gpr32 2 (of_nat (n mod d)) (set_gpr32 0 (of_nat (n div d)) c)))
   \<and> idiv_eax_ed_r i c =
       (if s = 0 \<or> k sdiv s < - (2 ^ 31) \<or> 2 ^ 31 \<le> k sdiv s then (Inl (De, 0), c)
        else (Inr (), set_gpr32 2 (word_of_int (k smod s)) (set_gpr32 0 (word_of_int (k sdiv s)) c)))"
proof -
  let ?d = "get_gpr32 (i_dst i) c" and ?p = "pair64 (get_gpr32 2 c) (get_gpr32 0 c)"
  have p: "push_bit 32 (ucast (get_gpr32 2 c)) OR ucast (get_gpr32 0 c) = ?p"
      "ucast (get_gpr32 0 c) OR push_bit 32 (ucast (get_gpr32 2 c)) = ?p"
    by (simp_all add: pair64_def or.commute)
  have q: "unat (?p div ucast ?d) = unat ?p div unat ?d" "unat (?p mod ucast ?d) = unat ?p mod unat ?d"
    by (simp_all add: unat_div_distrib unat_mod_distrib unat_ucast_up)
  have o: "w \<noteq> ucast (of_nat (unat w) :: u32) \<longleftrightarrow> 2 ^ 32 \<le> unat w" for w :: u64
    using fits_32 [of w] by auto
  have l: "ucast w = (of_nat (unat w) :: u32)" for w :: u64 by simp
  have "div_eax_ed_r i c =
       (if unat ?d = 0 \<or> 2 ^ 32 \<le> unat ?p div unat ?d then (Inl (De, 0), c)
        else (Inr (), set_gpr32 2 (of_nat (unat ?p mod unat ?d)) (set_gpr32 0 (of_nat (unat ?p div unat ?d)) c)))"
    unfolding div_eax_ed_r_def Let_def p low_half o l [of "?p mod ucast ?d"] q
    by (simp only: unat_eq_0 disj_ac if_bool_eq_disj split: if_splits) auto
  moreover have "idiv_eax_ed_r i c =
       (if sint ?d = 0 \<or> sint ?p sdiv sint ?d < - (2 ^ 31) \<or> 2 ^ 31 \<le> sint ?p sdiv sint ?d
        then (Inl (De, 0), c)
        else (Inr (), set_gpr32 2 (word_of_int (sint ?p smod sint ?d))
                        (set_gpr32 0 (word_of_int (sint ?p sdiv sint ?d)) c)))"
  proof -
    have "sint (0x8000000000000000 :: u64) = - (2 ^ 63)" by simp
    moreover have "- (2 ^ 31) \<le> sint ?d" "sint ?d < 2 ^ 31"
      using sint_greater_eq [of ?d] sint_less [of ?d] by simp_all
    ultimately show ?thesis
      using least_dividend [of "sint ?d"] unfolding idiv_eax_ed_r_def Let_def p not_fits
      by auto
  qed
  ultimately show ?thesis unfolding Let_def unat_pair64 sint_pair64 by simp
qed

end
