(* ===== verification/Xmm.thy ===== *)
theory Xmm
  imports Snap Cpu_Regs
begin

text \<open>
  Vector registers (\<^verbatim>\<open>cpu/xmm.rs\<close>): a 128-bit value as its sixteen bytes with the byte, dword and
  qword views, and the register file of 64-byte registers with the two ways an instruction writes
  an XMM result. A VEX-encoded instruction clears what is above the low 128 bits, as far as the
  enabled vector length makes it visible; a legacy one keeps it.

  An instruction with a vector operand has two more fields than those of the integer handlers, the
  second source register and the VEX flag.
\<close>

type_synonym xmm = bytes

definition xmm_default :: xmm where "xmm_default = replicate 16 0"

definition xmmubyte :: "xmm \<Rightarrow> nat \<Rightarrow> u8" where "xmmubyte r i = r ! i"

definition set_xmmubyte :: "nat \<Rightarrow> u8 \<Rightarrow> xmm \<Rightarrow> xmm" where "set_xmmubyte i v r = r[i := v]"

definition xmm32u :: "xmm \<Rightarrow> nat \<Rightarrow> u32" where
  "xmm32u r i = from_le_bytes (take 4 (drop (4 * i) r))"

definition set_xmm32u :: "nat \<Rightarrow> u32 \<Rightarrow> xmm \<Rightarrow> xmm" where
  "set_xmm32u i v r = take (4 * i) r @ to_le_bytes 4 v @ drop (4 * i + 4) r"

definition xmm64u :: "xmm \<Rightarrow> nat \<Rightarrow> u64" where
  "xmm64u r i = from_le_bytes (take 8 (drop (8 * i) r))"

definition set_xmm64u :: "nat \<Rightarrow> u64 \<Rightarrow> xmm \<Rightarrow> xmm" where
  "set_xmm64u i v r = take (8 * i) r @ to_le_bytes 8 v @ drop (8 * i + 8) r"

section \<open>The register file\<close>

datatype avx_vector_length = Vl128 | Vl256 | Vl512

record vector_file =
  vmm :: "bytes list"
  maxvl :: avx_vector_length

record vex_instruction = instruction +
  i_src2 :: nat
  i_is_vex :: bool

definition zmm128 :: "bytes \<Rightarrow> nat \<Rightarrow> xmm" where
  "zmm128 z i = take 16 (drop (i * 16) z)"

definition set_zmm128 :: "nat \<Rightarrow> xmm \<Rightarrow> bytes \<Rightarrow> bytes" where
  "set_zmm128 i v z = take (i * 16) z @ v @ drop (i * 16 + 16) z"

definition set_zmm256 :: "nat \<Rightarrow> bytes \<Rightarrow> bytes \<Rightarrow> bytes" where
  "set_zmm256 i v z = take (i * 32) z @ v @ drop (i * 32 + 32) z"

definition read_xmm_reg :: "nat \<Rightarrow> vector_file \<Rightarrow> xmm" where
  "read_xmm_reg index v = zmm128 (vmm v ! index) 0"

definition write_xmm_reg_lo128 :: "nat \<Rightarrow> xmm \<Rightarrow> vector_file \<Rightarrow> vector_file" where
  "write_xmm_reg_lo128 index val v =
     v\<lparr>vmm := (vmm v)[index := set_zmm128 0 val (vmm v ! index)]\<rparr>"

definition write_xmm_reg :: "nat \<Rightarrow> xmm \<Rightarrow> vector_file \<Rightarrow> vector_file" where
  "write_xmm_reg i val v =
     (let z = set_zmm128 0 val (vmm v ! i);
          z = if maxvl v \<noteq> Vl128 then
                (let z = set_zmm128 1 xmm_default z
                 in if maxvl v \<noteq> Vl256 then set_zmm256 1 (replicate 32 0) z else z)
              else z
      in v\<lparr>vmm := (vmm v)[i := z]\<rparr>)"

definition write_xmm_result :: "vex_instruction \<Rightarrow> nat \<Rightarrow> xmm \<Rightarrow> vector_file \<Rightarrow> vector_file" where
  "write_xmm_result i idx val v =
     (if i_is_vex i then write_xmm_reg idx val v else write_xmm_reg_lo128 idx val v)"

text \<open>A register of the file has 64 bytes; the operand of an instruction is one of them.\<close>

definition vector_reg :: "vector_file \<Rightarrow> nat \<Rightarrow> bool" where
  "vector_reg v n \<longleftrightarrow> n < length (vmm v) \<and> length (vmm v ! n) = 64"

lemma length_read_xmm_reg: "vector_reg v n \<Longrightarrow> length (read_xmm_reg n v) = 16"
  by (simp add: vector_reg_def read_xmm_reg_def zmm128_def)

text \<open>What a result write leaves in every register.\<close>

lemma write_xmm_result_effect:
  assumes "vector_reg v n" "length val = 16"
  shows "vmm (write_xmm_result i n val v) ! m =
      (if m = n then val @ (if \<not> i_is_vex i \<or> maxvl v = Vl128 then drop 16 (vmm v ! n)
                            else if maxvl v = Vl256 then replicate 16 0 @ drop 32 (vmm v ! n)
                            else replicate 48 0)
       else vmm v ! m)"
    "maxvl (write_xmm_result i n val v) = maxvl v"
    "length (vmm (write_xmm_result i n val v)) = length (vmm v)"
proof -
  have "take 16 (replicate 16 (0 :: u8)) = replicate 16 0" by simp
  then show "vmm (write_xmm_result i n val v) ! m =
      (if m = n then val @ (if \<not> i_is_vex i \<or> maxvl v = Vl128 then drop 16 (vmm v ! n)
                            else if maxvl v = Vl256 then replicate 16 0 @ drop 32 (vmm v ! n)
                            else replicate 48 0)
       else vmm v ! m)"
    using assms
    by (cases "maxvl v")
       (auto simp: write_xmm_result_def write_xmm_reg_def write_xmm_reg_lo128_def Let_def vector_reg_def
         set_zmm128_def set_zmm256_def xmm_default_def replicate_add [symmetric])
qed (simp_all add: write_xmm_result_def write_xmm_reg_def write_xmm_reg_lo128_def Let_def)

lemma read_write_xmm_result:
  "vector_reg v n \<Longrightarrow> length val = 16 \<Longrightarrow> read_xmm_reg n (write_xmm_result i n val v) = val"
  by (simp add: read_xmm_reg_def zmm128_def write_xmm_result_effect)

lemma vector_reg_write: "vector_reg v n \<Longrightarrow> length val = 16 \<Longrightarrow> vector_reg v m \<Longrightarrow> vector_reg (write_xmm_result i n val v) m"
  by (auto simp: vector_reg_def write_xmm_result_effect)

end
