(* ===== verification/Cpu_Bmi.thy ===== *)
theory Cpu_Bmi
  imports Cpu_Shift Cpu_Mult Xmm
begin

text \<open>
  Bit manipulation with register operands: \<^verbatim>\<open>cpu/bmi32.rs\<close> and the two loops of \<^verbatim>\<open>cpu/bmi64.rs\<close>. The
  loops of PEXT and PDEP run until the mask is used up; they are partial functions, where running
  for ever is the value \<open>None\<close>, and the theorems show that they return, what they return, and that
  each undoes the other. The remaining instructions are compared with what the manuals say of them.
\<close>

section \<open>Parallel extract and deposit\<close>

partial_function (option) pext_loop :: "'a::len word \<Rightarrow> 'a word \<Rightarrow> 'a word \<Rightarrow> 'a word \<Rightarrow> 'a word option" where
  "pext_loop op1 op2 result wr_mask =
     (if op2 = 0 then Some result
      else if op2 AND 1 \<noteq> 0
        then pext_loop (drop_bit 1 op1) (drop_bit 1 op2)
               (if op1 AND 1 \<noteq> 0 then result OR wr_mask else result) (push_bit 1 wr_mask)
        else pext_loop (drop_bit 1 op1) (drop_bit 1 op2) result wr_mask)"

partial_function (option) pdep_loop :: "'a::len word \<Rightarrow> 'a word \<Rightarrow> 'a word \<Rightarrow> 'a word \<Rightarrow> 'a word option" where
  "pdep_loop op1 op2 result wr_mask =
     (if op2 = 0 then Some result
      else if op2 AND 1 \<noteq> 0
        then pdep_loop (drop_bit 1 op1) (drop_bit 1 op2)
               (if op1 AND 1 \<noteq> 0 then result OR wr_mask else result) (push_bit 1 wr_mask)
        else pdep_loop op1 (drop_bit 1 op2) result (push_bit 1 wr_mask))"

declare pext_loop.simps [code] pdep_loop.simps [code]

definition pext_gd_bd_ed_r :: "vex_instruction \<Rightarrow> cpu \<Rightarrow> cpu option" where
  "pext_gd_bd_ed_r i c =
     (let op1 = get_gpr32 (i_src2 i) c; op2 = get_gpr32 (i_src1 i) c
      in map_option (\<lambda>result. set_gpr32 (i_dst i) result c) (pext_loop op1 op2 0 1))"

definition pdep_gd_bd_ed_r :: "vex_instruction \<Rightarrow> cpu \<Rightarrow> cpu option" where
  "pdep_gd_bd_ed_r i c =
     (let op1 = get_gpr32 (i_src2 i) c; op2 = get_gpr32 (i_src1 i) c
      in map_option (\<lambda>result. set_gpr32 (i_dst i) result c) (pdep_loop op1 op2 0 1))"

definition pext_gq_bq_eq_r :: "vex_instruction \<Rightarrow> cpu \<Rightarrow> cpu option" where
  "pext_gq_bq_eq_r i c =
     (let op1 = get_gpr64 (i_src2 i) c; op2 = get_gpr64 (i_src1 i) c
      in map_option (\<lambda>result. set_gpr64 (i_dst i) result c) (pext_loop op1 op2 0 1))"

definition pdep_gq_bq_eq_r :: "vex_instruction \<Rightarrow> cpu \<Rightarrow> cpu option" where
  "pdep_gq_bq_eq_r i c =
     (let op1 = get_gpr64 (i_src2 i) c; op2 = get_gpr64 (i_src1 i) c
      in map_option (\<lambda>result. set_gpr64 (i_dst i) result c) (pdep_loop op1 op2 0 1))"

section \<open>Bit fields, flagless shifts and long additions\<close>

definition set_flags_oszaxc_logic_32 :: "u32 \<Rightarrow> cpu \<Rightarrow> cpu" where
  "set_flags_oszaxc_logic_32 result c =
     (let saved_pf = getb_pf (oszapc c) \<noteq> 0;
          f = set_oszapc_logic_32 result (oszapc c)
      in c\<lparr>oszapc := set_pf saved_pf f\<rparr>)"

definition andn_gd_bd_ed_r :: "vex_instruction \<Rightarrow> cpu \<Rightarrow> cpu" where
  "andn_gd_bd_ed_r i c =
     (let op1 = get_gpr32 (i_src2 i) c; op2 = get_gpr32 (i_src1 i) c;
          result = NOT op1 AND op2;
          c = set_flags_oszaxc_logic_32 result c
      in set_gpr32 (i_dst i) result c)"

definition blsi_bd_ed_r :: "vex_instruction \<Rightarrow> cpu \<Rightarrow> cpu" where
  "blsi_bd_ed_r i c =
     (let op1 = get_gpr32 (i_src1 i) c; tmp_cf = op1 \<noteq> 0;
          result = - op1 AND op1;
          c = set_flags_oszaxc_logic_32 result c;
          c = cpu_set_cf tmp_cf c
      in set_gpr32 (i_src2 i) result c)"

definition blsmsk_bd_ed_r :: "vex_instruction \<Rightarrow> cpu \<Rightarrow> cpu" where
  "blsmsk_bd_ed_r i c =
     (let op1 = get_gpr32 (i_src1 i) c; tmp_cf = op1 = 0;
          result = (op1 - 1) XOR op1;
          c = set_flags_oszaxc_logic_32 result c;
          c = cpu_set_cf tmp_cf c
      in set_gpr32 (i_src2 i) result c)"

definition blsr_bd_ed_r :: "vex_instruction \<Rightarrow> cpu \<Rightarrow> cpu" where
  "blsr_bd_ed_r i c =
     (let op1 = get_gpr32 (i_src1 i) c; tmp_cf = op1 = 0;
          result = (op1 - 1) AND op1;
          c = set_flags_oszaxc_logic_32 result c;
          c = cpu_set_cf tmp_cf c
      in set_gpr32 (i_src2 i) result c)"

definition bextrd :: "u32 \<Rightarrow> u32 \<Rightarrow> u32 \<Rightarrow> u32" where
  "bextrd val start len =
     (let start = start AND 0xff; len = len AND 0xff in
      if start \<ge> 32 then 0
      else (let shifted = drop_bit (unat start) val in
            if len \<ge> 32 then shifted
            else shifted AND (push_bit (unat len) 1 - 1)))"

definition bextr_gd_ed_bd_r :: "vex_instruction \<Rightarrow> cpu \<Rightarrow> cpu" where
  "bextr_gd_ed_bd_r i c =
     (let control = ucast (get_gpr32 (i_src2 i) c) :: u16;
          start = ucast (control AND 0xff); len = ucast (drop_bit 8 control);
          val = get_gpr32 (i_src1 i) c;
          result = bextrd val start len;
          c = set_gpr32 (i_dst i) result c;
          c = c\<lparr>oszapc := set_oszapc_logic_32 1 (oszapc c)\<rparr>
      in if result = 0 then c\<lparr>oszapc := set_zf True (oszapc c)\<rparr> else c)"

definition bzhi_gd_bd_ed_r :: "vex_instruction \<Rightarrow> cpu \<Rightarrow> cpu" where
  "bzhi_gd_bd_ed_r i c =
     (let control = ucast (get_gpr32 (i_src2 i) c) :: u8;
          op1 = get_gpr32 (i_src1 i) c;
          (op1, tmp_cf) = if (ucast control :: u32) < 32
                          then (op1 AND (push_bit (unat control) 1 - 1), False) else (op1, True);
          c = set_flags_oszaxc_logic_32 op1 c;
          c = cpu_set_cf tmp_cf c
      in set_gpr32 (i_dst i) op1 c)"

definition mulx_gd_bd_ed_r :: "vex_instruction \<Rightarrow> cpu \<Rightarrow> cpu" where
  "mulx_gd_bd_ed_r i c =
     (let op1 = ucast (cpu_edx c) :: u64; op2 = ucast (get_gpr32 (i_src1 i) c);
          product = op1 * op2;
          c = set_gpr32 (i_src2 i) (ucast product) c
      in set_gpr32 (i_dst i) (ucast (drop_bit 32 product)) c)"

definition rorx_gd_ed_ib_r :: "vex_instruction \<Rightarrow> cpu \<Rightarrow> cpu" where
  "rorx_gd_ed_ib_r i c =
     (let op1 = get_gpr32 (i_src1 i) c;
          count = (ucast (ucast (i_immediate i) :: u8) :: u32) AND 0x1f;
          op1 = if count \<noteq> 0 then word_rotr (unat count) op1 else op1
      in set_gpr32 (i_dst i) op1 c)"

definition shrx_gd_ed_bd_r :: "vex_instruction \<Rightarrow> cpu \<Rightarrow> cpu" where
  "shrx_gd_ed_bd_r i c =
     (let op1 = get_gpr32 (i_src1 i) c;
          count = get_gpr32 (i_src2 i) c AND 0x1f;
          op1 = if count \<noteq> 0 then drop_bit (unat count) op1 else op1
      in set_gpr32 (i_dst i) op1 c)"

definition sarx_gd_ed_bd_r :: "vex_instruction \<Rightarrow> cpu \<Rightarrow> cpu" where
  "sarx_gd_ed_bd_r i c =
     (let op1 = get_gpr32 (i_src1 i) c;
          count = get_gpr32 (i_src2 i) c AND 0x1f;
          op1 = if count \<noteq> 0 then signed_drop_bit (unat count) op1 else op1
      in set_gpr32 (i_dst i) op1 c)"

definition shlx_gd_ed_bd_r :: "vex_instruction \<Rightarrow> cpu \<Rightarrow> cpu" where
  "shlx_gd_ed_bd_r i c =
     (let op1 = get_gpr32 (i_src1 i) c;
          count = get_gpr32 (i_src2 i) c AND 0x1f;
          op1 = if count \<noteq> 0 then push_bit (unat count) op1 else op1
      in set_gpr32 (i_dst i) op1 c)"

definition adcx_gd_ed_r :: "vex_instruction \<Rightarrow> cpu \<Rightarrow> cpu" where
  "adcx_gd_ed_r i c =
     (let op1 = get_gpr32 (i_dst i) c; op2 = get_gpr32 (i_src1 i) c;
          cf_in = if getb_cf (oszapc c) \<noteq> 0 then 1 else 0;
          sum = op1 + op2 + cf_in;
          c = set_gpr32 (i_dst i) sum c;
          carry_out = (op1 AND op2) OR ((op1 OR op2) AND NOT sum)
      in cpu_set_cf (drop_bit 31 carry_out AND 1 \<noteq> 0) c)"

definition adox_gd_ed_r :: "vex_instruction \<Rightarrow> cpu \<Rightarrow> cpu" where
  "adox_gd_ed_r i c =
     (let op1 = get_gpr32 (i_dst i) c; op2 = get_gpr32 (i_src1 i) c;
          of_in = if getb_of (oszapc c) \<noteq> 0 then 1 else 0;
          sum = op1 + op2 + of_in;
          c = set_gpr32 (i_dst i) sum c;
          carry_out = (op1 AND op2) OR ((op1 OR op2) AND NOT sum)
      in cpu_set_of (drop_bit 31 carry_out AND 1 \<noteq> 0) c)"

section \<open>Selected positions\<close>

text \<open>The positions that a mask selects below \<open>n\<close>, in increasing order.\<close>

definition selected :: "'a::len word \<Rightarrow> nat \<Rightarrow> nat list" where
  "selected m n = filter (bit m) [0..<n]"

lemma selected_simps [simp]:
  "selected m 0 = []"
  "selected m (Suc n) = (if bit m n then selected m n @ [n] else selected m n)"
  by (simp_all add: selected_def)

lemma length_selected: "length (selected m n) \<le> n"
  using length_filter_le [of "bit m" "[0..<n]"] by (simp add: selected_def)

lemma rank_selected:
  "k < n \<Longrightarrow> bit m k \<Longrightarrow> length (selected m k) < length (selected m n) \<and> selected m n ! length (selected m k) = k"
proof (induction n)
  case (Suc n)
  then show ?case by (cases "k = n") (auto simp: nth_append less_Suc_eq)
qed simp

lemma selected_rank:
  "k < length (selected m n) \<Longrightarrow>
   bit m (selected m n ! k) \<and> selected m n ! k < n \<and> length (selected m (selected m n ! k)) = k"
  by (induction n) (auto simp: nth_append less_Suc_eq split: if_splits)

text \<open>The results of the loops after \<open>n\<close> positions.\<close>

primrec pext_upto :: "'a::len word \<Rightarrow> 'a word \<Rightarrow> nat \<Rightarrow> 'a word" where
  "pext_upto x m 0 = 0"
| "pext_upto x m (Suc n) =
     (if bit m n \<and> bit x n then pext_upto x m n OR push_bit (length (selected m n)) 1 else pext_upto x m n)"

primrec pdep_upto :: "'a::len word \<Rightarrow> 'a word \<Rightarrow> nat \<Rightarrow> 'a word" where
  "pdep_upto x m 0 = 0"
| "pdep_upto x m (Suc n) =
     (if bit m n \<and> bit x (length (selected m n)) then pdep_upto x m n OR push_bit n 1 else pdep_upto x m n)"

lemma bit_pext_upto:
  fixes x m :: "'a::len word"
  shows "n \<le> LENGTH('a) \<Longrightarrow>
   bit (pext_upto x m n) k \<longleftrightarrow> k < length (selected m n) \<and> bit x (selected m n ! k)"
proof (induction n)
  case (Suc n)
  then have "length (selected m n) < LENGTH('a)" using length_selected [of m n] by linarith
  then have "bit (push_bit (length (selected m n)) 1 :: 'a word) k \<longleftrightarrow> k = length (selected m n)"
    by (auto simp: bit_push_bit_iff bit_1_iff possible_bit_word simp del: push_bit_of_1)
  with Suc show ?case by (auto simp: bit_or_iff nth_append less_Suc_eq)
qed simp

lemma bit_pdep_upto:
  fixes x m :: "'a::len word"
  shows "n \<le> LENGTH('a) \<Longrightarrow>
   bit (pdep_upto x m n) k \<longleftrightarrow> k < n \<and> bit m k \<and> bit x (length (selected m k))"
proof (induction n)
  case (Suc n)
  then have "bit (push_bit n 1 :: 'a word) k \<longleftrightarrow> k = n"
    by (auto simp: bit_push_bit_iff bit_1_iff possible_bit_word simp del: push_bit_of_1)
  with Suc show ?case by (auto simp: bit_or_iff less_Suc_eq)
qed simp

lemma upto_stable:
  assumes "drop_bit n m = 0" "n \<le> N"
  shows "pext_upto x m N = pext_upto x m n" "pdep_upto x m N = pdep_upto x m n"
proof -
  have z: "\<not> bit m k" if "n \<le> k" for k
    using arg_cong [OF assms(1), of "\<lambda>w. bit w (k - n)"] that by (simp add: bit_drop_bit_eq)
  show "pext_upto x m N = pext_upto x m n"
    using assms(2) by (induction rule: dec_induct) (simp_all add: z)
  show "pdep_upto x m N = pdep_upto x m n"
    using assms(2) by (induction rule: dec_induct) (simp_all add: z)
qed

lemma loop_step:
  fixes m :: "'a::len word"
  shows "drop_bit n m AND 1 \<noteq> 0 \<longleftrightarrow> bit m n" "drop_bit 1 (drop_bit n m) = drop_bit (Suc n) m"
    "push_bit 1 (push_bit n m) = push_bit (Suc n) m"
  by (simp_all only: and_1_of_bool bit_drop_bit_eq drop_bit_drop_bit push_bit_push_bit) (simp_all add: bit_simps)

lemma pext_loop_step:
  assumes "drop_bit n m \<noteq> 0"
  shows "pext_loop (drop_bit n x) (drop_bit n m) (pext_upto x m n) (push_bit (length (selected m n)) 1)
    = pext_loop (drop_bit (Suc n) x) (drop_bit (Suc n) m) (pext_upto x m (Suc n)) (push_bit (length (selected m (Suc n))) 1)"
  unfolding pext_loop.simps [of "drop_bit n x"]
  using assms by (cases "bit m n"; cases "bit x n")
    (simp_all only: loop_step if_True if_False simp_thms selected_simps pext_upto.simps length_append_singleton)

lemma pdep_loop_step:
  assumes "drop_bit n m \<noteq> 0"
  shows "pdep_loop (drop_bit (length (selected m n)) x) (drop_bit n m) (pdep_upto x m n) (push_bit n 1)
    = pdep_loop (drop_bit (length (selected m (Suc n))) x) (drop_bit (Suc n) m) (pdep_upto x m (Suc n)) (push_bit (Suc n) 1)"
  unfolding pdep_loop.simps [of "drop_bit (length (selected m n)) x" "drop_bit n m"]
  using assms by (cases "bit m n"; cases "bit x (length (selected m n))")
    (simp_all only: loop_step if_True if_False simp_thms selected_simps pdep_upto.simps length_append_singleton)

lemma pext_loop_run:
  fixes x m :: "'a::len word"
  shows "n \<le> LENGTH('a) \<Longrightarrow>
   pext_loop (drop_bit n x) (drop_bit n m) (pext_upto x m n) (push_bit (length (selected m n)) 1)
   = Some (pext_upto x m LENGTH('a))"
proof (induction rule: inc_induct)
  case base
  have "drop_bit LENGTH('a) m = 0" by (rule bit_word_eqI) (simp add: bit_drop_bit_eq)
  then show ?case by (subst pext_loop.simps) (simp only: if_True simp_thms)
next
  case (step n)
  show ?case
  proof (cases "drop_bit n m = 0")
    case True
    then show ?thesis using upto_stable(1) [OF True, of "LENGTH('a)" x] step(2) by (subst pext_loop.simps) simp
  next
    case False
    then show ?thesis by (rule trans [OF pext_loop_step step(3)])
  qed
qed

lemma pdep_loop_run:
  fixes x m :: "'a::len word"
  shows "n \<le> LENGTH('a) \<Longrightarrow>
   pdep_loop (drop_bit (length (selected m n)) x) (drop_bit n m) (pdep_upto x m n) (push_bit n 1)
   = Some (pdep_upto x m LENGTH('a))"
proof (induction rule: inc_induct)
  case base
  have "drop_bit LENGTH('a) m = 0" by (rule bit_word_eqI) (simp add: bit_drop_bit_eq)
  then show ?case by (subst pdep_loop.simps) (simp only: if_True simp_thms)
next
  case (step n)
  show ?case
  proof (cases "drop_bit n m = 0")
    case True
    then show ?thesis using upto_stable(2) [OF True, of "LENGTH('a)" x] step(2) by (subst pdep_loop.simps) simp
  next
    case False
    then show ?thesis by (rule trans [OF pdep_loop_step step(3)])
  qed
qed

lemma loops_return:
  fixes x m :: "'a::len word"
  shows "pext_loop x m 0 1 = Some (pext_upto x m LENGTH('a))" "pdep_loop x m 0 1 = Some (pdep_upto x m LENGTH('a))"
  using pext_loop_run [of 0 x m] pdep_loop_run [of 0 m x] by simp_all

lemmas bit_extracted = bit_pext_upto [OF order_refl]
lemmas bit_deposited = bit_pdep_upto [OF order_refl]

text \<open>
  C22. PEXT and PDEP always return, at both operand sizes. The result of PEXT has in bit \<open>k\<close> the bit of
  the source at the \<open>k\<close>-th position the mask selects; the result of PDEP has, at each position the
  mask selects, the bit of the source whose number is the rank of that position, and zero elsewhere.
\<close>

theorem pext_pdep_return:
  "(\<exists>r. pext_gd_bd_ed_r i c = Some (set_gpr32 (i_dst i) r c) \<and>
     (\<forall>k. bit r k \<longleftrightarrow> k < length (selected (get_gpr32 (i_src1 i) c) 32) \<and>
        bit (get_gpr32 (i_src2 i) c) (selected (get_gpr32 (i_src1 i) c) 32 ! k))) \<and>
   (\<exists>r. pext_gq_bq_eq_r i c = Some (set_gpr64 (i_dst i) r c) \<and>
     (\<forall>k. bit r k \<longleftrightarrow> k < length (selected (get_gpr64 (i_src1 i) c) 64) \<and>
        bit (get_gpr64 (i_src2 i) c) (selected (get_gpr64 (i_src1 i) c) 64 ! k))) \<and>
   (\<exists>r. pdep_gd_bd_ed_r i c = Some (set_gpr32 (i_dst i) r c) \<and>
     (\<forall>k. bit r k \<longleftrightarrow> bit (get_gpr32 (i_src1 i) c) k \<and>
        bit (get_gpr32 (i_src2 i) c) (length (selected (get_gpr32 (i_src1 i) c) k)))) \<and>
   (\<exists>r. pdep_gq_bq_eq_r i c = Some (set_gpr64 (i_dst i) r c) \<and>
     (\<forall>k. bit r k \<longleftrightarrow> bit (get_gpr64 (i_src1 i) c) k \<and>
        bit (get_gpr64 (i_src2 i) c) (length (selected (get_gpr64 (i_src1 i) c) k))))"
  unfolding pext_gd_bd_ed_r_def pext_gq_bq_eq_r_def pdep_gd_bd_ed_r_def pdep_gq_bq_eq_r_def Let_def loops_return
  using bit_extracted [where 'a = 32] bit_extracted [where 'a = 64] bit_deposited [where 'a = 32] bit_deposited [where 'a = 64]
    bit_imp_le_length [of "get_gpr32 (i_src1 i) c"] bit_imp_le_length [of "get_gpr64 (i_src1 i) c"]
  by (intro conjI exI) auto

text \<open>
  C23. The two loops undo each other at every width: depositing what was extracted gives back the
  source at the selected positions, and extracting what was deposited gives back as many low bits
  of the source as the mask has positions.
\<close>

theorem pext_pdep_round_trip:
  fixes x m :: "'a::len word"
  shows "\<exists>e d. pext_loop x m 0 1 = Some e \<and> pdep_loop e m 0 1 = Some (x AND m) \<and>
    pdep_loop x m 0 1 = Some d \<and> pext_loop d m 0 1 = Some (x AND mask (length (selected m LENGTH('a))))"
proof -
  let ?e = "pext_upto x m LENGTH('a)" and ?d = "pdep_upto x m LENGTH('a)"
  have "pdep_upto ?e m LENGTH('a) = x AND m"
    by (rule bit_word_eqI) (auto simp: bit_deposited bit_extracted bit_and_iff rank_selected)
  moreover have "pext_upto ?d m LENGTH('a) = x AND mask (length (selected m LENGTH('a)))"
    by (rule bit_word_eqI) (auto simp: bit_deposited bit_extracted bit_and_iff bit_mask_iff selected_rank)
  ultimately show ?thesis by (simp add: loops_return)
qed

section \<open>The other instructions\<close>

lemma bit_minus_one_int: "bit (x - 1) k \<longleftrightarrow> (bit x k \<longleftrightarrow> (\<exists>j<k. bit x j))" for x :: int
proof (induction k arbitrary: x)
  case 0
  then show ?case by (simp add: bit_0)
next
  case (Suc k)
  have e: "(\<exists>j<Suc k. bit x j) \<longleftrightarrow> odd x \<or> (\<exists>j<k. bit (x div 2) j)"
    by (auto simp: less_Suc_eq_0_disj bit_0 bit_Suc)
  show ?case
  proof (cases "even x")
    case True
    then have "(x - 1) div 2 = x div 2 - 1" by presburger
    with True e show ?thesis by (simp add: bit_Suc Suc)
  next
    case False
    then have "(x - 1) div 2 = x div 2" by presburger
    with False e show ?thesis by (simp add: bit_Suc)
  qed
qed

lemma bit_minus_one:
  "bit (w - 1) k \<longleftrightarrow> k < LENGTH('a) \<and> (bit w k \<longleftrightarrow> (\<exists>j<k. bit w j))" for w :: "'a::len word"
proof -
  have "w - 1 = word_of_int (uint w - 1)" by simp
  then have "bit (w - 1) k \<longleftrightarrow> k < LENGTH('a) \<and> bit (uint w - 1) k" by (simp only: bit_word_of_int_iff)
  then show ?thesis by (auto simp: bit_minus_one_int bit_uint_iff)
qed

lemma bit_minus: "bit (- w) k \<longleftrightarrow> k < LENGTH('a) \<and> (bit w k \<longleftrightarrow> \<not> (\<exists>j<k. bit w j))" for w :: "'a::len word"
  unfolding minus_eq_not_minus_1 by (auto simp: bit_not_iff bit_minus_one)

text \<open>The lowest set bit.\<close>

lemma lowest_bit:
  fixes w :: "'a::len word"
  shows "bit (- w AND w) k \<longleftrightarrow> bit w k \<and> \<not> (\<exists>j<k. bit w j)"
    "bit ((w - 1) XOR w) k \<longleftrightarrow> k < LENGTH('a) \<and> \<not> (\<exists>j<k. bit w j)"
    "bit ((w - 1) AND w) k \<longleftrightarrow> bit w k \<and> (\<exists>j<k. bit w j)"
  by (auto simp: bit_and_iff bit_xor_iff bit_minus bit_minus_one dest: bit_imp_le_length)

lemma low_bits: "w AND (push_bit n 1 - 1) = take_bit n w" for w :: "'a::len word"
  by (simp add: take_bit_eq_mask mask_eq_exp_minus_1)

lemma oszaxc_effect:
  "wrote d (ucast r) ((logic_flags r)\<lparr>fl_pf := get_pf c\<rparr>) c (set_gpr32 d r (set_flags_oszaxc_logic_32 r c))"
  "wrote d (ucast r) ((logic_flags r)\<lparr>fl_pf := get_pf c, fl_cf := k\<rparr>) c
     (set_gpr32 d r (cpu_set_cf k (set_flags_oszaxc_logic_32 r c)))"
  by (simp_all add: wrote_def set_flags_oszaxc_logic_32_def cpu_set_cf_def set_gpr32_eq flags_setters alu32.logic
      Let_def get_pf_def)

text \<open>Some bit below position \<open>k\<close> is set.\<close>

definition set_below :: "'a::len word \<Rightarrow> nat \<Rightarrow> bool" where
  "set_below w k \<longleftrightarrow> (\<exists>j<k. bit w j)"

lemma unat_bits:
  "unat (take_bit n w) = unat w mod 2 ^ n" "unat (drop_bit n w) = unat w div 2 ^ n" for w :: "'a::len word"
  by (simp_all only: unsigned_take_bit_eq unat_drop_bit_eq) (simp_all only: take_bit_eq_mod drop_bit_eq_div)

lemma mask_255: "(0xFF :: 'a::len word) = mask 8"
  by (simp add: mask_eq_exp_minus_1)

lemma low_byte:
  "unat (ucast v :: u8) = unat v mod 256" "unat (ucast (ucast v AND 0xff :: u16) :: u32) = unat v mod 256"
  "unat (ucast (drop_bit 8 (ucast v :: u16)) :: u32) = unat v div 256 mod 256" for v :: u32
proof -
  have "(ucast (ucast v AND 0xff :: u16) :: u32) = take_bit 8 v" "(ucast (drop_bit 8 (ucast v :: u16)) :: u32) = take_bit 8 (drop_bit 8 v)"
    unfolding mask_255 by (rule bit_word_eqI, auto simp: bit_simps)+
  then show "unat (ucast v :: u8) = unat v mod 256" "unat (ucast (ucast v AND 0xff :: u16) :: u32) = unat v mod 256"
    "unat (ucast (drop_bit 8 (ucast v :: u16)) :: u32) = unat v div 256 mod 256"
    by (simp_all only: unat_bits unsigned_ucast_eq) (simp_all add: take_bit_eq_mod)
qed

lemma bextrd_exact:
  assumes "unat start < 256" "unat len < 256"
  shows "unat (bextrd w start len) = unat w div 2 ^ unat start mod 2 ^ unat len"
proof -
  have m: "v AND 0xFF = v" if "unat v < 256" for v :: u32
    using that by (intro word_unat_eq_iff [THEN iffD2]) (simp only: mask_255 take_bit_eq_mask [symmetric] unat_bits, simp)
  have le: "32 \<le> v \<longleftrightarrow> 32 \<le> unat v" for v :: u32 by (simp add: word_le_nat_alt)
  have w: "unat w < 2 ^ 32" using unsigned_less [of w, where 'a = nat] by simp
  have big: "unat w < 2 ^ n" if "32 \<le> n" for n using w power_increasing [OF that, of "2 :: nat"] by linarith
  have "unat w div 2 ^ unat start \<le> unat w" by simp
  then have "unat w div 2 ^ unat start < 2 ^ n" if "32 \<le> n" for n using big [OF that] by linarith
  with big show ?thesis
    unfolding bextrd_def Let_def m [OF assms(1)] m [OF assms(2)] le low_bits
    by (auto simp: unat_bits)
qed

lemma bzhi_effect:
  "\<exists>r :: u32. wrote (i_dst i) (ucast r)
      ((logic_flags r)\<lparr>fl_pf := get_pf c, fl_cf := 32 \<le> unat (get_gpr32 (i_src2 i) c) mod 256\<rparr>) c (bzhi_gd_bd_ed_r i c) \<and>
    unat r = unat (get_gpr32 (i_src1 i) c) mod 2 ^ (unat (get_gpr32 (i_src2 i) c) mod 256)"
proof -
  define n x where "n = unat (get_gpr32 (i_src2 i) c) mod 256" and "x = get_gpr32 (i_src1 i) c"
  have lt: "(ucast (ucast (get_gpr32 (i_src2 i) c) :: u8) :: u32) < 32 \<longleftrightarrow> n < 32"
    by (simp add: word_less_nat_alt unat_ucast_up low_byte n_def)
  have full: "take_bit n x = x" if "\<not> n < 32" using that by (intro bit_word_eqI) (simp add: bit_take_bit_iff)
  have "bzhi_gd_bd_ed_r i c = set_gpr32 (i_dst i) (take_bit n x) (cpu_set_cf (32 \<le> n) (set_flags_oszaxc_logic_32 (take_bit n x) c))"
    unfolding bzhi_gd_bd_ed_r_def Let_def lt low_bits low_byte n_def [symmetric] x_def [symmetric]
    by (cases "n < 32") (simp_all add: full)
  then show ?thesis unfolding n_def [symmetric] x_def [symmetric] 
    by (intro exI [of _ "take_bit n x"]) (simp add: oszaxc_effect unat_bits(1))
qed

text \<open>
  C28. The bit field instructions of BMI compute what the manuals say and set the flags of the result,
  with parity left as it was: ANDN; BLSI, BLSMSK and BLSR, which keep, mask up to and clear the
  lowest set bit; BZHI, which reduces modulo a power of two; and BEXTR, which takes the field with
  the given start and length and sets only the zero flag.
\<close>

theorem bmi_fields_exact:
  "let x = get_gpr32 (i_src1 i) c; v = get_gpr32 (i_src2 i) c;
       flags = \<lambda>r cf. (logic_flags r)\<lparr>fl_pf := get_pf c, fl_cf := cf\<rparr>
   in wrote (i_dst i) (ucast (NOT v AND x)) (flags (NOT v AND x) False) c (andn_gd_bd_ed_r i c) \<and>
      (\<exists>r :: u32. wrote (i_src2 i) (ucast r) (flags r (x \<noteq> 0)) c (blsi_bd_ed_r i c) \<and>
           (\<forall>k. bit r k \<longleftrightarrow> bit x k \<and> \<not> set_below x k)) \<and>
      (\<exists>r :: u32. wrote (i_src2 i) (ucast r) (flags r (x = 0)) c (blsmsk_bd_ed_r i c) \<and>
           (\<forall>k. bit r k \<longleftrightarrow> k < 32 \<and> \<not> set_below x k)) \<and>
      (\<exists>r :: u32. wrote (i_src2 i) (ucast r) (flags r (x = 0)) c (blsr_bd_ed_r i c) \<and>
           (\<forall>k. bit r k \<longleftrightarrow> bit x k \<and> set_below x k)) \<and>
      (\<exists>r :: u32. wrote (i_dst i) (ucast r) (flags r (32 \<le> unat v mod 256)) c (bzhi_gd_bd_ed_r i c) \<and>
           unat r = unat x mod 2 ^ (unat v mod 256)) \<and>
      (\<exists>r :: u32. wrote (i_dst i) (ucast r) ((logic_flags (1 :: u32))\<lparr>fl_zf := r = 0\<rparr>) c (bextr_gd_ed_bd_r i c) \<and>
           unat r = unat x div 2 ^ (unat v mod 256) mod 2 ^ (unat v div 256 mod 256))"
proof -
  let ?x = "get_gpr32 (i_src1 i) c" and ?v = "get_gpr32 (i_src2 i) c"
  have bextr: "\<exists>r :: u32. wrote (i_dst i) (ucast r) ((logic_flags (1 :: u32))\<lparr>fl_zf := r = 0\<rparr>) c (bextr_gd_ed_bd_r i c) \<and>
           unat r = unat ?x div 2 ^ (unat ?v mod 256) mod 2 ^ (unat ?v div 256 mod 256)"
    unfolding bextr_gd_ed_bd_r_def Let_def
    by (intro exI [of _ "bextrd ?x (ucast (ucast ?v AND 0xff :: u16)) (ucast (drop_bit 8 (ucast ?v :: u16)))"])
       (auto simp: wrote_def set_gpr32_eq flags_setters alu32.logic bextrd_exact low_byte logic_flags_def)
  have andn: "wrote (i_dst i) (ucast (NOT ?v AND ?x)) ((logic_flags (NOT ?v AND ?x))\<lparr>fl_pf := get_pf c, fl_cf := False\<rparr>) c (andn_gd_bd_ed_r i c)"
    using oszaxc_effect(1) [of "i_dst i" "NOT ?v AND ?x" c] by (simp add: andn_gd_bd_ed_r_def Let_def logic_flags_def)
  show ?thesis
    unfolding Let_def
    by (intro conjI andn bzhi_effect bextr; unfold blsi_bd_ed_r_def blsmsk_bd_ed_r_def blsr_bd_ed_r_def Let_def)
       (rule exI, rule conjI, rule oszaxc_effect(2), simp add: lowest_bit set_below_def)+
qed

lemma adx_carry:
  "drop_bit 31 ((a AND b) OR ((a OR b) AND NOT (a + b + of_bool k))) AND 1 \<noteq> 0
   \<longleftrightarrow> 2 ^ 32 \<le> unat a + unat b + of_bool k" for a b :: u32
  unfolding loop_step(1)
  using arg_cong [OF vec_flags_add [of a b k], of fl_cf] by (simp add: vec_flags_def add_flags_def cout_def Let_def)

lemma adx_effects:
  "wrote d (ucast v) ((flags_of (oszapc c))\<lparr>fl_cf := k\<rparr>) c (cpu_set_cf k (set_gpr32 d v c))"
  "wrote d (ucast v) ((flags_of (oszapc c))\<lparr>fl_of := k\<rparr>) c (cpu_set_of k (set_gpr32 d v c))"
  by (simp_all add: wrote_def cpu_set_cf_def cpu_set_of_def set_gpr32_eq flags_setters)

lemma count_31: "unat (v AND 0x1f) = unat v mod 32" "v AND 0x1f \<noteq> 0 \<longleftrightarrow> unat v mod 32 \<noteq> 0" for v :: u32
proof -
  have "v AND 0x1f = take_bit 5 v" by (simp add: take_bit_eq_mask mask_eq_exp_minus_1)
  then show u: "unat (v AND 0x1f) = unat v mod 32" by (simp only: unat_bits) simp
  show "v AND 0x1f \<noteq> 0 \<longleftrightarrow> unat v mod 32 \<noteq> 0" unfolding u [symmetric] by (simp only: unat_eq_0)
qed

lemma halves: "unat (ucast (drop_bit 32 w) :: u32) * 2 ^ 32 + unat (ucast w :: u32) = unat w" for w :: u64
proof -
  have "unat w div 2 ^ 32 < 2 ^ 32" using unsigned_less [of w, where 'a = nat] by (simp add: less_mult_imp_div_less)
  then show ?thesis
    by (simp only: unsigned_ucast_eq unat_bits take_bit_eq_mod) simp
qed

text \<open>
  The carry chains: ADCX adds with CF and replaces only CF, ADOX adds with OF and replaces only OF,
  each by the carry out of the exact sum; MULX leaves the exact 64-bit product in two registers and
  the shifts without flags are the exact shifts by the count modulo 32. None of the last four changes
  a flag.
\<close>

theorem carry_chains_exact:
  assumes "i_dst i < length (gen_reg c)" "i_src2 i < length (gen_reg c)" "i_dst i \<noteq> i_src2 i"
  shows "let a = get_gpr32 (i_dst i) c; x = get_gpr32 (i_src1 i) c; n = unat (get_gpr32 (i_src2 i) c) mod 32;
       p = mulx_gd_bd_ed_r i c
   in wrote (i_dst i) (ucast (a + x + of_bool (get_cf c)))
        ((flags_of (oszapc c))\<lparr>fl_cf := 2 ^ 32 \<le> unat a + unat x + of_bool (get_cf c)\<rparr>) c (adcx_gd_ed_r i c) \<and>
      wrote (i_dst i) (ucast (a + x + of_bool (get_of c)))
        ((flags_of (oszapc c))\<lparr>fl_of := 2 ^ 32 \<le> unat a + unat x + of_bool (get_of c)\<rparr>) c (adox_gd_ed_r i c) \<and>
      (unat (get_gpr32 (i_dst i) p) * 2 ^ 32 + unat (get_gpr32 (i_src2 i) p) = unat (cpu_edx c) * unat x \<and> oszapc p = oszapc c) \<and>
      (unat (get_gpr32 (i_dst i) (shrx_gd_ed_bd_r i c)) = unat x div 2 ^ n \<and> oszapc (shrx_gd_ed_bd_r i c) = oszapc c) \<and>
      (sint (get_gpr32 (i_dst i) (sarx_gd_ed_bd_r i c)) = sint x div 2 ^ n \<and> oszapc (sarx_gd_ed_bd_r i c) = oszapc c) \<and>
      (get_gpr32 (i_dst i) (shlx_gd_ed_bd_r i c) = x * 2 ^ n \<and> oszapc (shlx_gd_ed_bd_r i c) = oszapc c)"
proof -
  let ?x = "get_gpr32 (i_src1 i) c" and ?n = "unat (get_gpr32 (i_src2 i) c) mod 32"
  have cf: "(if getb_cf (oszapc c) \<noteq> 0 then 1 else 0 :: u32) = of_bool (get_cf c)"
    "(if getb_of (oszapc c) \<noteq> 0 then 1 else 0 :: u32) = of_bool (get_of c)"
    by (simp_all add: get_cf_def get_of_def)
  have "wrote (i_dst i) (ucast (get_gpr32 (i_dst i) c + ?x + of_bool (get_cf c)))
      ((flags_of (oszapc c))\<lparr>fl_cf := 2 ^ 32 \<le> unat (get_gpr32 (i_dst i) c) + unat ?x + of_bool (get_cf c)\<rparr>) c (adcx_gd_ed_r i c)"
    "wrote (i_dst i) (ucast (get_gpr32 (i_dst i) c + ?x + of_bool (get_of c)))
      ((flags_of (oszapc c))\<lparr>fl_of := 2 ^ 32 \<le> unat (get_gpr32 (i_dst i) c) + unat ?x + of_bool (get_of c)\<rparr>) c (adox_gd_ed_r i c)"
    unfolding adcx_gd_ed_r_def adox_gd_ed_r_def Let_def cf adx_carry by (rule adx_effects)+
  moreover have "unat (get_gpr32 (i_dst i) (mulx_gd_bd_ed_r i c)) * 2 ^ 32 + unat (get_gpr32 (i_src2 i) (mulx_gd_bd_ed_r i c))
      = unat (cpu_edx c) * unat ?x" "oszapc (mulx_gd_bd_ed_r i c) = oszapc c"
    using assms halves [of "ucast (cpu_edx c) * ucast ?x"] unat_product [of "cpu_edx c" ?x]
    by (simp_all add: mulx_gd_bd_ed_r_def Let_def set_gpr32_eq get_gpr32_def)
  moreover have "sint (signed_drop_bit n w) = sint w div 2 ^ n" for n and w :: u32
    by (simp add: sint_signed_drop_bit_eq drop_bit_eq_div)
  ultimately show ?thesis
    using assms(1)
    by (auto simp: Let_def shrx_gd_ed_bd_r_def sarx_gd_ed_bd_r_def shlx_gd_ed_bd_r_def count_31 set_gpr32_eq get_gpr32_def
        unat_bits push_bit_eq_mult)
qed

theorem carry_chains_exact_witness:
  "let c = blank_cpu\<lparr>gen_reg := (gen_reg blank_cpu)[0 := 0xFFFFFFFF, 1 := 2, 2 := 0x80000001]\<rparr>;
       i = \<lparr>i_dst = 0, i_src1 = 1, i_extend8bit_l = False, i_as32_l = False, i_as64_l = False,
            i_immediate = 0, i_src2 = 3, i_is_vex = True\<rparr>
   in wrote 0 1 ((flags_of (oszapc c))\<lparr>fl_cf := True\<rparr>) c (adcx_gd_ed_r i c)"
proof -
  let ?c = "blank_cpu\<lparr>gen_reg := (gen_reg blank_cpu)[0 := 0xFFFFFFFF, 1 := 2, 2 := 0x80000001]\<rparr>"
  let ?i = "\<lparr>i_dst = 0, i_src1 = 1, i_extend8bit_l = False, i_as32_l = False, i_as64_l = False,
     i_immediate = 0, i_src2 = 3, i_is_vex = True\<rparr>"
  have "i_dst ?i < length (gen_reg ?c)" "i_src2 ?i < length (gen_reg ?c)" "i_dst ?i \<noteq> i_src2 ?i"
    by (simp_all add: blank_cpu_def GEN_REGS_def)
  moreover have "\<not> get_cf ?c" "get_gpr32 0 ?c = 0xFFFFFFFF" "get_gpr32 1 ?c = 2"
    by (simp_all add: blank_cpu_def GEN_REGS_def get_cf_def getb_cf_def get_gpr32_def erx_def)
  ultimately show ?thesis using carry_chains_exact [of ?i ?c] by (simp add: Let_def)
qed

end
