(* ===== verification/Cpu_Bits.thy ===== *)
theory Cpu_Bits
  imports Cpu_Bmi
begin

text \<open>
  Bit scans and counts of \<^verbatim>\<open>cpu/bit32.rs\<close> with register operands. The counting methods of the
  standard library are list functions over the positions of the word. The theorems give the results
  and flags of the 32-bit forms, and show that the 16-bit forms, which write their result through the
  32-bit accessor, clear the upper half of the destination register.
\<close>

section \<open>Counting\<close>

definition count_ones :: "'a::len word \<Rightarrow> nat" where
  "count_ones w = length (filter (bit w) [0..<LENGTH('a)])"

definition trailing_zeros :: "'a::len word \<Rightarrow> nat" where
  "trailing_zeros w = length (takeWhile (\<lambda>n. \<not> bit w n) [0..<LENGTH('a)])"

definition leading_zeros :: "'a::len word \<Rightarrow> nat" where
  "leading_zeros w = length (takeWhile (\<lambda>n. \<not> bit w n) (rev [0..<LENGTH('a)]))"

section \<open>Handlers\<close>

definition cpu_set_zf :: "bool \<Rightarrow> cpu \<Rightarrow> cpu" where "cpu_set_zf v c = c\<lparr>oszapc := set_zf v (oszapc c)\<rparr>"

definition bsf_gd_ed_r :: "instruction \<Rightarrow> cpu \<Rightarrow> cpu" where
  "bsf_gd_ed_r i c =
     (let op2 = get_gpr32 (i_src1 i) c in
      if op2 = 0 then cpu_set_zf True c
      else (let idx = of_nat (trailing_zeros op2);
                c = update_flags_logic32 idx c;
                c = cpu_set_zf False c
            in set_gpr32 (i_dst i) idx c))"

definition bsr_gd_ed_r :: "instruction \<Rightarrow> cpu \<Rightarrow> cpu" where
  "bsr_gd_ed_r i c =
     (let op2 = get_gpr32 (i_src1 i) c in
      if op2 = 0 then cpu_set_zf True c
      else (let idx = 31 - of_nat (leading_zeros op2);
                c = update_flags_logic32 idx c;
                c = cpu_set_zf False c
            in set_gpr32 (i_dst i) idx c))"

definition popcnt_gd_ed_r :: "instruction \<Rightarrow> cpu \<Rightarrow> cpu" where
  "popcnt_gd_ed_r i c =
     (let op2 = get_gpr32 (i_src1 i) c;
          result = of_nat (count_ones op2) :: u32;
          c = c\<lparr>oszapc := set_oszapc_logic_32 1 (oszapc c)\<rparr>;
          c = if result = 0 then cpu_set_zf True c else c
      in set_gpr32 (i_dst i) result c)"

definition popcnt_gw_ew_r :: "instruction \<Rightarrow> cpu \<Rightarrow> cpu" where
  "popcnt_gw_ew_r i c =
     (let op2 = ucast (get_gpr32 (i_src1 i) c) :: u16;
          result = of_nat (count_ones op2) :: u16;
          current = get_gpr32 (i_dst i) c;
          c = set_gpr32 (i_dst i) ((current AND 0xFFFF0000) OR ucast result) c;
          c = c\<lparr>oszapc := set_oszapc_logic_32 1 (oszapc c)\<rparr>
      in if result = 0 then cpu_set_zf True c else c)"

definition lzcnt_gd_ed_r :: "instruction \<Rightarrow> cpu \<Rightarrow> cpu" where
  "lzcnt_gd_ed_r i c =
     (let op2 = get_gpr32 (i_src1 i) c;
          result = of_nat (leading_zeros op2) :: u32;
          c = cpu_set_cf (op2 = 0) c;
          c = cpu_set_zf (result = 0) c
      in set_gpr32 (i_dst i) result c)"

definition lzcnt_gw_ew_r :: "instruction \<Rightarrow> cpu \<Rightarrow> cpu" where
  "lzcnt_gw_ew_r i c =
     (let op2 = ucast (get_gpr32 (i_src1 i) c) :: u16;
          result = of_nat (leading_zeros op2) :: u16;
          current = get_gpr32 (i_dst i) c;
          c = set_gpr32 (i_dst i) ((current AND 0xFFFF0000) OR ucast result) c;
          c = cpu_set_cf (op2 = 0) c
      in cpu_set_zf (result = 0) c)"

definition tzcnt_gd_ed_r :: "instruction \<Rightarrow> cpu \<Rightarrow> cpu" where
  "tzcnt_gd_ed_r i c =
     (let op2 = get_gpr32 (i_src1 i) c;
          result = of_nat (trailing_zeros op2) :: u32;
          c = cpu_set_cf (op2 = 0) c;
          c = cpu_set_zf (result = 0) c
      in set_gpr32 (i_dst i) result c)"

definition tzcnt_gw_ew_r :: "instruction \<Rightarrow> cpu \<Rightarrow> cpu" where
  "tzcnt_gw_ew_r i c =
     (let op2 = ucast (get_gpr32 (i_src1 i) c) :: u16;
          result = of_nat (trailing_zeros op2) :: u16;
          current = get_gpr32 (i_dst i) c;
          c = set_gpr32 (i_dst i) ((current AND 0xFFFF0000) OR ucast result) c;
          c = cpu_set_cf (op2 = 0) c
      in cpu_set_zf (result = 0) c)"

section \<open>What the counts are\<close>

lemma scan:
  "j < length (takeWhile P xs) \<Longrightarrow> P (xs ! j)"
  "length (takeWhile P xs) < length xs \<Longrightarrow> \<not> P (xs ! length (takeWhile P xs))"
proof -
  show "P (xs ! j)" if "j < length (takeWhile P xs)"
    using that set_takeWhileD [of "xs ! j" P xs] nth_mem [OF that] takeWhile_nth [OF that] by simp
qed (rule nth_length_takeWhile)

lemma trailing_zeros_bits:
  fixes w :: "'a::len word"
  shows "j < trailing_zeros w \<Longrightarrow> \<not> bit w j"
    "w \<noteq> 0 \<Longrightarrow> trailing_zeros w < LENGTH('a) \<and> bit w (trailing_zeros w)"
proof -
  have l: "trailing_zeros w \<le> LENGTH('a)"
    using length_takeWhile_le [of "\<lambda>n. \<not> bit w n" "[0..<LENGTH('a)]"] by (simp add: trailing_zeros_def)
  show z: "\<not> bit w j" if "j < trailing_zeros w" for j
    using that l scan(1) [of j "\<lambda>n. \<not> bit w n" "[0..<LENGTH('a)]"] by (simp add: trailing_zeros_def)
  assume "w \<noteq> 0"
  then obtain n where n: "bit w n" by (auto simp: bit_eq_iff)
  then have "n < LENGTH('a)" "\<not> n < trailing_zeros w" using bit_imp_le_length z by blast+
  then have "trailing_zeros w < LENGTH('a)" by linarith
  then show "trailing_zeros w < LENGTH('a) \<and> bit w (trailing_zeros w)"
    using scan(2) [of "\<lambda>n. \<not> bit w n" "[0..<LENGTH('a)]"] by (simp add: trailing_zeros_def)
qed

lemma leading_zeros_bits:
  fixes w :: "'a::len word"
  assumes "w \<noteq> 0"
  shows "leading_zeros w < LENGTH('a)" "bit w (LENGTH('a) - 1 - leading_zeros w)"
    "LENGTH('a) - 1 - leading_zeros w < j \<Longrightarrow> \<not> bit w j"
proof -
  have l: "leading_zeros w \<le> LENGTH('a)"
    using length_takeWhile_le [of "\<lambda>n. \<not> bit w n" "rev [0..<LENGTH('a)]"] by (simp add: leading_zeros_def)
  have z: "\<not> bit w (LENGTH('a) - Suc k)" if "k < leading_zeros w" for k
    using that l scan(1) [of k "\<lambda>n. \<not> bit w n" "rev [0..<LENGTH('a)]"] by (simp add: leading_zeros_def rev_nth)
  from assms obtain n where n: "bit w n" by (auto simp: bit_eq_iff)
  then have "n < LENGTH('a)" "\<not> LENGTH('a) - Suc n < leading_zeros w"
    using bit_imp_le_length [OF n] z [of "LENGTH('a) - Suc n"] by auto
  then show s: "leading_zeros w < LENGTH('a)" by linarith
  then show "bit w (LENGTH('a) - 1 - leading_zeros w)"
    using scan(2) [of "\<lambda>n. \<not> bit w n" "rev [0..<LENGTH('a)]"] by (simp add: leading_zeros_def rev_nth)
  show "\<not> bit w j" if "LENGTH('a) - 1 - leading_zeros w < j"
  proof
    assume b: "bit w j"
    then have "LENGTH('a) - Suc j < leading_zeros w" using bit_imp_le_length [OF b] that s by linarith
    with b bit_imp_le_length [OF b] z [of "LENGTH('a) - Suc j"] show False by (simp add: Suc_diff_Suc)
  qed
qed

lemma count_0: "trailing_zeros (0 :: u32) = 32" "leading_zeros (0 :: u32) = 32"
proof -
  have all: "takeWhile (\<lambda>n. True) xs = xs" for xs :: "nat list" by simp
  show "trailing_zeros (0 :: u32) = 32" "leading_zeros (0 :: u32) = 32"
    by (simp_all add: trailing_zeros_def leading_zeros_def all)
qed

lemma small_of_nat:
  assumes "n \<le> 32"
  shows "(ucast (of_nat n :: u32) :: u64) = of_nat n" "(of_nat n :: u32) = 0 \<longleftrightarrow> n = 0"
proof -
  have "n < 2 ^ 32" using assms by simp
  then show "(ucast (of_nat n :: u32) :: u64) = of_nat n" by (simp add: ucast_of_nat_32)
  have "unat (of_nat n :: u32) = n" using \<open>n < 2 ^ 32\<close> by (simp add: unat_of_nat_small)
  then show "(of_nat n :: u32) = 0 \<longleftrightarrow> n = 0" using unat_eq_0 [of "of_nat n :: u32"] by simp
qed

lemma count_effects:
  assumes "n \<le> 32"
  shows "wrote d (of_nat n) ((logic_flags (of_nat n :: u32))\<lparr>fl_zf := False\<rparr>) c
      (set_gpr32 d (of_nat n) (cpu_set_zf False (update_flags_logic32 (of_nat n) c)))"
    "wrote d (of_nat n) ((flags_of (oszapc c))\<lparr>fl_cf := k, fl_zf := n = 0\<rparr>) c
      (set_gpr32 d (of_nat n) (cpu_set_zf ((of_nat n :: u32) = 0) (cpu_set_cf k c)))"
  using assms
  by (simp_all add: wrote_def small_of_nat cpu_set_zf_def cpu_set_cf_def update_flags_logic32_def set_gpr32_eq flags_setters alu32.logic)

lemma popcnt_effect:
  "wrote (i_dst i) (of_nat (length (selected (get_gpr32 (i_src1 i) c) 32)))
     ((logic_flags (1 :: u32))\<lparr>fl_zf := get_gpr32 (i_src1 i) c = 0\<rparr>) c (popcnt_gd_ed_r i c)"
proof -
  let ?x = "get_gpr32 (i_src1 i) c"
  have "count_ones ?x = length (selected ?x 32)" by (simp add: count_ones_def selected_def)
  moreover have "length (selected ?x 32) = 0 \<longleftrightarrow> ?x = 0"
  proof -
    have "?x = 0 \<longleftrightarrow> (\<forall>n<32. \<not> bit ?x n)" by (auto simp: bit_eq_iff)
    then show ?thesis unfolding length_0_conv selected_def filter_empty_conv set_upt by auto
  qed
  ultimately show ?thesis using length_selected [of ?x 32]
    by (simp add: popcnt_gd_ed_r_def Let_def wrote_def small_of_nat cpu_set_zf_def set_gpr32_eq flags_setters alu32.logic logic_flags_def)
qed

text \<open>
  BSF and BSR find the lowest and the highest set bit, and leave everything but the zero flag alone
  when there is none; TZCNT and LZCNT count the zeros below and above it, 32 for zero, and replace
  only CF and ZF; POPCNT counts the set bits and clears all flags but ZF.
\<close>

theorem bit_scans_exact:
  "let x = get_gpr32 (i_src1 i) c; d = i_dst i; fl = flags_of (oszapc c) in
   (if x = 0 then flagged (fl\<lparr>fl_zf := True\<rparr>) c (bsf_gd_ed_r i c) \<and> flagged (fl\<lparr>fl_zf := True\<rparr>) c (bsr_gd_ed_r i c) \<and>
      wrote d 32 (fl\<lparr>fl_cf := True, fl_zf := False\<rparr>) c (tzcnt_gd_ed_r i c) \<and>
      wrote d 32 (fl\<lparr>fl_cf := True, fl_zf := False\<rparr>) c (lzcnt_gd_ed_r i c)
    else (\<exists>lo hi. bit x lo \<and> \<not> set_below x lo \<and> bit x hi \<and> drop_bit (Suc hi) x = 0 \<and>
      wrote d (of_nat lo) ((logic_flags (of_nat lo :: u32))\<lparr>fl_zf := False\<rparr>) c (bsf_gd_ed_r i c) \<and>
      wrote d (of_nat hi) ((logic_flags (of_nat hi :: u32))\<lparr>fl_zf := False\<rparr>) c (bsr_gd_ed_r i c) \<and>
      wrote d (of_nat lo) (fl\<lparr>fl_cf := False, fl_zf := lo = 0\<rparr>) c (tzcnt_gd_ed_r i c) \<and>
      wrote d (of_nat (31 - hi)) (fl\<lparr>fl_cf := False, fl_zf := hi = 31\<rparr>) c (lzcnt_gd_ed_r i c))) \<and>
   wrote d (of_nat (length (selected x 32))) ((logic_flags (1 :: u32))\<lparr>fl_zf := x = 0\<rparr>) c (popcnt_gd_ed_r i c)"
proof -
  let ?x = "get_gpr32 (i_src1 i) c"
  let ?lo = "trailing_zeros ?x" and ?hi = "31 - leading_zeros ?x"
  have zero: "flagged ((flags_of (oszapc c))\<lparr>fl_zf := True\<rparr>) c (cpu_set_zf True c)"
    by (simp add: flagged_def cpu_set_zf_def flags_setters)
  show ?thesis
  proof (cases "?x = 0")
    case True
    with zero count_effects(2) [of 32 "i_dst i" True c] popcnt_effect [of i c] show ?thesis
      by (simp add: Let_def bsf_gd_ed_r_def bsr_gd_ed_r_def tzcnt_gd_ed_r_def lzcnt_gd_ed_r_def count_0)
  next
    case False
    note lo = trailing_zeros_bits(2) [OF False] and hi = leading_zeros_bits [OF False]
    have d: "(31 :: u32) - of_nat (leading_zeros ?x) = of_nat ?hi" using hi(1) by (simp add: of_nat_diff)
    have b: "bit ?x ?lo" "\<not> set_below ?x ?lo" "bit ?x ?hi" "drop_bit (Suc ?hi) ?x = 0"
      using lo hi trailing_zeros_bits(1) [of _ ?x]
      by (auto simp: set_below_def bit_eq_iff bit_drop_bit_eq)
    have e: "wrote (i_dst i) (of_nat ?lo) ((logic_flags (of_nat ?lo :: u32))\<lparr>fl_zf := False\<rparr>) c (bsf_gd_ed_r i c)"
      "wrote (i_dst i) (of_nat ?hi) ((logic_flags (of_nat ?hi :: u32))\<lparr>fl_zf := False\<rparr>) c (bsr_gd_ed_r i c)"
      "wrote (i_dst i) (of_nat ?lo) ((flags_of (oszapc c))\<lparr>fl_cf := False, fl_zf := ?lo = 0\<rparr>) c (tzcnt_gd_ed_r i c)"
      using False lo count_effects(1) [of ?lo "i_dst i" c] count_effects(1) [of ?hi "i_dst i" c]
        count_effects(2) [of ?lo "i_dst i" False c]
      by (simp_all add: bsf_gd_ed_r_def bsr_gd_ed_r_def tzcnt_gd_ed_r_def Let_def d)
    have z: "31 - ?hi = leading_zeros ?x" "?hi = 31 \<longleftrightarrow> leading_zeros ?x = 0" using hi(1) by auto
    then have f: "wrote (i_dst i) (of_nat (31 - ?hi)) ((flags_of (oszapc c))\<lparr>fl_cf := False, fl_zf := ?hi = 31\<rparr>) c (lzcnt_gd_ed_r i c)"
      using False hi(1) count_effects(2) [of "leading_zeros ?x" "i_dst i" False c]
      by (simp add: lzcnt_gd_ed_r_def Let_def)
    show ?thesis unfolding Let_def if_not_P [OF False]
      by (intro conjI exI [of _ ?lo] exI [of _ ?hi] b e f popcnt_effect)
  qed
qed

text \<open>
  C29. The 16-bit counts clear the upper half of a 64-bit register: the low word of the destination
  gets the count and the next word is kept, but bits 32 to 63 become zero, where a 16-bit write
  keeps them.
\<close>

theorem narrow_counts_clear_high:
  assumes "i_dst i < length (gen_reg c)"
  shows "let x = ucast (get_gpr32 (i_src1 i) c) :: u16; r = gen_reg c ! i_dst i;
      lost = \<lambda>n. (gen_reg c)[i_dst i := ucast (erx (set_rx (of_nat n) r))] in
    gen_reg (popcnt_gw_ew_r i c) = lost (count_ones x) \<and>
    gen_reg (lzcnt_gw_ew_r i c) = lost (leading_zeros x) \<and>
    gen_reg (tzcnt_gw_ew_r i c) = lost (trailing_zeros x)"
proof -
  have m: "(erx r AND 0xFFFF0000) OR ucast v = erx (set_rx v r)" for r and v :: u16
  proof -
    have e: "(0xFFFF0000 :: u32) = push_bit 16 (mask 16)" by (simp add: mask_eq_exp_minus_1)
    have b: "bit (0xFFFF0000 :: u32) n \<longleftrightarrow> 16 \<le> n \<and> n < 32" for n
      unfolding e bit_push_bit_iff bit_mask_iff by (auto simp: possible_bit_word)
    show ?thesis
    proof (rule bit_word_eqI)
      fix n assume "n < LENGTH(32)"
      then show "bit ((erx r AND 0xFFFF0000) OR ucast v) n = bit (erx (set_rx v r)) n"
        using bit_imp_le_length [of v n]
        unfolding bit_or_iff bit_and_iff b erx_def bit_ucast_iff bit_set_rx by auto
    qed
  qed
  show ?thesis
    unfolding popcnt_gw_ew_r_def lzcnt_gw_ew_r_def tzcnt_gw_ew_r_def Let_def set_gpr32_eq get_gpr32_def m
    by (simp add: cpu_set_zf_def cpu_set_cf_def)
qed

theorem narrow_counts_clear_high_witness:
  "let c = blank_cpu\<lparr>gen_reg := (gen_reg blank_cpu)[0 := 0x1122334455667788, 1 := 0xFF]\<rparr>;
       i = \<lparr>i_dst = 0, i_src1 = 1, i_extend8bit_l = False, i_as32_l = False, i_as64_l = False, i_immediate = 0\<rparr>
   in gen_reg (popcnt_gw_ew_r i c) ! 0 = 0x55660008 \<and> gen_reg (set_gpr16 0 8 c) ! 0 = 0x1122334455660008"
proof -
  let ?c = "blank_cpu\<lparr>gen_reg := (gen_reg blank_cpu)[0 := 0x1122334455667788, 1 := 0xFF]\<rparr>"
  let ?i = "\<lparr>i_dst = 0, i_src1 = 1, i_extend8bit_l = False, i_as32_l = False, i_as64_l = False, i_immediate = 0\<rparr>"
  have "i_dst ?i < length (gen_reg ?c)" by (simp add: blank_cpu_def GEN_REGS_def)
  moreover have "count_ones (0xFF :: u16) = 8" by (simp add: count_ones_def upt_rec)
  ultimately show ?thesis
    using narrow_counts_clear_high [of ?i ?c]
    by (simp add: Let_def blank_cpu_def GEN_REGS_def get_gpr32_def erx_def set_rx_def set_gpr16_def)
qed

end
