(* ===== verification/Cpu_Bcd.thy ===== *)
theory Cpu_Bcd
  imports Cpu_Alu
begin

text \<open>
  Decimal arithmetic: the adjustments of \<^verbatim>\<open>cpu/bcd.rs\<close> and the additions and subtractions of
  \<^verbatim>\<open>cpu/arith8.rs\<close> with the accumulator and an immediate, which come before them. The theorems are
  about the two together: an addition or subtraction of packed decimal numbers followed by its
  adjustment is the decimal operation with carry or borrow, and AAD undoes AAM.
\<close>

section \<open>Accessors\<close>

definition cpu_ah :: "cpu \<Rightarrow> u8" where "cpu_ah c = rh (gen_reg c ! 0)"

definition set_al :: "u8 \<Rightarrow> cpu \<Rightarrow> cpu" where
  "set_al v c = c\<lparr>gen_reg := (gen_reg c)[0 := set_rl v (gen_reg c ! 0)]\<rparr>"

definition set_ah :: "u8 \<Rightarrow> cpu \<Rightarrow> cpu" where
  "set_ah v c = c\<lparr>gen_reg := (gen_reg c)[0 := set_rh v (gen_reg c ! 0)]\<rparr>"

definition set_ax :: "u16 \<Rightarrow> cpu \<Rightarrow> cpu" where
  "set_ax v c = c\<lparr>gen_reg := (gen_reg c)[0 := set_rx v (gen_reg c ! 0)]\<rparr>"

definition update_flags_add8 :: "u8 \<Rightarrow> u8 \<Rightarrow> u8 \<Rightarrow> cpu \<Rightarrow> cpu" where
  "update_flags_add8 op1 op2 res c = c\<lparr>oszapc := set_oszapc_add_8 op1 op2 res (oszapc c)\<rparr>"

definition update_flags_sub8 :: "u8 \<Rightarrow> u8 \<Rightarrow> u8 \<Rightarrow> cpu \<Rightarrow> cpu" where
  "update_flags_sub8 op1 op2 res c = c\<lparr>oszapc := set_oszapc_sub_8 op1 op2 res (oszapc c)\<rparr>"

definition update_flags_logic8 :: "u8 \<Rightarrow> cpu \<Rightarrow> cpu" where
  "update_flags_logic8 res c = c\<lparr>oszapc := set_oszapc_logic_8 res (oszapc c)\<rparr>"

section \<open>Accumulator arithmetic\<close>

definition ADD_ALIb :: "instruction \<Rightarrow> cpu \<Rightarrow> cpu" where
  "ADD_ALIb i c =
     (let op1 = cpu_al c; op2 = i_ib i; sum = op1 + op2;
          c = set_al sum c
      in update_flags_add8 op1 op2 sum c)"

definition ADC_ALIb :: "instruction \<Rightarrow> cpu \<Rightarrow> cpu" where
  "ADC_ALIb i c =
     (let op1 = cpu_al c; op2 = i_ib i; cf = of_bool (get_cf c); sum = op1 + op2 + cf;
          c = set_al sum c
      in update_flags_add8 op1 op2 sum c)"

definition SUB_AL_Ib :: "instruction \<Rightarrow> cpu \<Rightarrow> cpu" where
  "SUB_AL_Ib i c =
     (let al = cpu_al c; imm8 = i_ib i; result = al - imm8;
          c = set_al result c
      in update_flags_sub8 al imm8 result c)"

definition SBB_ALIb :: "instruction \<Rightarrow> cpu \<Rightarrow> cpu" where
  "SBB_ALIb i c =
     (let op1 = cpu_al c; op2 = i_ib i; cf = of_bool (get_cf c); diff = op1 - op2 - cf;
          c = set_al diff c
      in update_flags_sub8 op1 op2 diff c)"

section \<open>Adjustments\<close>

definition AAA :: "instruction \<Rightarrow> cpu \<Rightarrow> cpu" where
  "AAA i c =
     (let tmp_cf = False; tmp_af = False;
          (tmp_cf, tmp_af, c) =
            if cpu_al c AND 0x0F > 9 \<or> get_af c
            then (True, True, set_ax (cpu_ax c + 0x106) c) else (tmp_cf, tmp_af, c);
          al = cpu_al c AND 0x0F;
          c = set_al al c;
          c = update_flags_logic8 al c;
          c = cpu_set_cf tmp_cf c
      in cpu_set_af tmp_af c)"

definition AAS :: "instruction \<Rightarrow> cpu \<Rightarrow> cpu" where
  "AAS i c =
     (let tmp_cf = False; tmp_af = False;
          (tmp_cf, tmp_af, c) =
            if cpu_al c AND 0x0F > 9 \<or> get_af c
            then (True, True, set_ax (cpu_ax c - 0x106) c) else (tmp_cf, tmp_af, c);
          al = cpu_al c AND 0x0F;
          c = set_al al c;
          c = update_flags_logic8 al c;
          c = cpu_set_cf tmp_cf c
      in cpu_set_af tmp_af c)"

definition AAM :: "instruction \<Rightarrow> cpu \<Rightarrow> outcome" where
  "AAM i c =
     (let imm8 = i_ib i in
      if imm8 = 0 then (Inl (De, 0), c)
      else (let al = cpu_al c;
                c = set_ah (al div imm8) c;
                al = al mod imm8;
                c = set_al al c
            in (Inr (), update_flags_logic8 al c)))"

definition AAD :: "instruction \<Rightarrow> cpu \<Rightarrow> cpu" where
  "AAD i c =
     (let tmp = ucast (cpu_ah c) * ucast (i_ib i) + ucast (cpu_al c) :: u16;
          c = set_ax (tmp AND 0xFF) c;
          al = cpu_al c
      in update_flags_logic8 al c)"

definition DAA :: "instruction \<Rightarrow> cpu \<Rightarrow> cpu" where
  "DAA i c =
     (let tmp_al = cpu_al c; original_cf = get_cf c; tmp_cf = False; tmp_af = False;
          (tmp_cf, tmp_af, c) =
            if tmp_al AND 0x0F > 0x09 \<or> get_af c
            then (cpu_al c > 0xF9 \<or> original_cf, True, set_al (cpu_al c + 0x06) c)
            else (tmp_cf, tmp_af, c);
          (tmp_cf, c) =
            if tmp_al > 0x99 \<or> original_cf
            then (True, set_al (cpu_al c + 0x60) c) else (tmp_cf, c);
          al = cpu_al c;
          c = update_flags_logic8 al c;
          c = cpu_set_cf tmp_cf c
      in cpu_set_af tmp_af c)"

definition DAS :: "instruction \<Rightarrow> cpu \<Rightarrow> cpu" where
  "DAS i c =
     (let tmp_al = cpu_al c; original_cf = get_cf c; tmp_cf = False; tmp_af = False;
          (tmp_cf, tmp_af, c) =
            if tmp_al AND 0x0F > 0x09 \<or> get_af c
            then (cpu_al c < 0x06 \<or> original_cf, True, set_al (cpu_al c - 0x06) c)
            else (tmp_cf, tmp_af, c);
          (tmp_cf, c) =
            if tmp_al > 0x99 \<or> original_cf
            then (True, set_al (cpu_al c - 0x60) c) else (tmp_cf, c);
          al = cpu_al c;
          c = update_flags_logic8 al c;
          c = cpu_set_cf tmp_cf c
      in cpu_set_af tmp_af c)"

section \<open>What an adjustment computes\<close>

text \<open>The accumulator and the carry after DAA and DAS, from AF, CF and the accumulator before.\<close>

definition daa_step :: "bool \<Rightarrow> bool \<Rightarrow> u8 \<Rightarrow> u8 \<times> bool" where
  "daa_step af cf al =
     (let low = al AND 0x0F > 9 \<or> af; high = al > 0x99 \<or> cf
      in (al + (if low then 6 else 0) + (if high then 0x60 else 0), low \<and> (al > 0xF9 \<or> cf) \<or> high))"

definition das_step :: "bool \<Rightarrow> bool \<Rightarrow> u8 \<Rightarrow> u8 \<times> bool" where
  "das_step af cf al =
     (let low = al AND 0x0F > 9 \<or> af; high = al > 0x99 \<or> cf
      in (al - (if low then 6 else 0) - (if high then 0x60 else 0), low \<and> (al < 6 \<or> cf) \<or> high))"

lemma set_rl_set_rl [simp]: "set_rl v (set_rl w r) = set_rl v r"
  by (rule bit_word_eqI) (simp add: bit_set_rl)

lemma set_rl_rl [simp]: "set_rl (rl r) r = r"
  by (rule bit_word_eqI) (simp add: bit_set_rl rl_def bit_simps)

lemmas bcd_writes = set_al_def set_ah_def set_ax_def cpu_al_def cpu_ah_def cpu_ax_def cpu_set_cf_def cpu_set_af_def
  update_flags_logic8_def update_flags_add8_def update_flags_sub8_def

lemma get_flags: "get_cf c = fl_cf (flags_of (oszapc c))" "get_af c = fl_af (flags_of (oszapc c))"
  by (simp_all add: get_cf_def get_af_def flags_of_def)

lemma daa_effect:
  assumes "gen_reg c \<noteq> []" "daa_step (get_af c) (get_cf c) (cpu_al c) = (al, cf)"
  shows "gen_reg (DAA i c) = (gen_reg c)[0 := set_rl al (gen_reg c ! 0)]" "get_cf (DAA i c) = cf"
  using assms
  by (auto simp: DAA_def daa_step_def Let_def bcd_writes views_of_set_rl get_flags flags_setters split: if_splits)

lemma das_effect:
  assumes "gen_reg c \<noteq> []" "das_step (get_af c) (get_cf c) (cpu_al c) = (al, cf)"
  shows "gen_reg (DAS i c) = (gen_reg c)[0 := set_rl al (gen_reg c ! 0)]" "get_cf (DAS i c) = cf"
  using assms
  by (auto simp: DAS_def das_step_def Let_def bcd_writes views_of_set_rl get_flags flags_setters split: if_splits)

text \<open>Two decimal digits in a byte.\<close>

definition bcd :: "int \<Rightarrow> u8" where "bcd n = of_int (16 * (n div 10) + n mod 10)"

lemma uint_bcd: "0 \<le> n \<Longrightarrow> n < 100 \<Longrightarrow> uint (bcd n) = 16 * (n div 10) + n mod 10"
proof -
  assume "0 \<le> n" "n < 100"
  then have "0 \<le> n div 10" "n div 10 < 10" "0 \<le> n mod 10" "n mod 10 < 10" by simp_all
  then show ?thesis unfolding bcd_def unsigned_of_int by (simp add: take_bit_int_eq_self)
qed

text \<open>
  The adjustment sees only the sum or difference of the high digits, \<open>n\<close>, and that of the low
  digits with the carry or borrow, \<open>m\<close>; the two tables list all of them.
\<close>

lemma daa_table:
  "list_all (\<lambda>n. list_all (\<lambda>m. daa_step (16 \<le> m) (256 \<le> 16 * n + m) (of_int (16 * n + m))
     = (bcd ((10 * n + m) mod 100), 100 \<le> 10 * n + m)) [0..19]) [0..18]"
  by code_simp

lemma das_table:
  "list_all (\<lambda>n. list_all (\<lambda>m. das_step (m < 0) (16 * n + m < 0) (of_int (16 * n + m))
     = (bcd ((10 * n + m) mod 100), 10 * n + m < 0)) [-10..9]) [-9..9]"
  by code_simp

lemma daa_digits:
  "0 \<le> n \<Longrightarrow> n \<le> 18 \<Longrightarrow> 0 \<le> m \<Longrightarrow> m \<le> 19 \<Longrightarrow>
   daa_step (16 \<le> m) (256 \<le> 16 * n + m) (of_int (16 * n + m)) = (bcd ((10 * n + m) mod 100), 100 \<le> 10 * n + m)"
  using daa_table by (simp only: list_all_iff set_upto) simp

lemma das_digits:
  "-9 \<le> n \<Longrightarrow> n \<le> 9 \<Longrightarrow> -10 \<le> m \<Longrightarrow> m \<le> 9 \<Longrightarrow>
   das_step (m < 0) (16 * n + m < 0) (of_int (16 * n + m)) = (bcd ((10 * n + m) mod 100), 10 * n + m < 0)"
  using das_table by (simp only: list_all_iff set_upto) simp

text \<open>The carries of the manuals, on the integers the bytes stand for.\<close>

lemma byte_carries:
  fixes a b :: u8
  shows "fl_cf (add_flags a b k) \<longleftrightarrow> 256 \<le> uint a + uint b + of_bool k"
    "fl_af (add_flags a b k) \<longleftrightarrow> 16 \<le> uint a mod 16 + uint b mod 16 + of_bool k"
    "fl_cf (sub_flags a b k) \<longleftrightarrow> uint a - uint b - of_bool k < 0"
    "fl_af (sub_flags a b k) \<longleftrightarrow> uint a mod 16 - uint b mod 16 - of_bool k < 0"
proof -
  have u: "int (unat w) = uint w" for w :: u8 by simp
  note i = of_nat_le_iff [where 'a = int, symmetric] of_nat_less_iff [where 'a = int, symmetric]
    of_nat_add of_nat_of_bool of_nat_mod of_nat_numeral u
  have le: "256 \<le> unat a + unat b + of_bool k \<longleftrightarrow> 256 \<le> uint a + uint b + of_bool k"
    "16 \<le> unat a mod 16 + unat b mod 16 + of_bool k \<longleftrightarrow> 16 \<le> uint a mod 16 + uint b mod 16 + of_bool k"
    unfolding i by (rule refl)+
  have less: "unat a < unat b + of_bool k \<longleftrightarrow> uint a < uint b + of_bool k"
    "unat a mod 16 < unat b mod 16 + of_bool k \<longleftrightarrow> uint a mod 16 < uint b mod 16 + of_bool k"
    unfolding i by (rule refl)+
  show "fl_cf (add_flags a b k) \<longleftrightarrow> 256 \<le> uint a + uint b + of_bool k"
    "fl_af (add_flags a b k) \<longleftrightarrow> 16 \<le> uint a mod 16 + uint b mod 16 + of_bool k"
    using le by (simp_all add: add_flags_def Let_def)
  show "fl_cf (sub_flags a b k) \<longleftrightarrow> uint a - uint b - of_bool k < 0"
    "fl_af (sub_flags a b k) \<longleftrightarrow> uint a mod 16 - uint b mod 16 - of_bool k < 0"
    using less by (auto simp: sub_flags_def Let_def)
qed

lemma bcd_low: "0 \<le> n \<Longrightarrow> n < 100 \<Longrightarrow> uint (bcd n) mod 16 = n mod 10"
proof -
  assume "0 \<le> n" "n < 100"
  moreover have "n mod 10 mod 16 = n mod 10" using pos_mod_bound [of 10 n] by (intro mod_pos_pos_trivial) simp_all
  ultimately show ?thesis by (simp add: uint_bcd mod_mult_self4)
qed

lemma digit_ranges: "0 \<le> x \<Longrightarrow> x < 100 \<Longrightarrow> 0 \<le> x div 10 \<and> x div 10 \<le> 9 \<and> 0 \<le> x mod 10 \<and> x mod 10 \<le> 9" for x :: int
  by presburger

lemma decimal_sum:
  assumes "0 \<le> x" "x < 100" "0 \<le> y" "y < 100"
  shows "daa_step (fl_af (add_flags (bcd x) (bcd y) k)) (fl_cf (add_flags (bcd x) (bcd y) k)) (bcd x + bcd y + of_bool k)
    = (bcd ((x + y + of_bool k) mod 100), 100 \<le> x + y + of_bool k)"
proof -
  define n m :: int where "n = x div 10 + y div 10" and "m = x mod 10 + y mod 10 + of_bool k"
  note nm = this
  have r: "0 \<le> n" "n \<le> 18" "0 \<le> m" "m \<le> 19" using digit_ranges [of x] digit_ranges [of y] assms by (auto simp: nm)
  have s: "x + y + of_bool k = 10 * n + m" unfolding nm by (cases k; presburger)
  have w: "bcd x + bcd y + of_bool k = of_int (16 * n + m)" by (simp add: nm bcd_def algebra_simps)
  have "fl_cf (add_flags (bcd x) (bcd y) k) \<longleftrightarrow> 256 \<le> 16 * n + m" "fl_af (add_flags (bcd x) (bcd y) k) \<longleftrightarrow> 16 \<le> m"
    using assms unfolding byte_carries by (simp_all add: bcd_low uint_bcd nm algebra_simps)
  with daa_digits [OF r] show ?thesis unfolding s w by simp
qed

lemma decimal_difference:
  assumes "0 \<le> x" "x < 100" "0 \<le> y" "y < 100"
  shows "das_step (fl_af (sub_flags (bcd x) (bcd y) k)) (fl_cf (sub_flags (bcd x) (bcd y) k)) (bcd x - bcd y - of_bool k)
    = (bcd ((x - y - of_bool k) mod 100), x - y - of_bool k < 0)"
proof -
  define n m :: int where "n = x div 10 - y div 10" and "m = x mod 10 - y mod 10 - of_bool k"
  note nm = this
  have r: "-9 \<le> n" "n \<le> 9" "-10 \<le> m" "m \<le> 9" using digit_ranges [of x] digit_ranges [of y] assms by (auto simp: nm)
  have s: "x - y - of_bool k = 10 * n + m" unfolding nm by (cases k; presburger)
  have w: "bcd x - bcd y - of_bool k = of_int (16 * n + m)" by (simp add: nm bcd_def algebra_simps)
  have "fl_cf (sub_flags (bcd x) (bcd y) k) \<longleftrightarrow> 16 * n + m < 0" "fl_af (sub_flags (bcd x) (bcd y) k) \<longleftrightarrow> m < 0"
    using assms unfolding byte_carries by (simp_all add: bcd_low uint_bcd nm algebra_simps)
  with das_digits [OF r] show ?thesis unfolding s w by simp
qed

lemma al_arith:
  assumes "gen_reg c \<noteq> []"
  shows "gen_reg (ADC_ALIb i c) = (gen_reg c)[0 := set_rl (cpu_al c + i_ib i + of_bool (get_cf c)) (gen_reg c ! 0)]"
    "flags_of (oszapc (ADC_ALIb i c)) = add_flags (cpu_al c) (i_ib i) (get_cf c)"
    "gen_reg (ADD_ALIb i c) = (gen_reg c)[0 := set_rl (cpu_al c + i_ib i) (gen_reg c ! 0)]"
    "flags_of (oszapc (ADD_ALIb i c)) = add_flags (cpu_al c) (i_ib i) False"
    "gen_reg (SBB_ALIb i c) = (gen_reg c)[0 := set_rl (cpu_al c - i_ib i - of_bool (get_cf c)) (gen_reg c ! 0)]"
    "flags_of (oszapc (SBB_ALIb i c)) = sub_flags (cpu_al c) (i_ib i) (get_cf c)"
    "gen_reg (SUB_AL_Ib i c) = (gen_reg c)[0 := set_rl (cpu_al c - i_ib i) (gen_reg c ! 0)]"
    "flags_of (oszapc (SUB_AL_Ib i c)) = sub_flags (cpu_al c) (i_ib i) False"
  by (simp_all add: ADC_ALIb_def ADD_ALIb_def SBB_ALIb_def SUB_AL_Ib_def Let_def bcd_writes alu8.adc alu8.sbb alu8.add alu8.sub)

text \<open>An addition that left the accumulator and the flags of \<open>x + y + k\<close>, and then DAA.\<close>

lemma daa_after:
  assumes "gen_reg c \<noteq> []" "0 \<le> x" "x < 100" "0 \<le> y" "y < 100"
    "gen_reg d = (gen_reg c)[0 := set_rl (bcd x + bcd y + of_bool k) (gen_reg c ! 0)]"
    "flags_of (oszapc d) = add_flags (bcd x) (bcd y) k"
  shows "gen_reg (DAA j d) = (gen_reg c)[0 := set_rl (bcd ((x + y + of_bool k) mod 100)) (gen_reg c ! 0)]"
    "get_cf (DAA j d) = (100 \<le> x + y + of_bool k)"
proof -
  have "daa_step (get_af d) (get_cf d) (cpu_al d) = (bcd ((x + y + of_bool k) mod 100), 100 \<le> x + y + of_bool k)"
    using decimal_sum [OF assms(2-5), of k] assms(1,6,7) by (simp add: get_flags cpu_al_def views_of_set_rl)
  from daa_effect [OF _ this, of j] assms(1,6)
  show "gen_reg (DAA j d) = (gen_reg c)[0 := set_rl (bcd ((x + y + of_bool k) mod 100)) (gen_reg c ! 0)]"
    "get_cf (DAA j d) = (100 \<le> x + y + of_bool k)" by simp_all
qed

lemma das_after:
  assumes "gen_reg c \<noteq> []" "0 \<le> x" "x < 100" "0 \<le> y" "y < 100"
    "gen_reg d = (gen_reg c)[0 := set_rl (bcd x - bcd y - of_bool k) (gen_reg c ! 0)]"
    "flags_of (oszapc d) = sub_flags (bcd x) (bcd y) k"
  shows "gen_reg (DAS j d) = (gen_reg c)[0 := set_rl (bcd ((x - y - of_bool k) mod 100)) (gen_reg c ! 0)]"
    "get_cf (DAS j d) = (x - y - of_bool k < 0)"
proof -
  have "das_step (get_af d) (get_cf d) (cpu_al d) = (bcd ((x - y - of_bool k) mod 100), x - y - of_bool k < 0)"
    using decimal_difference [OF assms(2-5), of k] assms(1,6,7) by (simp add: get_flags cpu_al_def views_of_set_rl)
  from das_effect [OF _ this, of j] assms(1,6)
  show "gen_reg (DAS j d) = (gen_reg c)[0 := set_rl (bcd ((x - y - of_bool k) mod 100)) (gen_reg c ! 0)]"
    "get_cf (DAS j d) = (x - y - of_bool k < 0)" by simp_all
qed

text \<open>
  C27. Addition and subtraction of packed decimal numbers: with two decimal digits in the accumulator
  and in the immediate, ADC or ADD and then DAA leave the two digits of the sum and set carry exactly
  when the sum has a third digit; SBB or SUB and then DAS leave the digits of the difference modulo
  100 and set carry exactly when it is negative. No other part of any register changes.
\<close>

theorem decimal_arithmetic_exact:
  assumes "gen_reg c \<noteq> []" "0 \<le> x" "x < 100" "0 \<le> y" "y < 100" "cpu_al c = bcd x" "i_ib i = bcd y"
  shows "let k = of_bool (get_cf c); digits = \<lambda>n. (gen_reg c)[0 := set_rl (bcd (n mod 100)) (gen_reg c ! 0)] in
    (gen_reg (DAA j (ADC_ALIb i c)) = digits (x + y + k) \<and> get_cf (DAA j (ADC_ALIb i c)) = (100 \<le> x + y + k)) \<and>
    (gen_reg (DAA j (ADD_ALIb i c)) = digits (x + y) \<and> get_cf (DAA j (ADD_ALIb i c)) = (100 \<le> x + y)) \<and>
    (gen_reg (DAS j (SBB_ALIb i c)) = digits (x - y - k) \<and> get_cf (DAS j (SBB_ALIb i c)) = (x - y - k < 0)) \<and>
    (gen_reg (DAS j (SUB_AL_Ib i c)) = digits (x - y) \<and> get_cf (DAS j (SUB_AL_Ib i c)) = (x - y < 0))"
proof -
  note a = al_arith [OF assms(1), of i, unfolded assms(6,7)]
  note add = daa_after [OF assms(1-5)] and sub = das_after [OF assms(1-5)]
  show ?thesis
    using add [of "ADC_ALIb i c" "get_cf c" j] add [of "ADD_ALIb i c" False j]
      sub [of "SBB_ALIb i c" "get_cf c" j] sub [of "SUB_AL_Ib i c" False j]
    by (simp add: Let_def a)
qed

theorem decimal_arithmetic_exact_witness:
  "let c = blank_cpu\<lparr>gen_reg := (gen_reg blank_cpu)[0 := 0x1247]\<rparr>;
       i = \<lparr>i_dst = 0, i_src1 = 0, i_extend8bit_l = False, i_as32_l = False, i_as64_l = False, i_immediate = 0x85\<rparr>
   in gen_reg (DAA i (ADD_ALIb i c)) ! 0 = 0x1232 \<and> get_cf (DAA i (ADD_ALIb i c)) \<and>
      gen_reg (DAS i (SUB_AL_Ib i c)) ! 0 = 0x1262 \<and> get_cf (DAS i (SUB_AL_Ib i c))"
proof -
  let ?c = "blank_cpu\<lparr>gen_reg := (gen_reg blank_cpu)[0 := 0x1247]\<rparr>"
  let ?i = "\<lparr>i_dst = 0, i_src1 = 0, i_extend8bit_l = False, i_as32_l = False, i_as64_l = False, i_immediate = 0x85\<rparr>"
  have "gen_reg ?c \<noteq> []" "cpu_al ?c = bcd 47" "i_ib ?i = bcd 85"
    by (simp_all add: blank_cpu_def GEN_REGS_def cpu_al_def rl_def bcd_def i_ib_def)
  from decimal_arithmetic_exact [OF this(1) _ _ _ _ this(2,3), of ?i] show ?thesis
    by (simp add: Let_def blank_cpu_def GEN_REGS_def bcd_def set_rl_def)
qed

text \<open>
  AAM with a zero immediate raises the divide error and changes nothing. Otherwise it splits the
  accumulator into quotient and remainder by the immediate, the remainder below it, and AAD with the
  same immediate puts the accumulator back, with AH clear.
\<close>

theorem aad_undoes_aam:
  assumes "gen_reg c \<noteq> []"
  shows "AAM i c = (if i_ib i = 0 then (Inl (De, 0), c) else (Inr (), snd (AAM i c))) \<and>
    (i_ib i \<noteq> 0 \<longrightarrow>
      (let c' = snd (AAM i c) in
         unat (cpu_al c) = unat (cpu_ah c') * unat (i_ib i) + unat (cpu_al c') \<and> cpu_al c' < i_ib i \<and>
         gen_reg (AAD i c') = (gen_reg c)[0 := set_rh 0 (gen_reg c ! 0)]))"
proof (cases "i_ib i = 0")
  case False
  let ?a = "cpu_al c" and ?b = "i_ib i" and ?r = "gen_reg c ! 0"
  let ?c = "snd (AAM i c)"
  have c: "gen_reg ?c = (gen_reg c)[0 := set_rl (?a mod ?b) (set_rh (?a div ?b) ?r)]"
    using False assms by (simp add: AAM_def Let_def bcd_writes)
  have d: "cpu_al ?c = ?a mod ?b" "cpu_ah ?c = ?a div ?b"
    using assms by (simp_all add: c cpu_al_def cpu_ah_def views_of_set_rl views_of_set_rh)
  have u: "unat ?a = unat (?a div ?b) * unat ?b + unat (?a mod ?b)" by (simp add: unat_div unat_mod)
  have "unat (ucast (?a div ?b) * ucast ?b + ucast (?a mod ?b) :: u16) = unat ?a"
    using u unsigned_less [of ?a, where 'a = nat]
    by (simp add: unat_word_ariths unat_ucast_up mod_simps)
  then have "ucast (?a div ?b) * ucast ?b + ucast (?a mod ?b) = (ucast ?a :: u16)"
    by (intro word_unat_eq_iff [THEN iffD2]) (simp add: unat_ucast_up)
  moreover have "set_rx (ucast (rl ?r) AND 0xFF) (set_rl v (set_rh w ?r)) = set_rh 0 ?r" for v w
    by (rule bit_word_eqI) (auto simp: bit_set_rx bit_set_rl bit_set_rh rl_def view_bits dest: bit_imp_le_length)
  ultimately have "gen_reg (AAD i ?c) = (gen_reg c)[0 := set_rh 0 ?r]"
    using assms by (simp add: AAD_def Let_def bcd_writes c views_of_set_rl views_of_set_rh)
  moreover have "?a mod ?b < ?b" using False by (simp add: word_mod_less_divisor word_neq_0_conv)
  ultimately show ?thesis using False u d by (simp add: Let_def AAM_def)
qed (simp add: AAM_def)

theorem aad_undoes_aam_witness:
  "let c = blank_cpu\<lparr>gen_reg := (gen_reg blank_cpu)[0 := 0x7762]\<rparr>;
       i = \<lparr>i_dst = 0, i_src1 = 0, i_extend8bit_l = False, i_as32_l = False, i_as64_l = False, i_immediate = 10\<rparr>
   in gen_reg (AAD i (snd (AAM i c))) ! 0 = 0x0062"
proof -
  let ?c = "blank_cpu\<lparr>gen_reg := (gen_reg blank_cpu)[0 := 0x7762]\<rparr>"
  let ?i = "\<lparr>i_dst = 0, i_src1 = 0, i_extend8bit_l = False, i_as32_l = False, i_as64_l = False, i_immediate = 10\<rparr>"
  have "gen_reg ?c \<noteq> []" by (simp add: blank_cpu_def GEN_REGS_def)
  from aad_undoes_aam [OF this, of ?i] show ?thesis
    by (simp add: Let_def i_ib_def blank_cpu_def GEN_REGS_def set_rh_def)
qed

end
