(* ===== verification/Gf2_Poly.thy ===== *)
theory Gf2_Poly
  imports Prelude
begin

text \<open>
  Polynomials over the field of two elements, as natural numbers whose bit \<open>i\<close> is the
  coefficient of \<open>x\<^sup>i\<close>. Addition is \<open>XOR\<close> and \<open>clmul\<close> is the product, so the arithmetic of the
  checksums (\<^verbatim>\<open>crc.rs\<close>, \<^verbatim>\<open>cpu/crc32.rs\<close>, \<^verbatim>\<open>cpu/bit32.rs\<close>), of the AES and GFNI instructions and of
  the carry-less multiplication can be stated as algebra. The locale \<open>modulus\<close> is arithmetic
  modulo one polynomial: remainders exist once, and one step of long division keeps them. Each of
  the sources' loops is such a sequence of steps; their theories interpret the locale at the
  polynomial of the source.
\<close>

section \<open>Addition and multiplication\<close>

fun clmul :: "nat \<Rightarrow> nat \<Rightarrow> nat" where
  "clmul a b = (if b = 0 then 0 else (if odd b then a else 0) XOR 2 * clmul a (b div 2))"

declare clmul.simps [simp del]

lemma clmul_rec: "clmul a b = (if odd b then a else 0) XOR 2 * clmul a (b div 2)"
  by (cases "b = 0") (simp_all add: clmul.simps [of a b] clmul.simps [of a 0])

lemma clmul_0_right [simp]: "clmul a 0 = 0"
  by (simp add: clmul.simps)

lemma double_xor: "2 * (a XOR b) = 2 * a XOR 2 * b" for a b :: nat
  using push_bit_xor [of 1 a b] by (simp add: push_bit_eq_mult mult.commute)

lemma half_xor: "(a XOR b) div 2 = a div 2 XOR b div 2" for a b :: nat
  using drop_bit_xor [of 1 a b] by (simp add: drop_bit_eq_div)

lemma odd_xor: "odd (a XOR b) \<longleftrightarrow> odd a \<noteq> odd b" for a b :: nat
  by (simp add: even_xor_iff)

lemma xor_self_left [simp]: "a XOR (a XOR b) = b" for a b :: nat
  by (simp add: xor.assoc [symmetric])

lemma xor_eq_0_iff [simp]: "a XOR b = 0 \<longleftrightarrow> a = b" for a b :: nat
  by (metis xor_self_eq xor_self_left xor.right_neutral)

lemma bit_induct [case_names zero step]:
  fixes n :: nat
  assumes "P 0" "\<And>n. 0 < n \<Longrightarrow> P (n div 2) \<Longrightarrow> P n"
  shows "P n"
proof (induction n rule: less_induct)
  case (less n)
  then show ?case using assms by (cases "n = 0") auto
qed

lemma clmul_0_left [simp]: "clmul 0 b = 0"
proof (induction b rule: bit_induct)
  case (step n)
  then show ?case by (simp add: clmul_rec [of 0 n])
qed simp

lemma clmul_1_right [simp]: "clmul a (Suc 0) = a"
  by (simp add: clmul_rec [of a "Suc 0"])

lemma split_low: "n = (if odd n then Suc 0 else 0) XOR 2 * (n div 2)" for n :: nat
proof -
  have "bit ((if p then Suc 0 else 0) XOR 2 * h) k = (if k = 0 then p else bit h (k - 1))" for p h k
    by (cases k) (auto simp: bit_xor_iff bit_double_iff bit_Suc_0_iff)
  note b = this [of "odd n" "n div 2"]
  show ?thesis by (rule bit_eqI) (simp only: b bit_rec [of n])
qed

lemma clmul_1_left [simp]: "clmul (Suc 0) b = b"
proof (induction b rule: bit_induct)
  case (step n)
  then show ?case by (subst clmul_rec) (simp only: split_low [symmetric])
qed simp

lemma clmul_double_right [simp]: "clmul a (2 * b) = 2 * clmul a b"
  by (simp add: clmul_rec [of a "2 * b"])

lemma clmul_double_left [simp]: "clmul (2 * a) b = 2 * clmul a b"
proof (induction b rule: bit_induct)
  case (step n)
  then show ?case by (simp add: clmul_rec [of _ n] double_xor)
qed simp

lemma clmul_xor_left: "clmul (a XOR b) c = clmul a c XOR clmul b c"
proof (induction c rule: bit_induct)
  case (step n)
  then show ?case by (simp add: clmul_rec [of _ n] double_xor xor.assoc xor.left_commute)
qed simp

lemma clmul_xor_right: "clmul a (b XOR c) = clmul a b XOR clmul a c"
proof (induction "b + c" arbitrary: b c rule: less_induct)
  case less
  show ?case
  proof (cases "b + c = 0")
    case False
    then have "b div 2 + c div 2 < b + c" by auto
    from less [OF this] show ?thesis
      by (simp add: clmul_rec [of a b] clmul_rec [of a c] clmul_rec [of a "b XOR c"] half_xor
          odd_xor double_xor xor.assoc xor.left_commute)
  qed simp
qed

lemma clmul_commute: "clmul a b = clmul b a"
proof (induction b rule: bit_induct)
  case (step n)
  have "clmul n a = clmul ((if odd n then Suc 0 else 0) XOR 2 * (n div 2)) a"
    using split_low [of n] by simp
  also have "\<dots> = (if odd n then a else 0) XOR 2 * clmul (n div 2) a"
    by (simp add: clmul_xor_left)
  finally show ?case using step by (simp add: clmul_rec [of a n])
qed simp

lemma clmul_assoc: "clmul (clmul a b) c = clmul a (clmul b c)"
proof (induction c rule: bit_induct)
  case (step n)
  then show ?case by (simp add: clmul_rec [of _ n] clmul_xor_right)
qed simp

lemma clmul_left_commute: "clmul b (clmul a c) = clmul a (clmul b c)"
  by (metis clmul_assoc clmul_commute)

lemmas clmul_ac = clmul_assoc clmul_commute clmul_left_commute

lemma clmul_power [simp]: "clmul a (2 ^ n) = 2 ^ n * a" "clmul (2 ^ n) a = 2 ^ n * a"
proof -
  show "clmul a (2 ^ n) = 2 ^ n * a" by (induction n) simp_all
  then show "clmul (2 ^ n) a = 2 ^ n * a" by (simp add: clmul_commute)
qed

lemma power_xor: "2 ^ n * (a XOR b) = 2 ^ n * a XOR 2 ^ n * b" for a b :: nat
  using clmul_xor_right [of "2 ^ n" a b] by simp

section \<open>Degrees\<close>

lemma xor_less_power: "a < 2 ^ n \<Longrightarrow> b < 2 ^ n \<Longrightarrow> a XOR b < 2 ^ n" for a b :: nat
  by (metis take_bit_nat_eq_self_iff take_bit_xor)

lemma clmul_less: "a < 2 ^ Suc m \<Longrightarrow> b < 2 ^ n \<Longrightarrow> clmul a b < 2 ^ (m + n)"
proof (induction n arbitrary: b)
  case (Suc n)
  from Suc.prems(2) have "b div 2 < 2 ^ n" by simp
  with Suc have c: "2 * clmul a (b div 2) < 2 ^ (m + Suc n)" by simp
  have "a < 2 ^ (m + Suc n)"
    using Suc.prems(1) by (rule less_le_trans) (rule power_increasing, simp_all)
  then show ?case using xor_less_power [OF _ c] c by (subst clmul_rec) simp
qed simp

text \<open>The leading coefficient of a product is the product of the leading coefficients.\<close>

lemma bit_top: "2 ^ n \<le> a \<Longrightarrow> a < 2 ^ Suc n \<Longrightarrow> bit a n" for a :: nat
proof -
  assume "2 ^ n \<le> a" "a < 2 ^ Suc n"
  then have "a div 2 ^ n = 1" by (intro div_nat_eqI) simp_all
  then show ?thesis by (simp add: bit_iff_odd)
qed

lemma bit_clmul_top:
  assumes "2 ^ m \<le> a" "a < 2 ^ Suc m" "2 ^ n \<le> b" "b < 2 ^ Suc n"
  shows "bit (clmul a b) (m + n)"
  using assms(3,4)
proof (induction n arbitrary: b)
  case 0
  then have "b = 1" by simp
  then show ?case using bit_top assms(1,2) by simp
next
  case (Suc n)
  then have "2 ^ n \<le> b div 2" "b div 2 < 2 ^ Suc n" by auto
  with Suc.IH have "bit (clmul a (b div 2)) (m + n)" by blast
  moreover have "\<not> bit a (m + Suc n)"
    using less_le_trans [OF assms(2), of "2 ^ (m + Suc n)"] by (simp add: bit_iff_odd power_increasing del: power_Suc)
  ultimately show ?case by (subst clmul_rec) (simp add: bit_xor_iff bit_double_iff)
qed

lemma degree_exists: "0 < a \<Longrightarrow> \<exists>n. 2 ^ n \<le> a \<and> a < 2 ^ Suc n" for a :: nat
  using ex_power_ivl1 [of 2 a] by auto

lemma join_xor: "l < 2 ^ n \<Longrightarrow> 2 ^ n * h + l = 2 ^ n * h XOR l" for h l :: nat
proof -
  assume "l < 2 ^ n"
  then have l: "take_bit n l = l" by (simp add: take_bit_nat_eq_self)
  have "push_bit n h AND take_bit n l = 0"
    by (rule bit_eqI) (auto simp: bit_simps)
  then show ?thesis
    unfolding l push_bit_eq_mult by (simp add: disjunctive_add_eq_xor mult.commute)
qed

lemma xor_cancel_left: "x = h XOR u \<Longrightarrow> x XOR (h XOR q) = u XOR q" for h q u x :: nat
  by (metis xor.assoc xor.commute xor_self_left)

section \<open>Remainders\<close>

text \<open>
  \<open>rem2 d p a\<close> is the remainder of \<open>a\<close> by a polynomial \<open>p\<close> of degree \<open>d\<close>, by long division from
  the leading coefficient down.
\<close>

definition reduce :: "nat \<Rightarrow> nat \<Rightarrow> nat \<Rightarrow> nat" where
  "reduce d p r = (if bit r d then r XOR p else r)"

fun rem2 :: "nat \<Rightarrow> nat \<Rightarrow> nat \<Rightarrow> nat" where
  "rem2 d p a = (if a = 0 then 0 else reduce d p (2 * rem2 d p (a div 2) XOR a mod 2))"

declare rem2.simps [simp del]

lemma rem2_0 [simp]: "rem2 d p 0 = 0"
  by (simp add: rem2.simps)

definition cong2 :: "nat \<Rightarrow> nat \<Rightarrow> nat \<Rightarrow> bool" where
  "cong2 p a b \<longleftrightarrow> (\<exists>q. a XOR b = clmul q p)"

lemma cong2_refl [simp]: "cong2 p a a"
  by (auto simp: cong2_def intro: exI [of _ 0])

lemma cong2_sym: "cong2 p a b \<Longrightarrow> cong2 p b a"
  by (simp add: cong2_def xor.commute)

lemma cong2_xor: "cong2 p a b \<Longrightarrow> cong2 p c e \<Longrightarrow> cong2 p (a XOR c) (b XOR e)"
  unfolding cong2_def by (metis clmul_xor_left xor.assoc xor.left_commute)

lemma cong2_trans: "cong2 p a b \<Longrightarrow> cong2 p b c \<Longrightarrow> cong2 p a c"
  unfolding cong2_def by (metis clmul_xor_left xor.assoc xor_self_left)

lemma cong2_clmul: "cong2 p a b \<Longrightarrow> cong2 p (clmul c a) (clmul c b)"
  unfolding cong2_def by (metis clmul_assoc clmul_xor_right)

lemma cong2_double: "cong2 p a b \<Longrightarrow> cong2 p (2 * a) (2 * b)"
  using cong2_clmul [of p a b 2] clmul_power(2) [of 1] by simp

locale modulus =
  fixes d p :: nat
  assumes degree: "2 ^ d \<le> p" "p < 2 ^ Suc d"
begin

lemma reduce_less: "r < 2 ^ Suc d \<Longrightarrow> reduce d p r < 2 ^ d"
proof -
  assume r: "r < 2 ^ Suc d"
  have *: "x < 2 ^ Suc d \<Longrightarrow> \<not> bit x d \<Longrightarrow> x < 2 ^ d" for x :: nat
    using bit_top [of d x] by (meson not_le)
  show ?thesis
    using r degree bit_top [OF degree]
    by (auto simp: reduce_def bit_xor_iff intro!: * intro: xor_less_power simp del: power_Suc)
qed

lemma reduce_cong: "cong2 p r (reduce d p r)"
  by (auto simp: reduce_def cong2_def intro: exI [of _ 1] exI [of _ 0])

lemma residues_distinct:
  assumes "r < 2 ^ d" "s < 2 ^ d" "cong2 p r s"
  shows "r = s"
proof (rule ccontr)
  assume "r \<noteq> s"
  obtain q where q: "r XOR s = clmul q p" using assms(3) by (auto simp: cong2_def)
  have "0 < q" using q \<open>r \<noteq> s\<close> by (cases "q = 0") simp_all
  then obtain n where "2 ^ n \<le> q" "q < 2 ^ Suc n" using degree_exists by blast
  then have "bit (r XOR s) (n + d)" unfolding q using bit_clmul_top degree by blast
  moreover have "r XOR s < 2 ^ (n + d)"
    using xor_less_power [OF assms(1,2)] by (rule less_le_trans) (simp add: power_increasing)
  ultimately show False by (simp add: bit_iff_odd)
qed

lemma rem2_step:
  assumes "rem2 d p a < 2 ^ d" "cong2 p a (rem2 d p a)" "c < 2 ^ Suc d"
  shows "reduce d p (2 * rem2 d p a XOR c) < 2 ^ d"
    "cong2 p (2 * a XOR c) (reduce d p (2 * rem2 d p a XOR c))"
proof -
  have "2 * rem2 d p a XOR c < 2 ^ Suc d" using assms(1,3) by (intro xor_less_power) simp_all
  then show "reduce d p (2 * rem2 d p a XOR c) < 2 ^ d" by (rule reduce_less)
  show "cong2 p (2 * a XOR c) (reduce d p (2 * rem2 d p a XOR c))"
    using assms(2) by (blast intro: cong2_trans cong2_xor cong2_double cong2_refl reduce_cong)
qed

lemma rem2_residue: "rem2 d p a < 2 ^ d \<and> cong2 p a (rem2 d p a)"
proof (induction a rule: bit_induct)
  case (step n)
  have "n mod 2 < 2 ^ Suc d" by (rule less_le_trans [of _ 2]) simp_all
  moreover have "2 * (n div 2) XOR n mod 2 = n"
    using split_low [of n] by (simp add: xor.commute mod2_eq_if split: if_splits)
  ultimately show ?case
    using rem2_step [of "n div 2" "n mod 2"] step by (simp add: rem2.simps [of _ _ n])
qed (simp add: rem2.simps)

lemma rem2_less: "rem2 d p a < 2 ^ d" and rem2_cong: "cong2 p a (rem2 d p a)"
  by (simp_all add: rem2_residue)

lemma rem2_eqI: "r < 2 ^ d \<Longrightarrow> cong2 p a r \<Longrightarrow> rem2 d p a = r"
  by (blast intro: residues_distinct rem2_less rem2_cong cong2_trans cong2_sym)

lemma rem2_eq_iff: "rem2 d p a = rem2 d p b \<longleftrightarrow> cong2 p a b"
  by (metis rem2_eqI rem2_less rem2_cong cong2_trans cong2_sym)

lemma rem2_small: "a < 2 ^ d \<Longrightarrow> rem2 d p a = a"
  by (rule rem2_eqI) simp_all

lemma rem2_rem2: "rem2 d p (rem2 d p a) = rem2 d p a"
  by (simp add: rem2_small rem2_less)

lemma rem2_xor: "rem2 d p (a XOR b) = rem2 d p a XOR rem2 d p b"
  by (intro rem2_eqI xor_less_power cong2_xor rem2_less rem2_cong)

lemma rem2_shift: "c < 2 ^ Suc d \<Longrightarrow> rem2 d p (2 * a XOR c) = reduce d p (2 * rem2 d p a XOR c)"
  using rem2_step [OF rem2_less rem2_cong] by (blast intro: rem2_eqI)

lemma rem2_double: "rem2 d p (2 * a) = reduce d p (2 * rem2 d p a)"
  using rem2_shift [of 0 a] by simp

lemma rem2_clmul_left: "rem2 d p (clmul (rem2 d p a) b) = rem2 d p (clmul a b)"
  unfolding rem2_eq_iff using cong2_clmul [OF cong2_sym [OF rem2_cong], of b] by (simp add: clmul_commute)

lemma rem2_clmul_right: "rem2 d p (clmul b (rem2 d p a)) = rem2 d p (clmul b a)"
  using rem2_clmul_left [of a b] by (simp add: clmul_commute)

lemma rem2_power: "rem2 d p (2 ^ n * rem2 d p a) = rem2 d p (2 ^ n * a)"
  using rem2_clmul_left [of a "2 ^ n"] by simp

end

text \<open>One step of a register that shifts left: the reduction of the doubled state.\<close>

lemma shift_step:
  fixes c q :: "'a::len word"
  assumes n: "LENGTH('a) = Suc n"
  shows "unat (if bit c n then push_bit 1 c XOR q else push_bit 1 c)
         = reduce (Suc n) (2 ^ Suc n + unat q) (2 * unat c)"
proof -
  have b: "bit (unat c) n = bit c n" "bit (2 * unat c) (Suc n) = bit c n"
    by (simp_all add: bit_double_iff bit_unsigned_iff)
  have "2 * unat c = 2 ^ Suc n * of_bool (bit c n) + 2 * (unat c mod 2 ^ n)"
    using take_bit_Suc_from_most [of n "unat c"] unat_bound [of c] b by (simp add: take_bit_eq_mod n)
  also have "\<dots> = 2 ^ Suc n * of_bool (bit c n) XOR 2 * (unat c mod 2 ^ n)"
    by (rule join_xor) simp
  also have "2 * (unat c mod 2 ^ n) = unat (push_bit 1 c)" using unat_push_bit [of 1 c] by (simp add: n)
  finally have top: "2 * unat c = 2 ^ Suc n * of_bool (bit c n) XOR unat (push_bit 1 c)" .
  have m: "2 ^ Suc n + unat q = 2 ^ Suc n XOR unat q"
    using join_xor [of "unat q" "Suc n" 1] unat_bound [of q] by (simp add: n)
  have "2 * unat c XOR (2 ^ Suc n + unat q) = unat (push_bit 1 c) XOR unat q" if "bit c n"
    unfolding m using top that by (intro xor_cancel_left) simp
  moreover have "2 * unat c = unat (push_bit 1 c)" if "\<not> bit c n"
    using top that by simp
  ultimately show ?thesis unfolding reduce_def b by (simp add: unat_xor)
qed

end
