(* ===== verification/Crc.thy ===== *)
theory Crc
  imports Gf2_Poly Cpu_Regs
begin

text \<open>
  The checksums: the table-driven CRC-32 of \<^verbatim>\<open>crc.rs\<close> (most significant bit first), and the two
  implementations of CRC-32C behind the CRC32 instruction, the reflected table of \<^verbatim>\<open>cpu/bit32.rs\<close>
  for 8, 16 and 32-bit operands and the long division of \<^verbatim>\<open>cpu/crc32.rs\<close> for the 64-bit operand.
  The lemmas show that all of them compute remainders of polynomials over two elements.
\<close>

section \<open>CRC-32, most significant bit first\<close>

definition CRC32_POLY :: u32 where "CRC32_POLY = 0x04c11db7"

fun crc_bits :: "nat \<Rightarrow> u32 \<Rightarrow> u32" where
  "crc_bits 0 c = c"
| "crc_bits (Suc j) c =
     crc_bits j (if c AND 0x80000000 \<noteq> 0 then push_bit 1 c XOR CRC32_POLY else push_bit 1 c)"

definition build_crc32_table :: "u32 list" where
  "build_crc32_table = map (\<lambda>i. crc_bits 8 (push_bit 24 (of_nat i))) [0..<256]"

definition CRC32_TABLE :: "u32 list" where "CRC32_TABLE = build_crc32_table"

fun crc32_loop :: "bytes \<Rightarrow> u32 \<Rightarrow> u32" where
  "crc32_loop [] crc = crc"
| "crc32_loop (byte # buf) crc =
     (let idx = unat ((ucast (drop_bit 24 crc) :: u8) XOR byte)
      in crc32_loop buf (push_bit 8 crc XOR CRC32_TABLE ! idx))"

definition crc32 :: "bytes \<Rightarrow> u32" where
  "crc32 buf = NOT (crc32_loop buf 0xFFFFFFFF)"

section \<open>CRC-32C, the reflected table\<close>

fun crc32c_bits :: "nat \<Rightarrow> u32 \<Rightarrow> u32" where
  "crc32c_bits 0 crc = crc"
| "crc32c_bits (Suc j) crc =
     crc32c_bits j (if crc AND 1 \<noteq> 0 then drop_bit 1 crc XOR 0x82F63B78 else drop_bit 1 crc)"

definition crc32c_table :: "u32 list" where
  "crc32c_table = map (\<lambda>i. crc32c_bits 8 (of_nat i)) [0..<256]"

definition crc32c_byte :: "u32 \<Rightarrow> u8 \<Rightarrow> u32" where
  "crc32c_byte crc b = crc32c_table ! unat ((crc XOR ucast b) AND 0xFF) XOR drop_bit 8 crc"

definition crc32c_word :: "u32 \<Rightarrow> u16 \<Rightarrow> u32" where
  "crc32c_word crc w = (let c = crc32c_byte crc (ucast w) in crc32c_byte c (ucast (drop_bit 8 w)))"

definition crc32c_dword :: "u32 \<Rightarrow> u32 \<Rightarrow> u32" where
  "crc32c_dword crc w =
     (let c = crc32c_byte crc (ucast w);
          c = crc32c_byte c (ucast (drop_bit 8 w));
          c = crc32c_byte c (ucast (drop_bit 16 w))
      in crc32c_byte c (ucast (drop_bit 24 w)))"

definition crc32_gd_eb_r :: "instruction \<Rightarrow> cpu \<Rightarrow> cpu" where
  "crc32_gd_eb_r i c =
     (let op2 = read_8bit_regx (i_src1 i) (i_extend8bit_l i) c; crc = get_gpr32 (i_dst i) c
      in set_gpr32 (i_dst i) (crc32c_byte crc op2) c)"

definition crc32_gd_ew_r :: "instruction \<Rightarrow> cpu \<Rightarrow> cpu" where
  "crc32_gd_ew_r i c =
     (let op2 = ucast (get_gpr32 (i_src1 i) c) :: u16; crc = get_gpr32 (i_dst i) c
      in set_gpr32 (i_dst i) (crc32c_word crc op2) c)"

definition crc32_gd_ed_r :: "instruction \<Rightarrow> cpu \<Rightarrow> cpu" where
  "crc32_gd_ed_r i c =
     (let op2 = get_gpr32 (i_src1 i) c; crc = get_gpr32 (i_dst i) c
      in set_gpr32 (i_dst i) (crc32c_dword crc op2) c)"

section \<open>CRC-32C, by long division\<close>

definition CRC32_POLYNOMIAL :: u64 where "CRC32_POLYNOMIAL = 0x11edc6f41"

definition bit_reflect8 :: "u8 \<Rightarrow> u8" where
  "bit_reflect8 val8 =
     drop_bit 7 (val8 AND 0x80) OR drop_bit 5 (val8 AND 0x40) OR drop_bit 3 (val8 AND 0x20)
     OR drop_bit 1 (val8 AND 0x10) OR push_bit 1 (val8 AND 0x08) OR push_bit 3 (val8 AND 0x04)
     OR push_bit 5 (val8 AND 0x02) OR push_bit 7 (val8 AND 0x01)"

definition bit_reflect16 :: "u16 \<Rightarrow> u16" where
  "bit_reflect16 val16 =
     push_bit 8 (ucast (bit_reflect8 (ucast val16))) OR ucast (bit_reflect8 (ucast (drop_bit 8 val16)))"

definition bit_reflect32 :: "u32 \<Rightarrow> u32" where
  "bit_reflect32 val32 =
     push_bit 16 (ucast (bit_reflect16 (ucast val32))) OR ucast (bit_reflect16 (ucast (drop_bit 16 val32)))"

fun mod2_loop :: "nat \<Rightarrow> u64 \<Rightarrow> u64 \<Rightarrow> u64 \<Rightarrow> u64" where
  "mod2_loop 0 divisor dividend remainder = remainder"
| "mod2_loop (Suc bitpos) divisor dividend remainder =
     (let remainder = push_bit 1 remainder OR (drop_bit bitpos dividend AND 1)
      in mod2_loop bitpos divisor dividend
           (if drop_bit 32 remainder AND 1 = 1 then remainder XOR divisor else remainder))"

definition mod2_64bit :: "u64 \<Rightarrow> u64 \<Rightarrow> u32" where
  "mod2_64bit divisor dividend = ucast (mod2_loop 32 divisor dividend (drop_bit 32 dividend))"

definition crc32_gd_eq_r :: "instruction \<Rightarrow> cpu \<Rightarrow> cpu" where
  "crc32_gd_eq_r i c =
     (let op1 = get_gpr64 (i_src1 i) c;
          op2 = get_gpr32 (i_dst i) c;
          op2 = bit_reflect32 op2;
          tmp1 = push_bit 32 (ucast (bit_reflect32 (ucast op1))) :: u64;
          tmp2 = push_bit 32 (ucast op2);
          tmp3 = tmp1 XOR tmp2;
          op2 = mod2_64bit CRC32_POLYNOMIAL tmp3;
          tmp1 = push_bit 32 (ucast (bit_reflect32 (ucast (drop_bit 32 op1))));
          tmp2 = push_bit 32 (ucast op2);
          tmp3 = tmp1 XOR tmp2;
          op2 = mod2_64bit CRC32_POLYNOMIAL tmp3
      in set_gpr32 (i_dst i) (bit_reflect32 op2) c)"

section \<open>One byte of a checksum\<close>

text \<open>
  Absorbing a byte into a 32-bit checksum multiplies the state by \<open>x\<^sup>8\<close>, adds the byte times
  \<open>x\<^sup>3\<^sup>2\<close> and reduces. A table of the remainders of the 256 multiples of \<open>x\<^sup>3\<^sup>2\<close> does it in one lookup.
\<close>

definition absorb :: "nat \<Rightarrow> nat \<Rightarrow> nat \<Rightarrow> nat" where
  "absorb p s b = rem2 32 p (2 ^ 8 * s XOR 2 ^ 32 * b)"

text \<open>A message as a polynomial: its bytes, most significant first.\<close>

fun message :: "bytes \<Rightarrow> nat" where
  "message [] = 0"
| "message (b # bs) = 2 ^ (8 * length bs) * unat b XOR message bs"

lemma message_snoc: "message (bs @ [b]) = 2 ^ 8 * message bs XOR unat b"
proof (induction bs)
  case (Cons c bs)
  have "2 ^ (8 * Suc (length bs)) * unat c = 2 ^ 8 * (2 ^ (8 * length bs) * unat c)"
    by (simp add: power_add)
  with Cons show ?case by (simp only: append_Cons message.simps length_append_singleton power_xor xor.assoc)
qed simp

locale crc_modulus = modulus 32 p for p
begin

lemma rem2_absorb: "rem2 32 p (2 ^ n * rem2 32 p a XOR b) = rem2 32 p (2 ^ n * a XOR b)"
  by (simp only: rem2_xor rem2_power)

lemma absorb_table:
  "s < 2 ^ 32 \<Longrightarrow>
   absorb p s b = rem2 32 p (2 ^ 32 * (s div 2 ^ 24 XOR b)) XOR 2 ^ 8 * (s mod 2 ^ 24)"
proof -
  assume s: "s < 2 ^ 32"
  have "s = 2 ^ 24 * (s div 2 ^ 24) XOR s mod 2 ^ 24"
    using join_xor [of "s mod 2 ^ 24" 24 "s div 2 ^ 24"] by simp
  then have "2 ^ 8 * s = 2 ^ 8 * (2 ^ 24 * (s div 2 ^ 24)) XOR 2 ^ 8 * (s mod 2 ^ 24)"
    by (metis power_xor)
  also have "2 ^ 8 * (2 ^ 24 * (s div 2 ^ 24)) = 2 ^ 32 * (s div 2 ^ 24)" by simp
  finally have "2 ^ 8 * s XOR 2 ^ 32 * b = 2 ^ 32 * (s div 2 ^ 24 XOR b) XOR 2 ^ 8 * (s mod 2 ^ 24)"
    by (simp only: power_xor xor.assoc xor.left_commute xor.commute)
  moreover have "2 ^ 8 * (s mod 2 ^ 24) < (2 ^ 32 :: nat)" by simp
  then have "rem2 32 p (2 ^ 8 * (s mod 2 ^ 24)) = 2 ^ 8 * (s mod 2 ^ 24)" by (rule rem2_small)
  ultimately show ?thesis unfolding absorb_def by (simp only: rem2_xor)
qed

lemma absorb_less: "absorb p s b < 2 ^ 32"
  unfolding absorb_def by (rule rem2_less)

text \<open>A whole message, as one polynomial.\<close>

lemma absorb_message:
  "rem2 32 p (2 ^ (8 * n) * s XOR 2 ^ 32 * m) = t \<Longrightarrow>
   absorb p t b = rem2 32 p (2 ^ (8 * Suc n) * s XOR 2 ^ 32 * (2 ^ 8 * m XOR b))"
proof -
  assume t: "rem2 32 p (2 ^ (8 * n) * s XOR 2 ^ 32 * m) = t"
  have "2 ^ (8 * Suc n) * s XOR 2 ^ 32 * (2 ^ 8 * m XOR b)
      = 2 ^ 8 * (2 ^ (8 * n) * s XOR 2 ^ 32 * m) XOR 2 ^ 32 * b"
    unfolding mult_Suc_right power_add power_xor mult.assoc xor.assoc by (simp only: mult.left_commute)
  then show ?thesis
    unfolding absorb_def t [symmetric] rem2_absorb by simp
qed

lemma absorb_fold:
  "s < 2 ^ 32 \<Longrightarrow>
   foldl (absorb p) s (map unat bs) = rem2 32 p (2 ^ (8 * length bs) * s XOR 2 ^ 32 * message bs)"
proof (induction bs rule: rev_induct)
  case Nil
  then show ?case by (simp add: rem2_small [simplified])
next
  case (snoc b bs)
  then show ?case
    using absorb_message [of "length bs" s "message bs" _ "unat b"]
    by (simp only: map_append foldl_append list.map foldl.simps message_snoc length_append_singleton)
qed

text \<open>A modulus with a constant term has no factor \<open>x\<close>, so short bursts are not multiples.\<close>

lemma burst_not_multiple:
  assumes "odd p" "0 < e" "e < 2 ^ 32"
  shows "\<not> cong2 p (2 ^ k * e) 0"
proof (induction k)
  case 0
  then show ?case using residues_distinct [of e 0] assms(2,3) by auto
next
  case (Suc k)
  show ?case
  proof
    assume "cong2 p (2 ^ Suc k * e) 0"
    then obtain q where q: "2 * (2 ^ k * e) = clmul p q"
      unfolding cong2_def by (metis clmul_commute mult.assoc power_Suc xor.right_neutral)
    then have "even (clmul p q)" by (metis dvd_triv_left)
    then have "even q" using assms(1) by (subst (asm) clmul_rec) (auto simp: even_xor_iff split: if_splits)
    then obtain r where r: "q = 2 * r" by blast
    with q have "2 ^ k * e = clmul r p" by (simp add: clmul_commute)
    with Suc show False by (auto simp: cong2_def)
  qed
qed

end

section \<open>CRC-32 is a remainder\<close>

definition CRC32_MODULUS :: nat where "CRC32_MODULUS = 2 ^ 32 + unat CRC32_POLY"

lemma CRC32_MODULUS_eq: "CRC32_MODULUS = 0x104C11DB7"
  by (simp add: CRC32_MODULUS_def CRC32_POLY_def)

interpretation crc: crc_modulus CRC32_MODULUS
  by unfold_locales (simp_all add: CRC32_MODULUS_eq)

lemma crc_step:
  "unat (if c AND 0x80000000 \<noteq> 0 then push_bit 1 c XOR CRC32_POLY else push_bit 1 c)
   = reduce 32 CRC32_MODULUS (2 * unat c)"
proof -
  have "c AND 0x80000000 \<noteq> 0 \<longleftrightarrow> bit c 31" using and_bitm_eq_0 [of c 31] by (simp add: bitm_def)
  then show ?thesis using shift_step [of 31 c CRC32_POLY] by (simp add: CRC32_MODULUS_def)
qed

lemma crc_bits_rem: "unat (crc_bits j c) = rem2 32 CRC32_MODULUS (2 ^ j * unat c)"
proof (induction j arbitrary: c)
  case 0
  then show ?case using crc.rem2_small unat_bound [of c] by simp
next
  case (Suc j)
  let ?c = "if c AND 0x80000000 \<noteq> 0 then push_bit 1 c XOR CRC32_POLY else push_bit 1 c"
  have "unat (crc_bits (Suc j) c) = rem2 32 CRC32_MODULUS (2 ^ j * unat ?c)" by (simp add: Suc.IH)
  also have "unat ?c = rem2 32 CRC32_MODULUS (2 * unat c)"
    unfolding crc_step using crc.rem2_double [of "unat c"] crc.rem2_small unat_bound [of c] by simp
  also have "rem2 32 CRC32_MODULUS (2 ^ j * rem2 32 CRC32_MODULUS (2 * unat c))
      = rem2 32 CRC32_MODULUS (2 ^ Suc j * unat c)"
    unfolding crc.rem2_power by (simp add: mult.assoc mult.left_commute)
  finally show ?case .
qed

lemma crc32_table_entry:
  "idx < 256 \<Longrightarrow> unat (CRC32_TABLE ! idx) = rem2 32 CRC32_MODULUS (2 ^ 32 * idx)"
proof -
  assume i: "idx < 256"
  then have "unat (of_nat idx :: u32) = idx" by (simp add: unat_of_nat_small)
  with i have "unat (push_bit 24 (of_nat idx) :: u32) = 2 ^ 24 * idx"
    using unat_push_bit [of 24 "of_nat idx :: u32"] by simp
  then have "2 ^ 8 * unat (push_bit 24 (of_nat idx) :: u32) = 2 ^ 32 * idx" by simp
  moreover have "CRC32_TABLE ! idx = crc_bits 8 (push_bit 24 (of_nat idx))"
    using i unfolding CRC32_TABLE_def build_crc32_table_def by simp
  ultimately show ?thesis by (simp only: crc_bits_rem)
qed

lemma unat_top_byte: "unat (ucast (drop_bit 24 w) :: u8) = unat w div 2 ^ 24" for w :: u32
  unfolding unsigned_ucast_eq unsigned_drop_bit_eq using unat_bound [of w]
  by (simp add: drop_bit_eq_div take_bit_nat_eq_self div_less_iff_less_mult)

lemma crc32_byte_step:
  "unat (push_bit 8 crc XOR CRC32_TABLE ! unat ((ucast (drop_bit 24 crc) :: u8) XOR byte))
   = absorb CRC32_MODULUS (unat crc) (unat byte)"
proof -
  let ?i = "(ucast (drop_bit 24 crc) :: u8) XOR byte"
  have "unat ?i < 256" using unat_bound [of ?i] by simp
  then have "unat (CRC32_TABLE ! unat ?i) = rem2 32 CRC32_MODULUS (2 ^ 32 * (unat crc div 2 ^ 24 XOR unat byte))"
    by (simp only: crc32_table_entry unat_xor unat_top_byte)
  moreover have "unat (push_bit 8 crc) = 2 ^ 8 * (unat crc mod 2 ^ 24)"
    by (rule unat_push_bit [of 8 crc, THEN trans]) simp_all
  moreover have "unat crc < 2 ^ 32" using unat_bound [of crc] by simp
  ultimately show ?thesis by (simp only: unat_xor crc.absorb_table xor.commute)
qed

lemma crc32_loop_absorbs:
  "unat (crc32_loop buf s) = foldl (absorb CRC32_MODULUS) (unat s) (map unat buf)"
  by (induction buf arbitrary: s) (simp_all only: crc32_loop.simps Let_def crc32_byte_step list.map foldl.simps)

lemma crc32_loop_rem:
  "unat (crc32_loop buf s)
   = rem2 32 CRC32_MODULUS (2 ^ (8 * length buf) * unat s XOR 2 ^ 32 * message buf)"
  unfolding crc32_loop_absorbs using crc.absorb_fold unat_bound [of s] by simp

text \<open>
  C21. The table-driven CRC-32 is the remainder of a polynomial division: the complement of the
  checksum of a buffer of \<open>n\<close> bytes is the remainder, modulo the generator polynomial
  \<open>x\<^sup>3\<^sup>2 + x\<^sup>2\<^sup>6 + \<dots> + 1\<close> (0x104C11DB7), of the message times \<open>x\<^sup>3\<^sup>2\<close> plus thirty-two ones times
  \<open>x\<^sup>8\<^sup>n\<close>, the bytes of the message taken with the most significant bit first.
\<close>

theorem crc32_is_remainder:
  "unat (NOT (crc32 buf))
   = rem2 32 0x104C11DB7 (2 ^ (8 * length buf) * 0xFFFFFFFF XOR 2 ^ 32 * message buf)"
  using crc32_loop_rem [of buf "0xFFFFFFFF"] by (simp add: crc32_def CRC32_MODULUS_eq)

text \<open>
  C14. CRC-32 detects every burst of errors that spans at most 32 bits: two messages of the same
  length whose difference is a non-zero pattern of at most 32 bits at any position have different
  checksums.
\<close>

theorem crc32_detects_bursts:
  assumes "length a = length b" "message a XOR message b = 2 ^ k * e" "0 < e" "e < 2 ^ 32"
  shows "crc32 a \<noteq> crc32 b"
proof
  let ?p = CRC32_MODULUS and ?s = "2 ^ (8 * length a) * unat (0xFFFFFFFF :: u32)"
  assume "crc32 a = crc32 b"
  then have "unat (crc32_loop a 0xFFFFFFFF) = unat (crc32_loop b 0xFFFFFFFF)" by (simp add: crc32_def)
  then have "cong2 ?p (?s XOR 2 ^ 32 * message a) (?s XOR 2 ^ 32 * message b)"
    unfolding crc32_loop_rem assms(1) crc.rem2_eq_iff .
  then have "cong2 ?p (2 ^ 32 * message a XOR 2 ^ 32 * message b) 0"
    by (simp add: cong2_def xor.assoc xor.left_commute)
  also have "2 ^ 32 * message a XOR 2 ^ 32 * message b = 2 ^ (32 + k) * e"
    by (simp only: power_xor [symmetric] assms(2) power_add mult.assoc)
  finally have "cong2 ?p (2 ^ (32 + k) * e) 0" .
  moreover have "odd ?p" by (simp add: CRC32_MODULUS_eq)
  ultimately show False using crc.burst_not_multiple assms(3,4) by blast
qed

theorem crc32_detects_bursts_witness:
  "crc32 [0x31, 0x32, 0x33] \<noteq> crc32 [0x31, 0x3D, 0xF3]"
  by (rule crc32_detects_bursts [where k = 6 and e = "0x3F"]) simp_all

section \<open>Mirrored words\<close>

lemma bit_and_power: "bit (v AND 2 ^ k) i \<longleftrightarrow> i = k \<and> bit v i" for v :: "'a::len word"
  using bit_imp_le_length [of v i] by (auto simp: bit_simps)

lemma bit_bit_reflect8: "bit (bit_reflect8 v) i \<longleftrightarrow> i < 8 \<and> bit v (7 - i)"
proof (cases "i < 8")
  case True
  then have i: "i = 0 \<or> i = 1 \<or> i = 2 \<or> i = 3 \<or> i = 4 \<or> i = 5 \<or> i = 6 \<or> i = 7" by linarith
  have m: "bit (v AND 0x80) n \<longleftrightarrow> n = 7 \<and> bit v n" "bit (v AND 0x40) n \<longleftrightarrow> n = 6 \<and> bit v n"
      "bit (v AND 0x20) n \<longleftrightarrow> n = 5 \<and> bit v n" "bit (v AND 0x10) n \<longleftrightarrow> n = 4 \<and> bit v n"
      "bit (v AND 0x08) n \<longleftrightarrow> n = 3 \<and> bit v n" "bit (v AND 0x04) n \<longleftrightarrow> n = 2 \<and> bit v n"
      "bit (v AND 0x02) n \<longleftrightarrow> n = 1 \<and> bit v n" "bit (v AND 0x01) n \<longleftrightarrow> n = 0 \<and> bit v n" for n
    using bit_and_power [of v 7 n] bit_and_power [of v 6 n] bit_and_power [of v 5 n] bit_and_power [of v 4 n]
      bit_and_power [of v 3 n] bit_and_power [of v 2 n] bit_and_power [of v 1 n] bit_and_power [of v 0 n]
    by simp_all
  have "bit (bit_reflect8 v) i \<longleftrightarrow>
      7 + i = 7 \<and> bit v (7 + i) \<or> 5 + i = 6 \<and> bit v (5 + i) \<or> 3 + i = 5 \<and> bit v (3 + i)
    \<or> 1 + i = 4 \<and> bit v (1 + i) \<or> (1 \<le> i \<and> i - 1 = 3 \<and> bit v (i - 1)) \<or> (3 \<le> i \<and> i - 3 = 2 \<and> bit v (i - 3))
    \<or> (5 \<le> i \<and> i - 5 = 1 \<and> bit v (i - 5)) \<or> (7 \<le> i \<and> i - 7 = 0 \<and> bit v (i - 7))"
    unfolding bit_reflect8_def bit_or_iff bit_drop_bit_eq comp_def bit_push_bit_iff m
    using True by auto
  with i show ?thesis by (elim disjE) simp_all
qed (auto dest: bit_imp_le_length)

lemma bit_bit_reflect16: "bit (bit_reflect16 v) i \<longleftrightarrow> i < 16 \<and> bit v (15 - i)"
  by (cases "i < 8") (auto simp: bit_reflect16_def bit_bit_reflect8 bit_simps dest: bit_imp_le_length)

lemma bit_bit_reflect32: "bit (bit_reflect32 v) i \<longleftrightarrow> i < 32 \<and> bit v (31 - i)"
  by (cases "i < 16") (auto simp: bit_reflect32_def bit_bit_reflect16 bit_simps dest: bit_imp_le_length)

lemmas bit_reflects = bit_bit_reflect8 bit_bit_reflect16 bit_bit_reflect32

lemma bit_reflect32_reflect32 [simp]: "bit_reflect32 (bit_reflect32 v) = v"
  by (rule bit_word_eqI) (auto simp: bit_reflects)

lemma bit_reflect32_xor: "bit_reflect32 (v XOR w) = bit_reflect32 v XOR bit_reflect32 w"
  by (rule bit_word_eqI) (simp add: bit_reflects bit_simps)

lemma bit_reflect32_drop_bit: "bit_reflect32 (drop_bit n v) = push_bit n (bit_reflect32 v)"
proof (rule bit_word_eqI)
  fix i
  assume "i < LENGTH(32)"
  moreover have "n \<le> i \<Longrightarrow> i < 32 \<Longrightarrow> 31 - (i - n) = n + (31 - i)" by simp
  ultimately show "bit (bit_reflect32 (drop_bit n v)) i = bit (push_bit n (bit_reflect32 v)) i"
    using bit_imp_le_length [of v "n + (31 - i)"]
    by (auto simp: bit_bit_reflect32 bit_drop_bit_eq bit_push_bit_iff simp del: diff_diff_right Nat.diff_diff_right)
qed

lemma bit_reflect32_byte: "bit_reflect32 (ucast b) = push_bit 24 (ucast (bit_reflect8 b))" for b :: u8
proof (rule bit_word_eqI)
  fix i
  assume "i < LENGTH(32)"
  moreover have "24 \<le> i \<Longrightarrow> 7 - (i - 24) = 31 - i" by simp
  ultimately show "bit (bit_reflect32 (ucast b)) i = bit (push_bit 24 (ucast (bit_reflect8 b)) :: u32) i"
    using bit_imp_le_length [of b "31 - i"]
    by (auto simp: bit_reflects bit_push_bit_iff bit_ucast_iff simp del: Nat.diff_diff_right)
qed

lemma reflect_low_byte:
  "bit_reflect8 (ucast v XOR b) = (ucast (drop_bit 24 (bit_reflect32 v)) :: u8) XOR bit_reflect8 b" for v :: u32
  by (rule bit_word_eqI) (auto simp: bit_reflects bit_simps)

section \<open>CRC-32C is a remainder\<close>

definition CRC32C_MODULUS :: nat where "CRC32C_MODULUS = unat CRC32_POLYNOMIAL"

lemma CRC32C_MODULUS_eq: "CRC32C_MODULUS = 0x11EDC6F41"
  by (simp add: CRC32C_MODULUS_def CRC32_POLYNOMIAL_def)

interpretation crcc: crc_modulus CRC32C_MODULUS
  by unfold_locales (simp_all add: CRC32C_MODULUS_eq)

lemma reversed_polynomial: "bit_reflect32 0x82F63B78 = 0x1EDC6F41"
  by (simp add: bit_reflect32_def bit_reflect16_def bit_reflect8_def)

lemma crc32c_step:
  "unat (bit_reflect32 (if crc AND 1 \<noteq> 0 then drop_bit 1 crc XOR 0x82F63B78 else drop_bit 1 crc))
   = reduce 32 CRC32C_MODULUS (2 * unat (bit_reflect32 crc))"
proof -
  have b: "crc AND 1 \<noteq> 0 \<longleftrightarrow> bit (bit_reflect32 crc) 31"
    using and_bitm_eq_0 [of crc 0] by (simp add: bitm_def bit_reflects)
  have "CRC32C_MODULUS = 2 ^ 32 + unat (0x1EDC6F41 :: u32)" by (simp add: CRC32C_MODULUS_eq)
  then show ?thesis
    unfolding b if_distrib [of bit_reflect32] bit_reflect32_xor bit_reflect32_drop_bit reversed_polynomial
    using shift_step [of 31 "bit_reflect32 crc" "0x1EDC6F41"] by simp
qed

lemma crc32c_bits_rem:
  "unat (bit_reflect32 (crc32c_bits j crc)) = rem2 32 CRC32C_MODULUS (2 ^ j * unat (bit_reflect32 crc))"
proof (induction j arbitrary: crc)
  case 0
  then show ?case using crcc.rem2_small unat_bound [of "bit_reflect32 crc"] by simp
next
  case (Suc j)
  let ?r = "unat (bit_reflect32 crc)"
  let ?c = "if crc AND 1 \<noteq> 0 then drop_bit 1 crc XOR 0x82F63B78 else drop_bit 1 crc"
  have "unat (bit_reflect32 ?c) = rem2 32 CRC32C_MODULUS (2 * ?r)"
    unfolding crc32c_step using crcc.rem2_double [of ?r] crcc.rem2_small unat_bound [of "bit_reflect32 crc"] by simp
  then have "unat (bit_reflect32 (crc32c_bits (Suc j) crc))
      = rem2 32 CRC32C_MODULUS (2 ^ j * rem2 32 CRC32C_MODULUS (2 * ?r))"
    by (simp only: crc32c_bits.simps Suc.IH)
  then show ?case unfolding crcc.rem2_power by (simp add: mult.assoc mult.left_commute)
qed

lemma crc32c_table_entry:
  "unat (bit_reflect32 (crc32c_table ! unat b)) = rem2 32 CRC32C_MODULUS (2 ^ 32 * unat (bit_reflect8 b))" for b :: u8
proof -
  have "unat (push_bit 24 (ucast (bit_reflect8 b)) :: u32) = 2 ^ 24 * unat (bit_reflect8 b)"
    using unat_push_bit [of 24 "ucast (bit_reflect8 b) :: u32"] unat_bound [of "bit_reflect8 b"]
    by (simp add: unat_ucast_up)
  then have "2 ^ 8 * unat (bit_reflect32 (of_nat (unat b))) = 2 ^ 32 * unat (bit_reflect8 b)"
    using bit_reflect32_byte [of b] by simp
  moreover have "crc32c_table ! unat b = crc32c_bits 8 (of_nat (unat b))"
    using unat_bound [of b] unfolding crc32c_table_def by simp
  ultimately show ?thesis by (simp only: crc32c_bits_rem)
qed

lemma crc32c_byte_step:
  "unat (bit_reflect32 (crc32c_byte crc b)) = absorb CRC32C_MODULUS (unat (bit_reflect32 crc)) (unat (bit_reflect8 b))"
proof -
  let ?x = "ucast crc XOR b :: u8" and ?r = "bit_reflect32 crc"
  have "(crc XOR ucast b) AND 0xFF = ucast ?x"
    by (rule bit_word_eqI) (auto simp: bit_simps bit_numeral_masks dest: bit_imp_le_length)
  then have e: "crc32c_byte crc b = crc32c_table ! unat ?x XOR drop_bit 8 crc"
    by (simp only: crc32c_byte_def) (simp add: unat_ucast_up)
  have "unat (bit_reflect32 (crc32c_byte crc b))
      = rem2 32 CRC32C_MODULUS (2 ^ 32 * (unat ?r div 2 ^ 24 XOR unat (bit_reflect8 b))) XOR unat (push_bit 8 ?r)"
    unfolding e bit_reflect32_xor bit_reflect32_drop_bit unat_xor [of "bit_reflect32 (crc32c_table ! unat ?x)"]
      crc32c_table_entry [of ?x] by (simp only: reflect_low_byte unat_xor unat_top_byte)
  moreover have "unat (push_bit 8 ?r) = 2 ^ 8 * (unat ?r mod 2 ^ 24)"
    by (rule unat_push_bit [of 8 ?r, THEN trans]) simp_all
  moreover have "unat ?r < 2 ^ 32" using unat_bound [of ?r] by simp
  ultimately show ?thesis by (simp only: crcc.absorb_table)
qed

lemma crc32c_bytes_rem:
  "unat (bit_reflect32 (foldl crc32c_byte crc bs))
   = rem2 32 CRC32C_MODULUS (2 ^ (8 * length bs) * unat (bit_reflect32 crc) XOR 2 ^ 32 * message (map bit_reflect8 bs))"
proof -
  have "unat (bit_reflect32 (foldl crc32c_byte crc bs))
      = foldl (absorb CRC32C_MODULUS) (unat (bit_reflect32 crc)) (map unat (map bit_reflect8 bs))"
    by (induction bs arbitrary: crc) (simp_all add: crc32c_byte_step)
  then show ?thesis
    using crcc.absorb_fold [of "unat (bit_reflect32 crc)" "map bit_reflect8 bs"] unat_bound [of "bit_reflect32 crc"]
    by simp
qed

text \<open>The long division, for any divisor of degree 32.\<close>

lemma mod2_loop_rem:
  assumes d: "modulus 32 (unat divisor)"
    and r: "unat r = rem2 32 (unat divisor) (unat dividend div 2 ^ n)"
  shows "unat (mod2_loop n divisor dividend r) = rem2 32 (unat divisor) (unat dividend)"
  using r
proof (induction n arbitrary: r)
  case (Suc n)
  let ?b = "of_bool (bit dividend n)" and ?q = "unat dividend div 2 ^ Suc n"
  let ?r = "push_bit 1 r OR (drop_bit n dividend AND 1)"
  have "unat r < 2 ^ 32" unfolding Suc.prems using modulus.rem2_less [OF d] by blast
  then have p: "unat (push_bit 1 r) = 2 * unat r" using unat_push_bit [of 1 r] by simp
  have b: "drop_bit n dividend AND 1 = ?b" by (simp add: and_one_eq bit_iff_odd_drop_bit mod_2_eq_odd)
  have "?r = push_bit 1 r XOR ?b"
    unfolding b by (rule bit_word_eqI) (auto simp only: bit_or_iff bit_xor_iff bit_push_bit_iff bit_of_bool_iff)
  then have v: "unat ?r = 2 * unat r XOR ?b" by (simp only: unat_xor p) simp
  have "bit dividend n \<longleftrightarrow> odd (unat dividend div 2 ^ n)"
    by (simp add: bit_unsigned_iff flip: bit_iff_odd)
  then have "unat dividend div 2 ^ n = 2 * ?q + ?b"
    using div_mult2_eq [of "unat dividend" "2 ^ n" 2] by (simp add: mult.commute)
  also have "\<dots> = 2 * ?q XOR ?b" using join_xor [of ?b 1 ?q] by simp
  finally have e: "rem2 32 (unat divisor) (unat dividend div 2 ^ n) = reduce 32 (unat divisor) (unat ?r)"
    unfolding v Suc.prems using modulus.rem2_shift [OF d, of ?b ?q] by simp
  have m: "drop_bit 32 x AND 1 = 1 \<longleftrightarrow> bit (unat x) 32" for x :: u64
  proof -
    have "bit (unat x) 32 \<longleftrightarrow> bit x 32" by (simp add: bit_unsigned_iff)
    then show ?thesis by (simp add: and_one_eq bit_iff_odd_drop_bit [of x] mod_2_eq_odd)
  qed
  show ?case
    unfolding mod2_loop.simps Let_def m
    by (rule Suc.IH) (simp only: if_distrib [of unat] unat_xor e reduce_def)
qed simp

lemma mod2_64bit_rem:
  assumes d: "modulus 32 (unat divisor)"
  shows "unat (mod2_64bit divisor dividend) = rem2 32 (unat divisor) (unat dividend)"
proof -
  have "unat (drop_bit 32 dividend) = unat dividend div 2 ^ 32"
    unfolding unsigned_drop_bit_eq using unat_bound [of dividend]
    by (simp add: drop_bit_eq_div take_bit_nat_eq_self)
  moreover have "unat dividend div 2 ^ 32 < 2 ^ 32" using unat_bound [of dividend] by simp
  ultimately have "unat (mod2_loop 32 divisor dividend (drop_bit 32 dividend)) = rem2 32 (unat divisor) (unat dividend)"
    using modulus.rem2_small [OF d] by (intro mod2_loop_rem d) simp
  then show ?thesis
    using modulus.rem2_less [OF d, of "unat dividend"]
    by (simp add: mod2_64bit_def unsigned_ucast_eq take_bit_nat_eq_self)
qed

lemma dword_message:
  "unat (bit_reflect32 w)
   = message (map bit_reflect8 [ucast w, ucast (drop_bit 8 w), ucast (drop_bit 16 w), ucast (drop_bit 24 w)])"
proof -
  let ?b = "\<lambda>n. ucast (bit_reflect8 (ucast (drop_bit n w))) :: u32"
  have "bit_reflect32 w = push_bit 24 (?b 0) XOR (push_bit 16 (?b 8) XOR (push_bit 8 (?b 16) XOR ?b 24))"
  proof (rule bit_word_eqI)
    fix i
    assume "i < LENGTH(32)"
    then obtain m j where i: "i = 8 * m + j" "j < 8" "m < 4"
      using that [of "i div 8" "i mod 8"] by fastforce
    have b: "bit (?b n) k \<longleftrightarrow> k < 8 \<and> bit w (n + (7 - k))" for n k
      by (auto simp: bit_ucast_iff bit_reflects bit_drop_bit_eq)
    from i(3) consider "m = 0" | "m = 1" | "m = 2" | "m = 3" by linarith
    then show "bit (bit_reflect32 w) i
        = bit (push_bit 24 (?b 0) XOR (push_bit 16 (?b 8) XOR (push_bit 8 (?b 16) XOR ?b 24))) i"
      using i(2) unfolding bit_xor_iff bit_push_bit_iff b bit_bit_reflect32 i(1)
      by cases (simp_all add: diff_add_assoc [symmetric])
  qed
  moreover have "unat (push_bit n (ucast b) :: u32) = 2 ^ n * unat b" if "n \<le> 24" for n and b :: u8
  proof -
    have "(2 :: nat) ^ 8 \<le> 2 ^ (32 - n)" using that by (intro power_increasing) simp_all
    then have "unat b < 2 ^ (32 - n)" using unat_bound [of b] by simp
    then show ?thesis using that unat_push_bit [of n "ucast b :: u32"] by (simp add: unat_ucast_up)
  qed
  note u = this this [of 0]
  ultimately show ?thesis by (simp add: unat_xor u del: push_bit_of_0)
qed

lemma mod2_dword:
  "bit_reflect32 (mod2_64bit CRC32_POLYNOMIAL
     (push_bit 32 (ucast (bit_reflect32 w)) XOR push_bit 32 (ucast (bit_reflect32 crc))))
   = crc32c_dword crc w"
proof -
  let ?bs = "[ucast w, ucast (drop_bit 8 w), ucast (drop_bit 16 w), ucast (drop_bit 24 w)]"
  have u: "unat (push_bit 32 (ucast v) :: u64) = 2 ^ 32 * unat v" for v :: u32
    using unat_push_bit [of 32 "ucast v :: u64"] unat_bound [of v] by (simp add: unat_ucast_up)
  have "modulus 32 (unat CRC32_POLYNOMIAL)"
    using crcc.modulus_axioms by (simp add: CRC32C_MODULUS_def)
  then have "unat (mod2_64bit CRC32_POLYNOMIAL
      (push_bit 32 (ucast (bit_reflect32 w)) XOR push_bit 32 (ucast (bit_reflect32 crc))))
    = rem2 32 CRC32C_MODULUS (2 ^ 32 * unat (bit_reflect32 crc) XOR 2 ^ 32 * unat (bit_reflect32 w))"
    by (simp only: mod2_64bit_rem unat_xor u CRC32C_MODULUS_def xor.commute)
  also have "\<dots> = unat (bit_reflect32 (foldl crc32c_byte crc ?bs))"
    using crc32c_bytes_rem [of crc ?bs] dword_message [of w] by simp
  also have "foldl crc32c_byte crc ?bs = crc32c_dword crc w"
    by (simp add: crc32c_dword_def)
  finally show ?thesis by (metis bit_reflect32_reflect32 word_unat_eq_iff)
qed

text \<open>The bytes of an operand, from the low end, in the order the instruction consumes them.\<close>

definition low_bytes :: "nat \<Rightarrow> u64 \<Rightarrow> u8 list" where
  "low_bytes n v = map (\<lambda>k. ucast (drop_bit (8 * k) v)) [0..<n]"

lemma low_bytes_Suc: "low_bytes (Suc n) v = low_bytes n v @ [ucast (drop_bit (8 * n) v)]"
  by (simp add: low_bytes_def)

lemma low_bytes_add: "low_bytes (m + n) v = low_bytes m v @ low_bytes n (drop_bit (8 * m) v)"
  by (induction n) (simp_all add: low_bytes_def drop_bit_drop_bit add_mult_distrib2 add.commute)

lemma byte_of_narrow:
  "n + 8 \<le> LENGTH('a) \<Longrightarrow> ucast (drop_bit n (ucast v :: 'a::len word)) = (ucast (drop_bit n v) :: u8)"
  for v :: u64
  by (rule bit_word_eqI) (simp add: bit_simps)

lemma crc32c_word_bytes:
  "crc32c_word s (ucast (erx v)) = foldl crc32c_byte s (low_bytes 2 v)"
proof -
  have "ucast (erx v) = (ucast v :: u16)" by (rule bit_word_eqI) (simp add: erx_def bit_simps)
  then show ?thesis
    using byte_of_narrow [of 0 v, where 'a = 16] byte_of_narrow [of 8 v, where 'a = 16]
    by (simp add: crc32c_word_def Let_def numeral_eq_Suc low_bytes_Suc low_bytes_def)
qed

lemma crc32c_dword_bytes: "crc32c_dword s (ucast v) = foldl crc32c_byte s (low_bytes 4 v)"
  "crc32c_dword s (erx v) = foldl crc32c_byte s (low_bytes 4 v)"
  using byte_of_narrow [of 0 v, where 'a = 32] byte_of_narrow [of 8 v, where 'a = 32]
    byte_of_narrow [of 16 v, where 'a = 32] byte_of_narrow [of 24 v, where 'a = 32]
  by (simp_all add: crc32c_dword_def Let_def erx_def low_bytes_def upt_rec)

lemma crc32c_qword_bytes:
  "crc32c_dword (crc32c_dword s (ucast v)) (ucast (drop_bit 32 v)) = foldl crc32c_byte s (low_bytes 8 v)"
  using low_bytes_add [of 4 4 v] by (simp add: crc32c_dword_bytes)

text \<open>
  C13. The CRC32 instruction computes CRC-32C, and its two implementations agree. Feeding bytes
  through the reflected table leaves, with its bits mirrored, the remainder modulo
  0x11EDC6F41 of the mirrored state times \<open>x\<^sup>8\<^sup>n\<close> plus the mirrored bytes times \<open>x\<^sup>3\<^sup>2\<close>. The
  instruction feeds it the bytes of its operand from the low end, the one byte, the two, the four
  and the eight of the four operand sizes, and writes the result zero-extended to the destination;
  the 64-bit size, which the code computes by long division over the mirrored halves, included.
\<close>

theorem crc32c_implementations_agree:
  "unat (bit_reflect32 (foldl crc32c_byte crc bs))
     = rem2 32 0x11EDC6F41 (2 ^ (8 * length bs) * unat (bit_reflect32 crc) XOR 2 ^ 32 * message (map bit_reflect8 bs))
   \<and> crc32_gd_eb_r i c = set_gpr32 (i_dst i)
       (foldl crc32c_byte (get_gpr32 (i_dst i) c) [read_8bit_regx (i_src1 i) (i_extend8bit_l i) c]) c
   \<and> crc32_gd_ew_r i c = set_gpr32 (i_dst i)
       (foldl crc32c_byte (get_gpr32 (i_dst i) c) (low_bytes 2 (get_gpr64 (i_src1 i) c))) c
   \<and> crc32_gd_ed_r i c = set_gpr32 (i_dst i)
       (foldl crc32c_byte (get_gpr32 (i_dst i) c) (low_bytes 4 (get_gpr64 (i_src1 i) c))) c
   \<and> crc32_gd_eq_r i c = set_gpr32 (i_dst i)
       (foldl crc32c_byte (get_gpr32 (i_dst i) c) (low_bytes 8 (get_gpr64 (i_src1 i) c))) c"
proof (intro conjI)
  show "unat (bit_reflect32 (foldl crc32c_byte crc bs))
     = rem2 32 0x11EDC6F41 (2 ^ (8 * length bs) * unat (bit_reflect32 crc) XOR 2 ^ 32 * message (map bit_reflect8 bs))"
    using crc32c_bytes_rem [of crc bs] unfolding CRC32C_MODULUS_eq .
  show "crc32_gd_eb_r i c = set_gpr32 (i_dst i)
       (foldl crc32c_byte (get_gpr32 (i_dst i) c) [read_8bit_regx (i_src1 i) (i_extend8bit_l i) c]) c"
    by (simp add: crc32_gd_eb_r_def Let_def)
  show "crc32_gd_ew_r i c = set_gpr32 (i_dst i)
       (foldl crc32c_byte (get_gpr32 (i_dst i) c) (low_bytes 2 (get_gpr64 (i_src1 i) c))) c"
    by (simp add: crc32_gd_ew_r_def Let_def crc32c_word_bytes get_gpr32_def get_gpr64_def)
  show "crc32_gd_ed_r i c = set_gpr32 (i_dst i)
       (foldl crc32c_byte (get_gpr32 (i_dst i) c) (low_bytes 4 (get_gpr64 (i_src1 i) c))) c"
    by (simp add: crc32_gd_ed_r_def Let_def crc32c_dword_bytes get_gpr32_def get_gpr64_def)
  have m: "mod2_64bit CRC32_POLYNOMIAL (push_bit 32 (ucast (bit_reflect32 w)) XOR push_bit 32 (ucast (bit_reflect32 s)))
      = bit_reflect32 (crc32c_dword s w)" for w s
    unfolding mod2_dword [of w s, symmetric] by simp
  show "crc32_gd_eq_r i c = set_gpr32 (i_dst i)
       (foldl crc32c_byte (get_gpr32 (i_dst i) c) (low_bytes 8 (get_gpr64 (i_src1 i) c))) c"
    unfolding crc32_gd_eq_r_def Let_def m by (simp add: crc32c_qword_bytes)
qed

end
