(* ===== verification/Gf256.thy ===== *)
theory Gf256
  imports Gf2_Poly Lazy_Flags_Laws
begin

text \<open>
  The field of 256 elements behind the GFNI and AES instructions: the byte operations of
  \<^verbatim>\<open>cpu/gf2.rs\<close> (inverse, logarithm and exponential tables, \<^verbatim>\<open>gf2p8mul\<close>, \<^verbatim>\<open>affine_byte\<close>) and \<^verbatim>\<open>gf_mul\<close>
  of \<^verbatim>\<open>cpu/aes.rs\<close>. The lemmas show that both multiplications are the product of polynomials modulo
  \<open>x\<^sup>8 + x\<^sup>4 + x\<^sup>3 + x + 1\<close>, that the tables are what their names say, and the laws of the field.
\<close>

section \<open>Tables\<close>

definition GF256_INV :: "u8 list" where
  "GF256_INV = [
    0x00, 0x01, 0x8d, 0xf6, 0xcb, 0x52, 0x7b, 0xd1, 0xe8, 0x4f, 0x29, 0xc0, 0xb0, 0xe1, 0xe5, 0xc7,
    0x74, 0xb4, 0xaa, 0x4b, 0x99, 0x2b, 0x60, 0x5f, 0x58, 0x3f, 0xfd, 0xcc, 0xff, 0x40, 0xee, 0xb2,
    0x3a, 0x6e, 0x5a, 0xf1, 0x55, 0x4d, 0xa8, 0xc9, 0xc1, 0x0a, 0x98, 0x15, 0x30, 0x44, 0xa2, 0xc2,
    0x2c, 0x45, 0x92, 0x6c, 0xf3, 0x39, 0x66, 0x42, 0xf2, 0x35, 0x20, 0x6f, 0x77, 0xbb, 0x59, 0x19,
    0x1d, 0xfe, 0x37, 0x67, 0x2d, 0x31, 0xf5, 0x69, 0xa7, 0x64, 0xab, 0x13, 0x54, 0x25, 0xe9, 0x09,
    0xed, 0x5c, 0x05, 0xca, 0x4c, 0x24, 0x87, 0xbf, 0x18, 0x3e, 0x22, 0xf0, 0x51, 0xec, 0x61, 0x17,
    0x16, 0x5e, 0xaf, 0xd3, 0x49, 0xa6, 0x36, 0x43, 0xf4, 0x47, 0x91, 0xdf, 0x33, 0x93, 0x21, 0x3b,
    0x79, 0xb7, 0x97, 0x85, 0x10, 0xb5, 0xba, 0x3c, 0xb6, 0x70, 0xd0, 0x06, 0xa1, 0xfa, 0x81, 0x82,
    0x83, 0x7e, 0x7f, 0x80, 0x96, 0x73, 0xbe, 0x56, 0x9b, 0x9e, 0x95, 0xd9, 0xf7, 0x02, 0xb9, 0xa4,
    0xde, 0x6a, 0x32, 0x6d, 0xd8, 0x8a, 0x84, 0x72, 0x2a, 0x14, 0x9f, 0x88, 0xf9, 0xdc, 0x89, 0x9a,
    0xfb, 0x7c, 0x2e, 0xc3, 0x8f, 0xb8, 0x65, 0x48, 0x26, 0xc8, 0x12, 0x4a, 0xce, 0xe7, 0xd2, 0x62,
    0x0c, 0xe0, 0x1f, 0xef, 0x11, 0x75, 0x78, 0x71, 0xa5, 0x8e, 0x76, 0x3d, 0xbd, 0xbc, 0x86, 0x57,
    0x0b, 0x28, 0x2f, 0xa3, 0xda, 0xd4, 0xe4, 0x0f, 0xa9, 0x27, 0x53, 0x04, 0x1b, 0xfc, 0xac, 0xe6,
    0x7a, 0x07, 0xae, 0x63, 0xc5, 0xdb, 0xe2, 0xea, 0x94, 0x8b, 0xc4, 0xd5, 0x9d, 0xf8, 0x90, 0x6b,
    0xb1, 0x0d, 0xd6, 0xeb, 0xc6, 0x0e, 0xcf, 0xad, 0x08, 0x4e, 0xd7, 0xe3, 0x5d, 0x50, 0x1e, 0xb3,
    0x5b, 0x23, 0x38, 0x34, 0x68, 0x46, 0x03, 0x8c, 0xdd, 0x9c, 0x7d, 0xa0, 0xcd, 0x1a, 0x41, 0x1c]"

definition GF256_EXP :: "u8 list" where
  "GF256_EXP = [
    0x01, 0x03, 0x05, 0x0f, 0x11, 0x33, 0x55, 0xff, 0x1a, 0x2e, 0x72, 0x96, 0xa1, 0xf8, 0x13, 0x35,
    0x5f, 0xe1, 0x38, 0x48, 0xd8, 0x73, 0x95, 0xa4, 0xf7, 0x02, 0x06, 0x0a, 0x1e, 0x22, 0x66, 0xaa,
    0xe5, 0x34, 0x5c, 0xe4, 0x37, 0x59, 0xeb, 0x26, 0x6a, 0xbe, 0xd9, 0x70, 0x90, 0xab, 0xe6, 0x31,
    0x53, 0xf5, 0x04, 0x0c, 0x14, 0x3c, 0x44, 0xcc, 0x4f, 0xd1, 0x68, 0xb8, 0xd3, 0x6e, 0xb2, 0xcd,
    0x4c, 0xd4, 0x67, 0xa9, 0xe0, 0x3b, 0x4d, 0xd7, 0x62, 0xa6, 0xf1, 0x08, 0x18, 0x28, 0x78, 0x88,
    0x83, 0x9e, 0xb9, 0xd0, 0x6b, 0xbd, 0xdc, 0x7f, 0x81, 0x98, 0xb3, 0xce, 0x49, 0xdb, 0x76, 0x9a,
    0xb5, 0xc4, 0x57, 0xf9, 0x10, 0x30, 0x50, 0xf0, 0x0b, 0x1d, 0x27, 0x69, 0xbb, 0xd6, 0x61, 0xa3,
    0xfe, 0x19, 0x2b, 0x7d, 0x87, 0x92, 0xad, 0xec, 0x2f, 0x71, 0x93, 0xae, 0xe9, 0x20, 0x60, 0xa0,
    0xfb, 0x16, 0x3a, 0x4e, 0xd2, 0x6d, 0xb7, 0xc2, 0x5d, 0xe7, 0x32, 0x56, 0xfa, 0x15, 0x3f, 0x41,
    0xc3, 0x5e, 0xe2, 0x3d, 0x47, 0xc9, 0x40, 0xc0, 0x5b, 0xed, 0x2c, 0x74, 0x9c, 0xbf, 0xda, 0x75,
    0x9f, 0xba, 0xd5, 0x64, 0xac, 0xef, 0x2a, 0x7e, 0x82, 0x9d, 0xbc, 0xdf, 0x7a, 0x8e, 0x89, 0x80,
    0x9b, 0xb6, 0xc1, 0x58, 0xe8, 0x23, 0x65, 0xaf, 0xea, 0x25, 0x6f, 0xb1, 0xc8, 0x43, 0xc5, 0x54,
    0xfc, 0x1f, 0x21, 0x63, 0xa5, 0xf4, 0x07, 0x09, 0x1b, 0x2d, 0x77, 0x99, 0xb0, 0xcb, 0x46, 0xca,
    0x45, 0xcf, 0x4a, 0xde, 0x79, 0x8b, 0x86, 0x91, 0xa8, 0xe3, 0x3e, 0x42, 0xc6, 0x51, 0xf3, 0x0e,
    0x12, 0x36, 0x5a, 0xee, 0x29, 0x7b, 0x8d, 0x8c, 0x8f, 0x8a, 0x85, 0x94, 0xa7, 0xf2, 0x0d, 0x17,
    0x39, 0x4b, 0xdd, 0x7c, 0x84, 0x97, 0xa2, 0xfd, 0x1c, 0x24, 0x6c, 0xb4, 0xc7, 0x52, 0xf6, 0x01]"

definition GF256_LOG :: "u8 list" where
  "GF256_LOG = [
    0x00, 0x00, 0x19, 0x01, 0x32, 0x02, 0x1a, 0xc6, 0x4b, 0xc7, 0x1b, 0x68, 0x33, 0xee, 0xdf, 0x03,
    0x64, 0x04, 0xe0, 0x0e, 0x34, 0x8d, 0x81, 0xef, 0x4c, 0x71, 0x08, 0xc8, 0xf8, 0x69, 0x1c, 0xc1,
    0x7d, 0xc2, 0x1d, 0xb5, 0xf9, 0xb9, 0x27, 0x6a, 0x4d, 0xe4, 0xa6, 0x72, 0x9a, 0xc9, 0x09, 0x78,
    0x65, 0x2f, 0x8a, 0x05, 0x21, 0x0f, 0xe1, 0x24, 0x12, 0xf0, 0x82, 0x45, 0x35, 0x93, 0xda, 0x8e,
    0x96, 0x8f, 0xdb, 0xbd, 0x36, 0xd0, 0xce, 0x94, 0x13, 0x5c, 0xd2, 0xf1, 0x40, 0x46, 0x83, 0x38,
    0x66, 0xdd, 0xfd, 0x30, 0xbf, 0x06, 0x8b, 0x62, 0xb3, 0x25, 0xe2, 0x98, 0x22, 0x88, 0x91, 0x10,
    0x7e, 0x6e, 0x48, 0xc3, 0xa3, 0xb6, 0x1e, 0x42, 0x3a, 0x6b, 0x28, 0x54, 0xfa, 0x85, 0x3d, 0xba,
    0x2b, 0x79, 0x0a, 0x15, 0x9b, 0x9f, 0x5e, 0xca, 0x4e, 0xd4, 0xac, 0xe5, 0xf3, 0x73, 0xa7, 0x57,
    0xaf, 0x58, 0xa8, 0x50, 0xf4, 0xea, 0xd6, 0x74, 0x4f, 0xae, 0xe9, 0xd5, 0xe7, 0xe6, 0xad, 0xe8,
    0x2c, 0xd7, 0x75, 0x7a, 0xeb, 0x16, 0x0b, 0xf5, 0x59, 0xcb, 0x5f, 0xb0, 0x9c, 0xa9, 0x51, 0xa0,
    0x7f, 0x0c, 0xf6, 0x6f, 0x17, 0xc4, 0x49, 0xec, 0xd8, 0x43, 0x1f, 0x2d, 0xa4, 0x76, 0x7b, 0xb7,
    0xcc, 0xbb, 0x3e, 0x5a, 0xfb, 0x60, 0xb1, 0x86, 0x3b, 0x52, 0xa1, 0x6c, 0xaa, 0x55, 0x29, 0x9d,
    0x97, 0xb2, 0x87, 0x90, 0x61, 0xbe, 0xdc, 0xfc, 0xbc, 0x95, 0xcf, 0xcd, 0x37, 0x3f, 0x5b, 0xd1,
    0x53, 0x39, 0x84, 0x3c, 0x41, 0xa2, 0x6d, 0x47, 0x14, 0x2a, 0x9e, 0x5d, 0x56, 0xf2, 0xd3, 0xab,
    0x44, 0x11, 0x92, 0xd9, 0x23, 0x20, 0x2e, 0x89, 0xb4, 0x7c, 0xb8, 0x26, 0x77, 0x99, 0xe3, 0xa5,
    0x67, 0x4a, 0xed, 0xde, 0xc5, 0x31, 0xfe, 0x18, 0x0d, 0x63, 0x8c, 0x80, 0xc0, 0xf7, 0x70, 0x07]"

section \<open>Operations\<close>

definition parity_byte :: "u8 \<Rightarrow> u8" where
  "parity_byte val = ucast (drop_bit (unat ((val XOR drop_bit 4 val) AND 0xF)) (0x9669 :: u16) AND 1)"

text \<open>\<^verbatim>\<open>src2.to_le_bytes()\<close>: byte \<open>k\<close> of the matrix.\<close>

definition matrix_row :: "u64 \<Rightarrow> nat \<Rightarrow> u8" where
  "matrix_row src2 k = ucast (drop_bit (8 * k) src2)"

fun affine_loop :: "nat list \<Rightarrow> u64 \<Rightarrow> u8 \<Rightarrow> u8 \<Rightarrow> u8" where
  "affine_loop [] src2 src1byte result = result"
| "affine_loop (i # is) src2 src1byte result =
     (let p = parity_byte (matrix_row src2 (7 - i) AND src1byte)
      in affine_loop is src2 src1byte (result OR push_bit i (p XOR 1)))"

definition affine_byte :: "u64 \<Rightarrow> u8 \<Rightarrow> u8 \<Rightarrow> u8" where
  "affine_byte src2 src1byte imm8 = affine_loop [0..<8] src2 src1byte 0 XOR imm8"

definition gf2p8mul :: "u8 \<Rightarrow> u8 \<Rightarrow> u8" where
  "gf2p8mul a b =
     (if a = 0 \<or> b = 0 then 0
      else (let tmp = ucast (GF256_LOG ! unat a) + ucast (GF256_LOG ! unat b) :: u16;
                tmp = if tmp > 255 then tmp - 255 else tmp
            in GF256_EXP ! unat tmp))"

lemma unat_half: "unat (drop_bit 1 b) = unat b div 2" for b :: "'a::len word"
  by (simp only: unat_drop_bit_eq) (simp only: drop_bit_eq_div power_one_right)

lemma odd_unat: "b AND 1 \<noteq> 0 \<longleftrightarrow> odd (unat b)" for b :: "'a::len word"
proof -
  have "bit (unat b) 0 = bit b 0" by (simp add: bit_unsigned_iff)
  then show ?thesis using and_bitm_eq_0 [of b 0] by (simp add: bitm_def bit_0)
qed

function gf_mul_loop :: "u32 \<Rightarrow> u32 \<Rightarrow> u32 \<Rightarrow> u32" where
  "gf_mul_loop a b res =
     (if b = 0 then res
      else (let res = if b AND 1 \<noteq> 0 then res XOR a else res;
                a = push_bit 1 a;
                b = drop_bit 1 b;
                a = if a \<ge> 256 then a XOR 0x11b else a
            in gf_mul_loop a b res))"
  by pat_completeness auto

termination
  by (relation "measure (\<lambda>(a, b, res). unat b)") (auto simp: unat_half unat_gt_0 simp del: One_nat_def)

declare gf_mul_loop.simps [simp del]

definition gf_mul :: "u32 \<Rightarrow> u32 \<Rightarrow> u32" where
  "gf_mul a b = gf_mul_loop a b 0"

section \<open>Multiplication modulo the field polynomial\<close>

definition gmul :: "u8 \<Rightarrow> u8 \<Rightarrow> u8" where
  "gmul a b = of_nat (rem2 8 0x11B (clmul (unat a) (unat b)))"

interpretation gf: modulus 8 "0x11B"
  by unfold_locales simp_all

lemma unat_gmul: "unat (gmul a b) = rem2 8 0x11B (clmul (unat a) (unat b))"
  unfolding gmul_def using gf.rem2_less [of "clmul (unat a) (unat b)"] by (simp add: unat_of_nat_small)

lemma gmul_commute: "gmul a b = gmul b a"
  by (simp add: gmul_def clmul_commute)

lemma gmul_assoc: "gmul (gmul a b) c = gmul a (gmul b c)"
  by (rule word_unat_eqI) (simp add: unat_gmul gf.rem2_clmul_left gf.rem2_clmul_right clmul_assoc)

lemma gmul_xor_right: "gmul a (b XOR c) = gmul a b XOR gmul a c"
  by (rule word_unat_eqI) (simp only: unat_gmul unat_xor clmul_xor_right gf.rem2_xor)

lemma gmul_xor_left: "gmul (a XOR b) c = gmul a c XOR gmul b c"
  by (simp add: gmul_commute [of _ c] gmul_xor_right)

lemma gmul_0 [simp]: "gmul 0 a = 0" "gmul a 0 = 0"
  by (simp_all add: gmul_def rem2.simps)

lemma gmul_1 [simp]: "gmul 1 a = a" "gmul a 1 = a"
proof -
  show "gmul a 1 = a" using gf.rem2_small [of "unat a"] unat_bound [of a] by (simp add: gmul_def)
  then show "gmul 1 a = a" by (simp add: gmul_commute)
qed

lemmas gmul_ac = gmul_assoc gmul_commute

text \<open>The loop of \<open>gf_mul\<close>, one bit of its second factor at a time.\<close>

lemma gf_mul_loop_rem:
  "unat a < 256 \<Longrightarrow> unat (gf_mul_loop a b res) = unat res XOR rem2 8 0x11B (clmul (unat a) (unat b))"
proof (induction a b res rule: gf_mul_loop.induct)
  case (1 a b res)
  show ?case
  proof (cases "b = 0")
    case False
    let ?d = "push_bit 1 a" and ?r = "if b AND 1 \<noteq> 0 then res XOR a else res"
    let ?a = "if ?d \<ge> 256 then ?d XOR 0x11b else ?d"
    have d: "unat ?d = 2 * unat a" using unat_push_bit [of 1 a] 1(2) by simp
    have "?d \<ge> 256 \<longleftrightarrow> bit (2 * unat a) 8"
    proof -
      have "?d \<ge> 256 \<longleftrightarrow> 256 \<le> unat ?d" by (simp only: word_le_nat_alt) simp
      also have "\<dots> \<longleftrightarrow> bit (2 * unat a) 8"
      proof
        assume "256 \<le> unat ?d"
        then have "256 \<le> 2 * unat a" unfolding d .
        then show "bit (2 * unat a) 8" using 1(2) bit_top [of 8 "2 * unat a"] by simp
      next
        assume "bit (2 * unat a) 8"
        then have "(2 * unat a) div 256 \<noteq> 0" by (intro notI) (simp add: bit_iff_odd)
        then show "256 \<le> unat ?d" unfolding d by (simp add: div_eq_0_iff)
      qed
      finally show ?thesis .
    qed
    then have "unat ?a = reduce 8 0x11B (2 * unat a)"
      unfolding reduce_def if_distrib [of unat] unat_xor d by simp
    moreover have "rem2 8 0x11B (unat a) = unat a" using gf.rem2_small 1(2) by simp
    ultimately have a: "unat ?a = rem2 8 0x11B (2 * unat a)" by (simp add: gf.rem2_double)
    have "unat ?a < 256" unfolding a using gf.rem2_less [of "2 * unat a"] by simp
    then have "unat (gf_mul_loop a b res) = unat ?r XOR rem2 8 0x11B (clmul (unat ?a) (unat b div 2))"
      using 1(1) [OF False refl refl refl refl] False
      by (simp only: gf_mul_loop.simps [of a b res] Let_def if_False unat_half)
    also have "rem2 8 0x11B (clmul (unat ?a) (unat b div 2)) = rem2 8 0x11B (2 * clmul (unat a) (unat b div 2))"
      unfolding a gf.rem2_clmul_left by simp
    also have "unat ?r = unat res XOR (if odd (unat b) then unat a else 0)"
      using odd_unat [of b] by (simp add: unat_xor)
    also have "(unat res XOR (if odd (unat b) then unat a else 0)) XOR rem2 8 0x11B (2 * clmul (unat a) (unat b div 2))
        = unat res XOR rem2 8 0x11B (clmul (unat a) (unat b))"
      using 1(2) gf.rem2_small [of "unat a"]
      by (subst (2) clmul_rec) (simp add: gf.rem2_xor xor.assoc)
    finally show ?thesis .
  qed (simp add: gf_mul_loop.simps rem2.simps)
qed

lemma gf_mul_gmul: "ucast (gf_mul (ucast a) (ucast b)) = gmul a b" and gf_mul_small: "gf_mul (ucast a) (ucast b) = ucast (gmul a b)"
  for a b :: u8
proof -
  have "unat (ucast a :: u32) < 256" using unat_bound [of a] by (simp add: unat_ucast_up)
  then have "unat (gf_mul (ucast a) (ucast b)) = unat (gmul a b)"
    unfolding gf_mul_def unat_gmul using gf_mul_loop_rem by (simp add: unat_ucast_up)
  then show s: "gf_mul (ucast a) (ucast b) = ucast (gmul a b)"
    by (intro word_unat_eqI) (simp add: unat_ucast_up)
  show "ucast (gf_mul (ucast a) (ucast b)) = gmul a b" unfolding s by (simp add: ucast_up_down)
qed

section \<open>The tables\<close>

definition xtime :: "u8 \<Rightarrow> u8" where
  "xtime a = push_bit 1 a XOR (if bit a 7 then 0x1B else 0)"

lemma gmul_2: "gmul 2 a = xtime a"
proof -
  have "unat (gmul 2 a) = reduce 8 0x11B (2 * unat a)"
    using clmul_power(2) [of 1 "unat a"] gf.rem2_double [of "unat a"] gf.rem2_small [of "unat a"] unat_bound [of a]
    by (simp add: unat_gmul)
  also have "\<dots> = unat (xtime a)"
    using shift_step [of 7 a "0x1B"] by (cases "bit a 7") (simp_all add: xtime_def)
  finally show ?thesis by (rule word_unat_eqI)
qed

lemma exp_table: "map (\<lambda>x. x XOR xtime x) (butlast GF256_EXP) = tl GF256_EXP"
  by (simp add: GF256_EXP_def xtime_def)

lemma log_table: "map (\<lambda>l. GF256_EXP ! unat l) (tl GF256_LOG) = map of_nat [1..<256]"
  by code_simp

lemma inv_table:
  "map (\<lambda>a. GF256_LOG ! unat a) (tl GF256_INV) = map (\<lambda>l. if l = 0 then 0 else 255 - l) (tl GF256_LOG)"
  "list_all (\<lambda>a. a \<noteq> 0) (tl GF256_INV)"
  by code_simp+

lemma log_range: "list_all (\<lambda>l. l < 255) (tl GF256_LOG)"
  by code_simp

lemma length_tables [simp]: "length GF256_EXP = 256" "length GF256_LOG = 256" "length GF256_INV = 256"
  by (simp_all add: GF256_EXP_def GF256_LOG_def GF256_INV_def)

lemma exp_0: "GF256_EXP ! 0 = 1" "GF256_EXP ! 255 = 1"
  by (simp_all add: GF256_EXP_def)

lemma nonzero_byte: "a \<noteq> 0 \<Longrightarrow> \<exists>i < 255. unat a = Suc i" for a :: u8
  using unat_bound [of a] by (cases "unat a") (auto simp: unat_eq_0)

lemma exp_log: "a \<noteq> 0 \<Longrightarrow> GF256_EXP ! unat (GF256_LOG ! unat a) = a"
proof -
  assume "a \<noteq> 0"
  then obtain i where i: "i < 255" "unat a = Suc i" using nonzero_byte by blast
  have "map (\<lambda>l. GF256_EXP ! unat l) (tl GF256_LOG) ! i = (map of_nat [1..<256] :: u8 list) ! i"
    by (simp only: log_table)
  moreover have "1 + word_of_nat i = a" using arg_cong [OF i(2), of "of_nat :: nat \<Rightarrow> u8"] by simp
  ultimately show ?thesis using i by (simp add: nth_tl del: upt_rec_numeral)
qed

lemma log_less: "a \<noteq> 0 \<Longrightarrow> unat (GF256_LOG ! unat a) < 255" for a :: u8
proof -
  assume "a \<noteq> 0"
  then obtain i where i: "i < 255" "unat a = Suc i" using nonzero_byte by blast
  have "tl GF256_LOG ! i < 255" using log_range i(1) by (simp add: list_all_length)
  then show ?thesis using i by (simp add: nth_tl word_less_nat_alt)
qed

lemma exp_Suc: "i < 255 \<Longrightarrow> GF256_EXP ! Suc i = gmul 3 (GF256_EXP ! i)"
proof -
  assume i: "i < 255"
  have "map (\<lambda>x. x XOR xtime x) (butlast GF256_EXP) ! i = tl GF256_EXP ! i" by (simp only: exp_table)
  then have "GF256_EXP ! Suc i = GF256_EXP ! i XOR gmul 2 (GF256_EXP ! i)"
    using i by (simp add: nth_tl nth_butlast gmul_2)
  also have "\<dots> = gmul 3 (GF256_EXP ! i)"
    using gmul_xor_left [of 1 2 "GF256_EXP ! i"] by simp
  finally show ?thesis .
qed

text \<open>The exponential table is a homomorphism, up to the order 255 of the generator.\<close>

lemma exp_add: "i < 256 \<Longrightarrow> j < 256 \<Longrightarrow> i + j < 256 \<Longrightarrow> gmul (GF256_EXP ! i) (GF256_EXP ! j) = GF256_EXP ! (i + j)"
  by (induction i) (simp_all add: exp_0 exp_Suc gmul_assoc)

lemma exp_add_wrap:
  assumes "i < 256" "j < 256" "255 \<le> i + j"
  shows "gmul (GF256_EXP ! i) (GF256_EXP ! j) = GF256_EXP ! (i + j - 255)"
proof -
  let ?k = "255 - j"
  have "gmul (GF256_EXP ! ?k) (GF256_EXP ! j) = 1"
    using exp_add [of ?k j] assms by (simp add: exp_0)
  moreover have "gmul (GF256_EXP ! (i - ?k)) (GF256_EXP ! ?k) = GF256_EXP ! i"
    using exp_add [of "i - ?k" ?k] assms by simp
  ultimately have "gmul (GF256_EXP ! i) (GF256_EXP ! j) = GF256_EXP ! (i - ?k)"
    by (metis gmul_assoc gmul_1(2))
  then show ?thesis using assms by simp
qed

lemma gf2p8mul_gmul: "gf2p8mul a b = gmul a b"
proof (cases "a = 0 \<or> b = 0")
  case False
  let ?l = "\<lambda>x. unat (GF256_LOG ! unat x)"
  let ?t = "ucast (GF256_LOG ! unat a) + ucast (GF256_LOG ! unat b) :: u16"
  have l: "?l a < 255" "?l b < 255" using False log_less by auto
  then have t: "unat ?t = ?l a + ?l b" by (simp add: unat_word_ariths unat_ucast_up)
  have "gmul a b = gmul (GF256_EXP ! ?l a) (GF256_EXP ! ?l b)" using False exp_log by simp
  also have "\<dots> = GF256_EXP ! (if ?l a + ?l b > 255 then ?l a + ?l b - 255 else ?l a + ?l b)"
    using l exp_add [of "?l a" "?l b"] exp_add_wrap [of "?l a" "?l b"] by auto
  also have "\<dots> = GF256_EXP ! unat (if ?t > 255 then ?t - 255 else ?t)"
  proof -
    have c: "?t > 255 \<longleftrightarrow> ?l a + ?l b > 255" unfolding word_less_nat_alt t by simp
    have "unat (?t - 255) = ?l a + ?l b - 255" if "?t > 255"
      using unat_sub [of 255 ?t] that by (simp add: t)
    then show ?thesis unfolding if_distrib [of unat] t using c by simp
  qed
  finally show ?thesis using False by (simp add: gf2p8mul_def Let_def)
qed (auto simp: gf2p8mul_def)

lemma inv_table_0: "GF256_INV ! 0 = 0"
  by (simp add: GF256_INV_def)

lemma gmul_inv: "a \<noteq> 0 \<Longrightarrow> gmul a (GF256_INV ! unat a) = 1"
proof -
  assume a: "a \<noteq> 0"
  then obtain i where i: "i < 255" "unat a = Suc i" using nonzero_byte by blast
  let ?l = "GF256_LOG ! unat a" and ?v = "GF256_INV ! unat a"
  have "tl GF256_INV ! i \<noteq> 0" using inv_table(2) i(1) by (simp add: list_all_length)
  then have v: "?v \<noteq> 0" using i by (simp add: nth_tl)
  have "map (\<lambda>a. GF256_LOG ! unat a) (tl GF256_INV) ! i = map (\<lambda>l. if l = 0 then 0 else 255 - l) (tl GF256_LOG) ! i"
    by (simp only: inv_table(1))
  then have lv: "GF256_LOG ! unat ?v = (if ?l = 0 then 0 else 255 - ?l)" using i by (simp add: nth_tl)
  have "gmul a ?v = gmul (GF256_EXP ! unat ?l) (GF256_EXP ! unat (if ?l = 0 then 0 else 255 - ?l))"
    using exp_log [OF a] exp_log [OF v] unfolding lv by simp
  also have "\<dots> = 1"
  proof (cases "?l = 0")
    case False
    have l: "unat ?l < 255" using log_less [OF a] .
    then have "?l \<le> 255" by (simp add: word_le_nat_alt)
    then have "unat (255 - ?l) = 255 - unat ?l" using unat_sub [of ?l 255] by simp
    then show ?thesis using False l exp_add [of "unat ?l" "255 - unat ?l"] by (simp add: exp_0)
  qed (simp add: exp_0)
  finally show ?thesis .
qed

text \<open>
  C24. The two multiplications of the emulator, by logarithm tables for GF2P8MULB and by shifting for
  the AES column mixes, are the same function: the product of the operands as polynomials over the
  two-element field, reduced modulo \<open>x\<^sup>8 + x\<^sup>4 + x\<^sup>3 + x + 1\<close>. The table of inverses inverts it,
  with zero for zero.
\<close>

theorem field_multiplications_agree:
  "unat (gf2p8mul a b) = rem2 8 0x11B (clmul (unat a) (unat b)) \<and>
   gf_mul (ucast a) (ucast b) = ucast (gf2p8mul a b) \<and>
   gf2p8mul a (GF256_INV ! unat a) = of_bool (a \<noteq> 0) \<and> GF256_INV ! 0 = 0"
  by (simp add: inv_table_0 gf2p8mul_gmul unat_gmul gf_mul_small gmul_inv)

section \<open>Affine maps\<close>

lemma parity_byte_even: "parity_byte v = of_bool (even_parity v)"
proof -
  let ?t = "ucast v :: u32" and ?k = "unat ((v XOR drop_bit 4 v) AND 0xF)"
  have "(ucast ((v XOR drop_bit 4 v) AND 0xF) :: u32) = (?t XOR drop_bit 4 ?t) AND 0x0F"
    by (rule bit_word_eqI) (auto simp: bit_simps dest: bit_imp_le_length)
  then have k: "?k = unat ((?t XOR drop_bit 4 ?t) AND 0x0F)"
    using unat_ucast_up [of "(v XOR drop_bit 4 v) AND 0xF", where 'b = 32] by simp
  have w: "bit (0x9669 :: u16) n = bit (0x9669 :: u32) n" for n
    using bit_ucast_iff [of "0x9669 :: u16" n, where 'a = 32] bit_imp_le_length [of "0x9669 :: u16" n] by auto
  have h: "\<not> bit ?t i" if "8 \<le> i" for i
    using that bit_imp_le_length [of v i] by (auto simp: bit_ucast_iff)
  have "bit (0x9669 :: u16) ?k = even_parity ?t"
    unfolding w k by (rule folded_parity) (rule h)
  also have "\<dots> = even_parity v" by (rule even_parity_cong) (simp add: bit_ucast_iff)
  finally show ?thesis by (simp add: parity_byte_def and_1_of_bool bit_drop_bit_eq)
qed

lemma bit_affine_loop:
  "bit (affine_loop is m x r) k
   \<longleftrightarrow> bit r k \<or> (k < 8 \<and> k \<in> set is \<and> \<not> even_parity (matrix_row m (7 - k) AND x))"
proof (induction "is" arbitrary: r)
  case (Cons i "is")
  have "bit (push_bit i (of_bool b XOR 1) :: u8) k \<longleftrightarrow> k < 8 \<and> k = i \<and> \<not> b" for b
    by (cases b) (auto simp: bit_push_bit_iff bit_1_iff simp del: push_bit_of_1)
  then show ?case by (auto simp: Let_def Cons.IH bit_or_iff parity_byte_even)
qed simp

lemma bit_affine_byte:
  "bit (affine_byte m x imm) k
   \<longleftrightarrow> (k < 8 \<and> \<not> even_parity (matrix_row m (7 - k) AND x)) \<noteq> bit imm k"
  by (simp add: affine_byte_def bit_xor_iff bit_affine_loop del: upt_rec_numeral)

end
