(* ===== verification/Aes.thy ===== *)
theory Aes
  imports Gf256 Xmm
begin

text \<open>
  The AES and carry-less multiplication instructions of \<^verbatim>\<open>cpu/aes.rs\<close> and the GFNI instructions of
  \<^verbatim>\<open>cpu/gf2.rs\<close>, with the second operand in a register: the round transformations on the sixteen bytes
  of a state in column order, the handlers that read and write the vector registers, and the
  carry-less product. What they compute is proved in the theory \<open>Aes_Laws\<close>.
\<close>

section \<open>Transformations of the state\<close>

definition SBOX_TRANSFORMATION :: "u8 list" where
  "SBOX_TRANSFORMATION = [
    0x63, 0x7c, 0x77, 0x7b, 0xf2, 0x6b, 0x6f, 0xc5, 0x30, 0x01, 0x67, 0x2b, 0xfe, 0xd7, 0xab, 0x76,
    0xca, 0x82, 0xc9, 0x7d, 0xfa, 0x59, 0x47, 0xf0, 0xad, 0xd4, 0xa2, 0xaf, 0x9c, 0xa4, 0x72, 0xc0,
    0xb7, 0xfd, 0x93, 0x26, 0x36, 0x3f, 0xf7, 0xcc, 0x34, 0xa5, 0xe5, 0xf1, 0x71, 0xd8, 0x31, 0x15,
    0x04, 0xc7, 0x23, 0xc3, 0x18, 0x96, 0x05, 0x9a, 0x07, 0x12, 0x80, 0xe2, 0xeb, 0x27, 0xb2, 0x75,
    0x09, 0x83, 0x2c, 0x1a, 0x1b, 0x6e, 0x5a, 0xa0, 0x52, 0x3b, 0xd6, 0xb3, 0x29, 0xe3, 0x2f, 0x84,
    0x53, 0xd1, 0x00, 0xed, 0x20, 0xfc, 0xb1, 0x5b, 0x6a, 0xcb, 0xbe, 0x39, 0x4a, 0x4c, 0x58, 0xcf,
    0xd0, 0xef, 0xaa, 0xfb, 0x43, 0x4d, 0x33, 0x85, 0x45, 0xf9, 0x02, 0x7f, 0x50, 0x3c, 0x9f, 0xa8,
    0x51, 0xa3, 0x40, 0x8f, 0x92, 0x9d, 0x38, 0xf5, 0xbc, 0xb6, 0xda, 0x21, 0x10, 0xff, 0xf3, 0xd2,
    0xcd, 0x0c, 0x13, 0xec, 0x5f, 0x97, 0x44, 0x17, 0xc4, 0xa7, 0x7e, 0x3d, 0x64, 0x5d, 0x19, 0x73,
    0x60, 0x81, 0x4f, 0xdc, 0x22, 0x2a, 0x90, 0x88, 0x46, 0xee, 0xb8, 0x14, 0xde, 0x5e, 0x0b, 0xdb,
    0xe0, 0x32, 0x3a, 0x0a, 0x49, 0x06, 0x24, 0x5c, 0xc2, 0xd3, 0xac, 0x62, 0x91, 0x95, 0xe4, 0x79,
    0xe7, 0xc8, 0x37, 0x6d, 0x8d, 0xd5, 0x4e, 0xa9, 0x6c, 0x56, 0xf4, 0xea, 0x65, 0x7a, 0xae, 0x08,
    0xba, 0x78, 0x25, 0x2e, 0x1c, 0xa6, 0xb4, 0xc6, 0xe8, 0xdd, 0x74, 0x1f, 0x4b, 0xbd, 0x8b, 0x8a,
    0x70, 0x3e, 0xb5, 0x66, 0x48, 0x03, 0xf6, 0x0e, 0x61, 0x35, 0x57, 0xb9, 0x86, 0xc1, 0x1d, 0x9e,
    0xe1, 0xf8, 0x98, 0x11, 0x69, 0xd9, 0x8e, 0x94, 0x9b, 0x1e, 0x87, 0xe9, 0xce, 0x55, 0x28, 0xdf,
    0x8c, 0xa1, 0x89, 0x0d, 0xbf, 0xe6, 0x42, 0x68, 0x41, 0x99, 0x2d, 0x0f, 0xb0, 0x54, 0xbb, 0x16]"

definition INVERSE_SBOX_TRANSFORMATION :: "u8 list" where
  "INVERSE_SBOX_TRANSFORMATION = [
    0x52, 0x09, 0x6a, 0xd5, 0x30, 0x36, 0xa5, 0x38, 0xbf, 0x40, 0xa3, 0x9e, 0x81, 0xf3, 0xd7, 0xfb,
    0x7c, 0xe3, 0x39, 0x82, 0x9b, 0x2f, 0xff, 0x87, 0x34, 0x8e, 0x43, 0x44, 0xc4, 0xde, 0xe9, 0xcb,
    0x54, 0x7b, 0x94, 0x32, 0xa6, 0xc2, 0x23, 0x3d, 0xee, 0x4c, 0x95, 0x0b, 0x42, 0xfa, 0xc3, 0x4e,
    0x08, 0x2e, 0xa1, 0x66, 0x28, 0xd9, 0x24, 0xb2, 0x76, 0x5b, 0xa2, 0x49, 0x6d, 0x8b, 0xd1, 0x25,
    0x72, 0xf8, 0xf6, 0x64, 0x86, 0x68, 0x98, 0x16, 0xd4, 0xa4, 0x5c, 0xcc, 0x5d, 0x65, 0xb6, 0x92,
    0x6c, 0x70, 0x48, 0x50, 0xfd, 0xed, 0xb9, 0xda, 0x5e, 0x15, 0x46, 0x57, 0xa7, 0x8d, 0x9d, 0x84,
    0x90, 0xd8, 0xab, 0x00, 0x8c, 0xbc, 0xd3, 0x0a, 0xf7, 0xe4, 0x58, 0x05, 0xb8, 0xb3, 0x45, 0x06,
    0xd0, 0x2c, 0x1e, 0x8f, 0xca, 0x3f, 0x0f, 0x02, 0xc1, 0xaf, 0xbd, 0x03, 0x01, 0x13, 0x8a, 0x6b,
    0x3a, 0x91, 0x11, 0x41, 0x4f, 0x67, 0xdc, 0xea, 0x97, 0xf2, 0xcf, 0xce, 0xf0, 0xb4, 0xe6, 0x73,
    0x96, 0xac, 0x74, 0x22, 0xe7, 0xad, 0x35, 0x85, 0xe2, 0xf9, 0x37, 0xe8, 0x1c, 0x75, 0xdf, 0x6e,
    0x47, 0xf1, 0x1a, 0x71, 0x1d, 0x29, 0xc5, 0x89, 0x6f, 0xb7, 0x62, 0x0e, 0xaa, 0x18, 0xbe, 0x1b,
    0xfc, 0x56, 0x3e, 0x4b, 0xc6, 0xd2, 0x79, 0x20, 0x9a, 0xdb, 0xc0, 0xfe, 0x78, 0xcd, 0x5a, 0xf4,
    0x1f, 0xdd, 0xa8, 0x33, 0x88, 0x07, 0xc7, 0x31, 0xb1, 0x12, 0x10, 0x59, 0x27, 0x80, 0xec, 0x5f,
    0x60, 0x51, 0x7f, 0xa9, 0x19, 0xb5, 0x4a, 0x0d, 0x2d, 0xe5, 0x7a, 0x9f, 0x93, 0xc9, 0x9c, 0xef,
    0xa0, 0xe0, 0x3b, 0x4d, 0xae, 0x2a, 0xf5, 0xb0, 0xc8, 0xeb, 0xbb, 0x3c, 0x83, 0x53, 0x99, 0x61,
    0x17, 0x2b, 0x04, 0x7e, 0xba, 0x77, 0xd6, 0x26, 0xe1, 0x69, 0x14, 0x63, 0x55, 0x21, 0x0c, 0x7d]"

definition aes_state :: "xmm \<Rightarrow> nat \<Rightarrow> nat \<Rightarrow> u8" where
  "aes_state s a b = xmmubyte s (b * 4 + a)"

definition aes_state_set :: "nat \<Rightarrow> nat \<Rightarrow> u8 \<Rightarrow> xmm \<Rightarrow> xmm" where
  "aes_state_set a b val s = set_xmmubyte (b * 4 + a) val s"

definition aes_shift_rows :: "xmm \<Rightarrow> xmm" where
  "aes_shift_rows state =
     (let tmp = state in
      state[0 := tmp ! 0, 1 := tmp ! 5, 2 := tmp ! 10, 3 := tmp ! 15,
          4 := tmp ! 4, 5 := tmp ! 9, 6 := tmp ! 14, 7 := tmp ! 3,
          8 := tmp ! 8, 9 := tmp ! 13, 10 := tmp ! 2, 11 := tmp ! 7,
          12 := tmp ! 12, 13 := tmp ! 1, 14 := tmp ! 6, 15 := tmp ! 11])"

definition aes_inverse_shift_rows :: "xmm \<Rightarrow> xmm" where
  "aes_inverse_shift_rows state =
     (let tmp = state in
      state[0 := tmp ! 0, 1 := tmp ! 13, 2 := tmp ! 10, 3 := tmp ! 7,
          4 := tmp ! 4, 5 := tmp ! 1, 6 := tmp ! 14, 7 := tmp ! 11,
          8 := tmp ! 8, 9 := tmp ! 5, 10 := tmp ! 2, 11 := tmp ! 15,
          12 := tmp ! 12, 13 := tmp ! 9, 14 := tmp ! 6, 15 := tmp ! 3])"

definition aes_substitute_bytes :: "xmm \<Rightarrow> xmm" where
  "aes_substitute_bytes state =
     fold (\<lambda>i state. set_xmmubyte i (SBOX_TRANSFORMATION ! unat (xmmubyte state i)) state) [0..<16] state"

definition aes_inverse_substitute_bytes :: "xmm \<Rightarrow> xmm" where
  "aes_inverse_substitute_bytes state =
     fold (\<lambda>i state. set_xmmubyte i (INVERSE_SBOX_TRANSFORMATION ! unat (xmmubyte state i)) state) [0..<16] state"

definition aes_mix_columns_column :: "xmm \<Rightarrow> nat \<Rightarrow> xmm \<Rightarrow> xmm" where
  "aes_mix_columns_column tmp j state =
     (let
          state = aes_state_set 0 j (ucast (
            gf_mul 0x2 (ucast (aes_state tmp 0 j)) XOR gf_mul 0x3 (ucast (aes_state tmp 1 j))
            XOR ucast (aes_state tmp 2 j) XOR ucast (aes_state tmp 3 j) :: u32)) state;
          state = aes_state_set 1 j (ucast (
            ucast (aes_state tmp 0 j) XOR gf_mul 0x2 (ucast (aes_state tmp 1 j))
            XOR gf_mul 0x3 (ucast (aes_state tmp 2 j)) XOR ucast (aes_state tmp 3 j) :: u32)) state;
          state = aes_state_set 2 j (ucast (
            ucast (aes_state tmp 0 j) XOR ucast (aes_state tmp 1 j)
            XOR gf_mul 0x2 (ucast (aes_state tmp 2 j)) XOR gf_mul 0x3 (ucast (aes_state tmp 3 j)) :: u32)) state;
          state = aes_state_set 3 j (ucast (
            gf_mul 0x3 (ucast (aes_state tmp 0 j)) XOR ucast (aes_state tmp 1 j)
            XOR ucast (aes_state tmp 2 j) XOR gf_mul 0x2 (ucast (aes_state tmp 3 j)) :: u32)) state
      in state)"

definition aes_mix_columns :: "xmm \<Rightarrow> xmm" where
  "aes_mix_columns state = (let tmp = state in fold (aes_mix_columns_column tmp) [0..<4] state)"

definition aes_inverse_mix_columns_column :: "xmm \<Rightarrow> nat \<Rightarrow> xmm \<Rightarrow> xmm" where
  "aes_inverse_mix_columns_column tmp j state =
     (let
          state = aes_state_set 0 j (ucast (
            gf_mul 0xE (ucast (aes_state tmp 0 j)) XOR gf_mul 0xB (ucast (aes_state tmp 1 j))
            XOR gf_mul 0xD (ucast (aes_state tmp 2 j)) XOR gf_mul 0x9 (ucast (aes_state tmp 3 j)) :: u32)) state;
          state = aes_state_set 1 j (ucast (
            gf_mul 0x9 (ucast (aes_state tmp 0 j)) XOR gf_mul 0xE (ucast (aes_state tmp 1 j))
            XOR gf_mul 0xB (ucast (aes_state tmp 2 j)) XOR gf_mul 0xD (ucast (aes_state tmp 3 j)) :: u32)) state;
          state = aes_state_set 2 j (ucast (
            gf_mul 0xD (ucast (aes_state tmp 0 j)) XOR gf_mul 0x9 (ucast (aes_state tmp 1 j))
            XOR gf_mul 0xE (ucast (aes_state tmp 2 j)) XOR gf_mul 0xB (ucast (aes_state tmp 3 j)) :: u32)) state;
          state = aes_state_set 3 j (ucast (
            gf_mul 0xB (ucast (aes_state tmp 0 j)) XOR gf_mul 0xD (ucast (aes_state tmp 1 j))
            XOR gf_mul 0x9 (ucast (aes_state tmp 2 j)) XOR gf_mul 0xE (ucast (aes_state tmp 3 j)) :: u32)) state
      in state)"

definition aes_inverse_mix_columns :: "xmm \<Rightarrow> xmm" where
  "aes_inverse_mix_columns state =
     (let tmp = state in fold (aes_inverse_mix_columns_column tmp) [0..<4] state)"

definition aes_sub_word :: "u32 \<Rightarrow> u32" where
  "aes_sub_word x =
     (let b0 = ucast (SBOX_TRANSFORMATION ! unat (x AND 0xff));
          b1 = ucast (SBOX_TRANSFORMATION ! unat (drop_bit 8 x AND 0xff));
          b2 = ucast (SBOX_TRANSFORMATION ! unat (drop_bit 16 x AND 0xff));
          b3 = ucast (SBOX_TRANSFORMATION ! unat (drop_bit 24 x AND 0xff))
      in b0 OR push_bit 8 b1 OR push_bit 16 b2 OR push_bit 24 b3)"

definition aes_rot_word :: "u32 \<Rightarrow> u32" where
  "aes_rot_word x = word_rotr 8 x"

definition xmm_xorps :: "xmm \<Rightarrow> xmm \<Rightarrow> xmm" where
  "xmm_xorps dst src =
     (let dst = set_xmm64u 0 (xmm64u dst 0 XOR xmm64u src 0) dst
      in set_xmm64u 1 (xmm64u dst 1 XOR xmm64u src 1) dst)"

section \<open>Rounds\<close>

definition aesenc :: "xmm \<Rightarrow> xmm \<Rightarrow> xmm" where
  "aesenc state round_key =
     xmm_xorps (aes_mix_columns (aes_substitute_bytes (aes_shift_rows state))) round_key"

definition aesenclast :: "xmm \<Rightarrow> xmm \<Rightarrow> xmm" where
  "aesenclast state round_key = xmm_xorps (aes_substitute_bytes (aes_shift_rows state)) round_key"

definition aesdec :: "xmm \<Rightarrow> xmm \<Rightarrow> xmm" where
  "aesdec state round_key =
     xmm_xorps (aes_inverse_mix_columns (aes_inverse_substitute_bytes (aes_inverse_shift_rows state))) round_key"

definition aesdeclast :: "xmm \<Rightarrow> xmm \<Rightarrow> xmm" where
  "aesdeclast state round_key =
     xmm_xorps (aes_inverse_substitute_bytes (aes_inverse_shift_rows state)) round_key"

definition aeskeygenassist :: "xmm \<Rightarrow> u8 \<Rightarrow> xmm" where
  "aeskeygenassist op imm =
     (let rcon32 = ucast imm;
          result = xmm_default;
          result = set_xmm32u 0 (aes_sub_word (xmm32u op 1)) result;
          result = set_xmm32u 1 (aes_rot_word (xmm32u result 0) XOR rcon32) result;
          result = set_xmm32u 2 (aes_sub_word (xmm32u op 3)) result
      in set_xmm32u 3 (aes_rot_word (xmm32u result 2) XOR rcon32) result)"

section \<open>Carry-less multiplication\<close>

fun pclmul_loop :: "nat \<Rightarrow> u64 \<Rightarrow> u64 \<Rightarrow> u64 \<Rightarrow> u64 \<Rightarrow> u64 \<Rightarrow> u64 \<times> u64" where
  "pclmul_loop 0 b tmp_lo tmp_hi r_lo r_hi = (r_lo, r_hi)"
| "pclmul_loop (Suc n) b tmp_lo tmp_hi r_lo r_hi =
     (if b = 0 then (r_lo, r_hi)
      else (let (r_lo, r_hi) = if b AND 1 \<noteq> 0 then (r_lo XOR tmp_lo, r_hi XOR tmp_hi) else (r_lo, r_hi)
            in pclmul_loop n (drop_bit 1 b) (push_bit 1 tmp_lo)
                 (push_bit 1 tmp_hi OR drop_bit 63 tmp_lo) r_lo r_hi))"

definition xmm_pclmulqdq :: "u64 \<Rightarrow> u64 \<Rightarrow> xmm" where
  "xmm_pclmulqdq a b =
     (let (r_lo, r_hi) = pclmul_loop 64 b a 0 0 0
      in set_xmm64u 1 r_hi (set_xmm64u 0 r_lo xmm_default))"

section \<open>Galois field instructions\<close>

definition xmm_gf2p8affineqb :: "xmm \<Rightarrow> xmm \<Rightarrow> u8 \<Rightarrow> xmm" where
  "xmm_gf2p8affineqb dst src imm8 =
     fold (\<lambda>i dst. set_xmmubyte i (affine_byte (xmm64u src (i div 8)) (xmmubyte dst i) imm8) dst) [0..<16] dst"

definition xmm_gf2p8affineinvqb :: "xmm \<Rightarrow> xmm \<Rightarrow> u8 \<Rightarrow> xmm" where
  "xmm_gf2p8affineinvqb dst src imm8 =
     fold (\<lambda>i dst. set_xmmubyte i
       (affine_byte (xmm64u src (i div 8)) (GF256_INV ! unat (xmmubyte dst i)) imm8) dst) [0..<16] dst"

definition xmm_gf2p8mulb :: "xmm \<Rightarrow> xmm \<Rightarrow> xmm" where
  "xmm_gf2p8mulb dst src =
     fold (\<lambda>n dst. set_xmmubyte n (gf2p8mul (xmmubyte dst n) (xmmubyte src n)) dst) [0..<16] dst"

section \<open>Handlers\<close>

text \<open>
  With the second operand in a register. The legacy encodings of the AES rounds and of PCLMULQDQ
  take the state from the destination, the VEX encodings from the second source.
\<close>

definition read_aes_state :: "vex_instruction \<Rightarrow> vector_file \<Rightarrow> xmm" where
  "read_aes_state i v =
     (if i_is_vex i then read_xmm_reg (i_src2 i) v else read_xmm_reg (i_dst i) v)"

definition pxor_vdq_wdq :: "vex_instruction \<Rightarrow> vector_file \<Rightarrow> vector_file" where
  "pxor_vdq_wdq i v =
     (let op1 = read_xmm_reg (i_dst i) v; op2 = read_xmm_reg (i_src1 i) v;
          result = set_xmm64u 0 (xmm64u op1 0 XOR xmm64u op2 0) xmm_default;
          result = set_xmm64u 1 (xmm64u op1 1 XOR xmm64u op2 1) result
      in write_xmm_reg_lo128 (i_dst i) result v)"

definition aesimc_vdq_wdq :: "vex_instruction \<Rightarrow> vector_file \<Rightarrow> vector_file" where
  "aesimc_vdq_wdq i v =
     (let op = read_xmm_reg (i_src1 i) v
      in write_xmm_result i (i_dst i) (aes_inverse_mix_columns op) v)"

definition aesenc_vdq_wdq :: "vex_instruction \<Rightarrow> vector_file \<Rightarrow> vector_file" where
  "aesenc_vdq_wdq i v =
     (let state = read_aes_state i v; round_key = read_xmm_reg (i_src1 i) v
      in write_xmm_result i (i_dst i) (aesenc state round_key) v)"

definition aesenclast_vdq_wdq :: "vex_instruction \<Rightarrow> vector_file \<Rightarrow> vector_file" where
  "aesenclast_vdq_wdq i v =
     (let state = read_aes_state i v; round_key = read_xmm_reg (i_src1 i) v
      in write_xmm_result i (i_dst i) (aesenclast state round_key) v)"

definition aesdec_vdq_wdq :: "vex_instruction \<Rightarrow> vector_file \<Rightarrow> vector_file" where
  "aesdec_vdq_wdq i v =
     (let state = read_aes_state i v; round_key = read_xmm_reg (i_src1 i) v
      in write_xmm_result i (i_dst i) (aesdec state round_key) v)"

definition aesdeclast_vdq_wdq :: "vex_instruction \<Rightarrow> vector_file \<Rightarrow> vector_file" where
  "aesdeclast_vdq_wdq i v =
     (let state = read_aes_state i v; round_key = read_xmm_reg (i_src1 i) v
      in write_xmm_result i (i_dst i) (aesdeclast state round_key) v)"

definition aeskeygenassist_vdq_wdq_ib :: "vex_instruction \<Rightarrow> vector_file \<Rightarrow> vector_file" where
  "aeskeygenassist_vdq_wdq_ib i v =
     (let op = read_xmm_reg (i_src1 i) v
      in write_xmm_result i (i_dst i) (aeskeygenassist op (ucast (i_immediate i))) v)"

definition pclmulqdq_vdq_wdq_ib :: "vex_instruction \<Rightarrow> vector_file \<Rightarrow> vector_file" where
  "pclmulqdq_vdq_wdq_ib i v =
     (let imm8 = ucast (i_immediate i) :: u8;
          op1 = if i_is_vex i then read_xmm_reg (i_src2 i) v else read_xmm_reg (i_dst i) v;
          op2 = read_xmm_reg (i_src1 i) v;
          a = xmm64u op1 (unat (imm8 AND 1));
          b = xmm64u op2 (unat (drop_bit 4 imm8 AND 1))
      in write_xmm_result i (i_dst i) (xmm_pclmulqdq a b) v)"

definition gf2p8affineqb_vdq_wdq_ib :: "vex_instruction \<Rightarrow> vector_file \<Rightarrow> vector_file" where
  "gf2p8affineqb_vdq_wdq_ib i v =
     (let dst = read_xmm_reg (i_dst i) v; src = read_xmm_reg (i_src1 i) v
      in write_xmm_reg_lo128 (i_dst i) (xmm_gf2p8affineqb dst src (ucast (i_immediate i))) v)"

definition gf2p8affineinvqb_vdq_wdq_ib :: "vex_instruction \<Rightarrow> vector_file \<Rightarrow> vector_file" where
  "gf2p8affineinvqb_vdq_wdq_ib i v =
     (let dst = read_xmm_reg (i_dst i) v; src = read_xmm_reg (i_src1 i) v
      in write_xmm_reg_lo128 (i_dst i) (xmm_gf2p8affineinvqb dst src (ucast (i_immediate i))) v)"

definition gf2p8mulb_vdq_wdq :: "vex_instruction \<Rightarrow> vector_file \<Rightarrow> vector_file" where
  "gf2p8mulb_vdq_wdq i v =
     (let dst = read_xmm_reg (i_dst i) v; src = read_xmm_reg (i_src1 i) v
      in write_xmm_reg_lo128 (i_dst i) (xmm_gf2p8mulb dst src) v)"

end
