(* ===== verification/Aes_Laws.thy ===== *)
theory Aes_Laws
  imports Aes
begin

text \<open>
  What the instructions of the theory \<open>Aes\<close> compute. Each transformation of the state is first put
  in closed form (a permutation, a map over the bytes, a matrix over the field for each column, a
  bytewise \<open>XOR\<close>); the inverses and the cipher follow from those.
\<close>

section \<open>Closed forms\<close>

lemma fold_bytes:
  "n \<le> length s \<Longrightarrow>
   fold (\<lambda>i s. set_xmmubyte i (f i (xmmubyte s i)) s) [0..<n] s = map (\<lambda>i. f i (s ! i)) [0..<n] @ drop n s"
proof (induction n)
  case (Suc n)
  then have "drop n s = s ! n # drop (Suc n) s" by (simp add: Cons_nth_drop_Suc)
  with Suc show ?case by (simp add: set_xmmubyte_def xmmubyte_def nth_append list_update_append)
qed simp

lemma fold_16_bytes:
  "length s = 16 \<Longrightarrow> fold (\<lambda>i s. set_xmmubyte i (f i (xmmubyte s i)) s) [0..<16] s = map (\<lambda>i. f i (s ! i)) [0..<16]"
  using fold_bytes [of 16 s f] by (simp del: upt_rec_numeral)

lemma map_nth_16: "length s = 16 \<Longrightarrow> map (\<lambda>i. f (s ! i)) [0..<16] = map f s"
proof -
  assume "length s = 16"
  moreover have "map f s = map f (map ((!) s) [0..<length s])" by (simp only: map_nth)
  ultimately show ?thesis by (simp add: comp_def)
qed

lemma substitute_bytes_eq:
  assumes "length s = 16"
  shows "aes_substitute_bytes s = map (\<lambda>b. SBOX_TRANSFORMATION ! unat b) s"
    "aes_inverse_substitute_bytes s = map (\<lambda>b. INVERSE_SBOX_TRANSFORMATION ! unat b) s"
  unfolding aes_substitute_bytes_def aes_inverse_substitute_bytes_def
    fold_16_bytes [OF assms, of "\<lambda>i b. SBOX_TRANSFORMATION ! unat b"]
    fold_16_bytes [OF assms, of "\<lambda>i b. INVERSE_SBOX_TRANSFORMATION ! unat b"]
  by (rule map_nth_16 [OF assms])+

lemma indices: "[0..<4] = [0, 1, 2, 3]" "[0..<16] = [0, 1, 2, 3, 4, 5, 6, 7, 8, 9, 10, 11, 12, 13, 14, 15]"
  by (simp_all add: upt_rec)

lemma sixteen:
  "length s = 16 \<Longrightarrow> \<exists>a0 a1 a2 a3 a4 a5 a6 a7 a8 a9 b0 b1 b2 b3 b4 b5.
     s = [a0, a1, a2, a3, a4, a5, a6, a7, a8, a9, b0, b1, b2, b3, b4, b5]"
  by (simp add: numeral_eq_Suc length_Suc_conv) metis

lemma shift_rows_eq:
  "length s = 16 \<Longrightarrow> aes_shift_rows s = map (\<lambda>i. s ! (5 * i mod 16)) [0..<16]"
  "length s = 16 \<Longrightarrow> aes_inverse_shift_rows s = map (\<lambda>i. s ! (13 * i mod 16)) [0..<16]"
  by (drule sixteen, elim exE, simp add: indices aes_shift_rows_def aes_inverse_shift_rows_def)+

text \<open>A row of a column mix.\<close>

definition lin :: "u8 \<Rightarrow> u8 \<Rightarrow> u8 \<Rightarrow> u8 \<Rightarrow> u8 \<Rightarrow> u8 \<Rightarrow> u8 \<Rightarrow> u8 \<Rightarrow> u8" where
  "lin w x y z a b c d = gmul w a XOR gmul x b XOR gmul y c XOR gmul z d"

lemma gf_mul_const:
  "gf_mul 0x2 (ucast b) = ucast (gmul 2 b)" "gf_mul 0x3 (ucast b) = ucast (gmul 3 b)"
  "gf_mul 0xE (ucast b) = ucast (gmul 0xE b)" "gf_mul 0xB (ucast b) = ucast (gmul 0xB b)"
  "gf_mul 0xD (ucast b) = ucast (gmul 0xD b)" "gf_mul 0x9 (ucast b) = ucast (gmul 0x9 b)" for b :: u8
  using gf_mul_small [of 2 b] gf_mul_small [of 3 b] gf_mul_small [of "0xE" b] gf_mul_small [of "0xB" b]
    gf_mul_small [of "0xD" b] gf_mul_small [of "0x9" b] by simp_all

lemma ucast_xor4: "ucast (ucast a XOR ucast b XOR ucast c XOR ucast d :: u32) = a XOR b XOR c XOR d" for a b c d :: u8
  by (rule bit_word_eqI) (simp add: bit_simps)

lemma mix_columns_eq:
  "aes_mix_columns [a0, a1, a2, a3, a4, a5, a6, a7, a8, a9, b0, b1, b2, b3, b4, b5] =
    [lin 2 3 1 1 a0 a1 a2 a3, lin 1 2 3 1 a0 a1 a2 a3, lin 1 1 2 3 a0 a1 a2 a3, lin 3 1 1 2 a0 a1 a2 a3,
     lin 2 3 1 1 a4 a5 a6 a7, lin 1 2 3 1 a4 a5 a6 a7, lin 1 1 2 3 a4 a5 a6 a7, lin 3 1 1 2 a4 a5 a6 a7,
     lin 2 3 1 1 a8 a9 b0 b1, lin 1 2 3 1 a8 a9 b0 b1, lin 1 1 2 3 a8 a9 b0 b1, lin 3 1 1 2 a8 a9 b0 b1,
     lin 2 3 1 1 b2 b3 b4 b5, lin 1 2 3 1 b2 b3 b4 b5, lin 1 1 2 3 b2 b3 b4 b5, lin 3 1 1 2 b2 b3 b4 b5]"
  by (simp add: indices aes_mix_columns_def aes_mix_columns_column_def aes_state_def aes_state_set_def
      xmmubyte_def set_xmmubyte_def gf_mul_const ucast_xor4 lin_def)

lemma inverse_mix_columns_eq:
  "aes_inverse_mix_columns [a0, a1, a2, a3, a4, a5, a6, a7, a8, a9, b0, b1, b2, b3, b4, b5] =
    [lin 14 11 13 9 a0 a1 a2 a3, lin 9 14 11 13 a0 a1 a2 a3, lin 13 9 14 11 a0 a1 a2 a3, lin 11 13 9 14 a0 a1 a2 a3,
     lin 14 11 13 9 a4 a5 a6 a7, lin 9 14 11 13 a4 a5 a6 a7, lin 13 9 14 11 a4 a5 a6 a7, lin 11 13 9 14 a4 a5 a6 a7,
     lin 14 11 13 9 a8 a9 b0 b1, lin 9 14 11 13 a8 a9 b0 b1, lin 13 9 14 11 a8 a9 b0 b1, lin 11 13 9 14 a8 a9 b0 b1,
     lin 14 11 13 9 b2 b3 b4 b5, lin 9 14 11 13 b2 b3 b4 b5, lin 13 9 14 11 b2 b3 b4 b5, lin 11 13 9 14 b2 b3 b4 b5]"
  by (simp add: indices aes_inverse_mix_columns_def aes_inverse_mix_columns_column_def aes_state_def aes_state_set_def
      xmmubyte_def set_xmmubyte_def gf_mul_const ucast_xor4 lin_def)

lemma lin_lin:
  "lin p q r s (lin w0 x0 y0 z0 a b c d) (lin w1 x1 y1 z1 a b c d)
               (lin w2 x2 y2 z2 a b c d) (lin w3 x3 y3 z3 a b c d)
   = lin (lin p q r s w0 w1 w2 w3) (lin p q r s x0 x1 x2 x3)
         (lin p q r s y0 y1 y2 y3) (lin p q r s z0 z1 z2 z3) a b c d"
  by (simp add: lin_def gmul_xor_left gmul_xor_right gmul_assoc xor.assoc xor.left_commute xor.commute)

lemma lin_xor:
  "lin p q r s (a XOR a') (b XOR b') (c XOR c') (d XOR d') = lin p q r s a b c d XOR lin p q r s a' b' c' d'"
  by (simp add: lin_def gmul_xor_right xor.assoc xor.left_commute xor.commute)

section \<open>The transformations and their inverses\<close>

lemma to_le_bytes_xor: "to_le_bytes n (x XOR y) = map2 (XOR) (to_le_bytes n x) (to_le_bytes n y)"
  by (rule nth_equalityI) (simp_all add: to_le_bytes_def bit_eq_iff bit_simps)

lemma xor_qword:
  "length s = 16 \<Longrightarrow> length t = 16 \<Longrightarrow> i < 2 \<Longrightarrow>
   to_le_bytes 8 (xmm64u s i XOR xmm64u t i) = map2 (XOR) (take 8 (drop (8 * i) s)) (take 8 (drop (8 * i) t))"
  by (auto simp: to_le_bytes_xor xmm64u_def)

lemma map2_halves:
  "length s = 16 \<Longrightarrow> length t = 16 \<Longrightarrow>
   map2 f (take 8 s) (take 8 t) @ map2 f (drop 8 s) (drop 8 t) = map2 f s t"
  by (simp add: map_append [symmetric] zip_append [symmetric] del: map_append zip_append)

lemma xorps_eq:
  assumes "length s = 16" "length t = 16"
  shows "xmm_xorps s t = map2 (XOR) s t"
    "set_xmm64u 1 (xmm64u s 1 XOR xmm64u t 1) (set_xmm64u 0 (xmm64u s 0 XOR xmm64u t 0) xmm_default) = map2 (XOR) s t"
proof -
  have d: "xmm64u (set_xmm64u 0 w s) (Suc 0) = xmm64u s (Suc 0)" for w
    using assms by (simp add: xmm64u_def set_xmm64u_def)
  note q = xor_qword [OF assms, of 0] xor_qword [OF assms, of 1] map2_halves [OF assms, of "(XOR)"]
  show "xmm_xorps s t = map2 (XOR) s t"
    using q assms unfolding xmm_xorps_def Let_def One_nat_def d by (simp add: set_xmm64u_def)
  show "set_xmm64u 1 (xmm64u s 1 XOR xmm64u t 1) (set_xmm64u 0 (xmm64u s 0 XOR xmm64u t 0) xmm_default) = map2 (XOR) s t"
    using q assms by (simp add: set_xmm64u_def xmm_default_def)
qed

lemma xorps_cancel: "length s = 16 \<Longrightarrow> length k = 16 \<Longrightarrow> xmm_xorps (xmm_xorps s k) k = s"
  by (simp add: xorps_eq) (rule nth_equalityI, simp_all add: xor.assoc)

lemma sbox_inverse:
  "map (\<lambda>b. INVERSE_SBOX_TRANSFORMATION ! unat b) SBOX_TRANSFORMATION = map of_nat [0..<256]"
  by code_simp

lemma length_sbox [simp]: "length SBOX_TRANSFORMATION = 256" "length INVERSE_SBOX_TRANSFORMATION = 256"
  by (simp_all add: SBOX_TRANSFORMATION_def INVERSE_SBOX_TRANSFORMATION_def)

lemma inverse_sbox: "INVERSE_SBOX_TRANSFORMATION ! unat (SBOX_TRANSFORMATION ! unat b) = b" for b :: u8
proof -
  have b: "unat b < 256" using unsigned_less [of b, where 'a = nat] by simp
  have "map (\<lambda>b. INVERSE_SBOX_TRANSFORMATION ! unat b) SBOX_TRANSFORMATION ! unat b = map of_nat [0..<256] ! unat b"
    by (simp only: sbox_inverse)
  with b show ?thesis by simp
qed

lemma length_transformations [simp]:
  "length s = 16 \<Longrightarrow> length (aes_substitute_bytes s) = 16"
  "length s = 16 \<Longrightarrow> length (aes_shift_rows s) = 16"
  "length s = 16 \<Longrightarrow> length (aes_inverse_substitute_bytes s) = 16"
  "length s = 16 \<Longrightarrow> length (aes_inverse_shift_rows s) = 16"
  "length s = 16 \<Longrightarrow> length t = 16 \<Longrightarrow> length (xmm_xorps s t) = 16"
  by (simp_all add: substitute_bytes_eq shift_rows_eq xorps_eq)

lemma length_mix_columns [simp]:
  "length s = 16 \<Longrightarrow> length (aes_mix_columns s) = 16"
  "length s = 16 \<Longrightarrow> length (aes_inverse_mix_columns s) = 16"
  by (drule sixteen, elim exE, simp add: mix_columns_eq inverse_mix_columns_eq)+

lemma inverse_bytes_rows:
  "length s = 16 \<Longrightarrow>
   aes_inverse_substitute_bytes (aes_inverse_shift_rows (aes_substitute_bytes (aes_shift_rows s))) = s"
  by (simp add: substitute_bytes_eq shift_rows_eq comp_def inverse_sbox)
     (drule sixteen, elim exE, simp add: indices)

lemma inverse_lin:
  "lin 14 11 13 9 2 1 1 3 = 1" "lin 14 11 13 9 3 2 1 1 = 0" "lin 14 11 13 9 1 3 2 1 = 0" "lin 14 11 13 9 1 1 3 2 = 0"
  "lin 9 14 11 13 2 1 1 3 = 0" "lin 9 14 11 13 3 2 1 1 = 1" "lin 9 14 11 13 1 3 2 1 = 0" "lin 9 14 11 13 1 1 3 2 = 0"
  "lin 13 9 14 11 2 1 1 3 = 0" "lin 13 9 14 11 3 2 1 1 = 0" "lin 13 9 14 11 1 3 2 1 = 1" "lin 13 9 14 11 1 1 3 2 = 0"
  "lin 11 13 9 14 2 1 1 3 = 0" "lin 11 13 9 14 3 2 1 1 = 0" "lin 11 13 9 14 1 3 2 1 = 0" "lin 11 13 9 14 1 1 3 2 = 1"
  by code_simp+

lemma inverse_mix: "length s = 16 \<Longrightarrow> aes_inverse_mix_columns (aes_mix_columns s) = s"
  by (drule sixteen, elim exE)
     (simp add: mix_columns_eq inverse_mix_columns_eq lin_lin inverse_lin, simp add: lin_def)

lemma inverse_mix_xor:
  "length s = 16 \<Longrightarrow> length t = 16 \<Longrightarrow>
   aes_inverse_mix_columns (xmm_xorps s t) = xmm_xorps (aes_inverse_mix_columns s) (aes_inverse_mix_columns t)"
  by (simp add: xorps_eq, drule sixteen, drule sixteen, elim exE)
     (simp add: inverse_mix_columns_eq lin_xor)

section \<open>Instruction sequences\<close>

text \<open>
  A legacy-encoded instruction with registers for both operands, and the two sequences that encrypt
  and decrypt the block in register \<open>d\<close>: \<open>k0\<close> holds the whitening key, \<open>ks\<close> the keys of the inner
  rounds, \<open>kn\<close> the key of the last round. Decryption applies AESIMC to each inner key, in the
  register \<open>t\<close>.
\<close>

definition legacy :: "nat \<Rightarrow> nat \<Rightarrow> vex_instruction" where
  "legacy d s = \<lparr>i_dst = d, i_src1 = s, i_extend8bit_l = False, i_as32_l = False, i_as64_l = False,
     i_immediate = 0, i_src2 = 0, i_is_vex = False\<rparr>"

definition encrypt_block :: "nat \<Rightarrow> nat \<Rightarrow> nat list \<Rightarrow> nat \<Rightarrow> vector_file \<Rightarrow> vector_file" where
  "encrypt_block d k0 ks kn v =
     aesenclast_vdq_wdq (legacy d kn)
       (fold (\<lambda>k. aesenc_vdq_wdq (legacy d k)) ks (pxor_vdq_wdq (legacy d k0) v))"

definition decrypt_block :: "nat \<Rightarrow> nat \<Rightarrow> nat \<Rightarrow> nat list \<Rightarrow> nat \<Rightarrow> vector_file \<Rightarrow> vector_file" where
  "decrypt_block d t k0 ks kn v =
     aesdeclast_vdq_wdq (legacy d k0)
       (fold (\<lambda>k v. aesdec_vdq_wdq (legacy d t) (aesimc_vdq_wdq (legacy t k) v)) (rev ks)
         (pxor_vdq_wdq (legacy d kn) v))"

lemmas put = write_xmm_reg_lo128_def read_xmm_reg_def zmm128_def set_zmm128_def vector_reg_def

lemma put_read: "vector_reg v d \<Longrightarrow> write_xmm_reg_lo128 d (read_xmm_reg d v) v = v"
  by (simp add: put)

lemma read_put:
  "vector_reg v d \<Longrightarrow> length x = 16 \<Longrightarrow>
   read_xmm_reg r (write_xmm_reg_lo128 d x v) = (if r = d then x else read_xmm_reg r v)"
  by (simp add: put nth_list_update)

lemma put_put:
  "vector_reg v d \<Longrightarrow> length x = 16 \<Longrightarrow> length y = 16 \<Longrightarrow>
   write_xmm_reg_lo128 d y (write_xmm_reg_lo128 d x v) = write_xmm_reg_lo128 d y v"
  by (simp add: put)

lemma put_swap:
  "d \<noteq> t \<Longrightarrow> write_xmm_reg_lo128 d x (write_xmm_reg_lo128 t y v) = write_xmm_reg_lo128 t y (write_xmm_reg_lo128 d x v)"
  by (simp add: put list_update_swap)

lemma vector_reg_put:
  "vector_reg v d \<Longrightarrow> length x = 16 \<Longrightarrow> vector_reg (write_xmm_reg_lo128 d x v) r = vector_reg v r"
  by (auto simp: put nth_list_update)

lemmas put_simps = read_put put_put vector_reg_put length_read_xmm_reg

lemma legacy_handlers:
  "vector_reg v d \<Longrightarrow> vector_reg v k \<Longrightarrow>
   pxor_vdq_wdq (legacy d k) v = write_xmm_reg_lo128 d (xmm_xorps (read_xmm_reg d v) (read_xmm_reg k v)) v"
  "aesenc_vdq_wdq (legacy d k) v = write_xmm_reg_lo128 d (aesenc (read_xmm_reg d v) (read_xmm_reg k v)) v"
  "aesenclast_vdq_wdq (legacy d k) v = write_xmm_reg_lo128 d (aesenclast (read_xmm_reg d v) (read_xmm_reg k v)) v"
  "aesdec_vdq_wdq (legacy d k) v = write_xmm_reg_lo128 d (aesdec (read_xmm_reg d v) (read_xmm_reg k v)) v"
  "aesdeclast_vdq_wdq (legacy d k) v = write_xmm_reg_lo128 d (aesdeclast (read_xmm_reg d v) (read_xmm_reg k v)) v"
  "aesimc_vdq_wdq (legacy d k) v = write_xmm_reg_lo128 d (aes_inverse_mix_columns (read_xmm_reg k v)) v"
  by (simp_all add: pxor_vdq_wdq_def aesenc_vdq_wdq_def aesenclast_vdq_wdq_def aesdec_vdq_wdq_def
      aesdeclast_vdq_wdq_def aesimc_vdq_wdq_def legacy_def read_aes_state_def write_xmm_result_def
      xorps_eq [unfolded One_nat_def, OF length_read_xmm_reg length_read_xmm_reg] Let_def)

lemma length_rounds [simp]:
  "length s = 16 \<Longrightarrow> length k = 16 \<Longrightarrow> length (aesenc s k) = 16"
  "length s = 16 \<Longrightarrow> length k = 16 \<Longrightarrow> length (aesenclast s k) = 16"
  "length s = 16 \<Longrightarrow> length k = 16 \<Longrightarrow> length (aesdec s k) = 16"
  "length s = 16 \<Longrightarrow> length k = 16 \<Longrightarrow> length (aesdeclast s k) = 16"
  by (simp_all add: aesenc_def aesenclast_def aesdec_def aesdeclast_def)

lemma length_fold_rounds [simp]:
  "length s = 16 \<Longrightarrow> \<forall>k \<in> set ks. length (f k) = 16 \<Longrightarrow> length (fold (\<lambda>k s. aesenc s (f k)) ks s) = 16"
  "length s = 16 \<Longrightarrow> \<forall>k \<in> set ks. length (f k) = 16 \<Longrightarrow> length (fold (\<lambda>k s. aesdec s (f k)) ks s) = 16"
  by (induction ks arbitrary: s) simp_all

text \<open>One round of decryption undoes one round of encryption, seen before the keys are added.\<close>

lemma decryption_round:
  "length s = 16 \<Longrightarrow> length k = 16 \<Longrightarrow>
   aesdec (aes_substitute_bytes (aes_shift_rows (aesenc s k))) (aes_inverse_mix_columns k)
   = aes_substitute_bytes (aes_shift_rows s)"
  by (simp add: aesdec_def inverse_bytes_rows) (simp add: aesenc_def inverse_mix_xor inverse_mix xorps_cancel)

lemma decryption_rounds:
  "length s = 16 \<Longrightarrow> \<forall>k \<in> set ks. length (f k) = 16 \<Longrightarrow>
   fold (\<lambda>k s. aesdec s (aes_inverse_mix_columns (f k))) (rev ks)
     (aes_substitute_bytes (aes_shift_rows (fold (\<lambda>k s. aesenc s (f k)) ks s)))
   = aes_substitute_bytes (aes_shift_rows s)"
  by (induction ks arbitrary: s) (simp_all add: decryption_round)

lemma encrypt_rounds:
  assumes "vector_reg v d" "\<forall>k \<in> set ks. vector_reg v k \<and> k \<noteq> d"
  shows "fold (\<lambda>k. aesenc_vdq_wdq (legacy d k)) ks v =
    write_xmm_reg_lo128 d (fold (\<lambda>k s. aesenc s (read_xmm_reg k v)) ks (read_xmm_reg d v)) v"
  using assms
proof (induction ks arbitrary: v)
  case (Cons k ks)
  let ?v = "write_xmm_reg_lo128 d (aesenc (read_xmm_reg d v) (read_xmm_reg k v)) v"
  from Cons.prems have "fold (\<lambda>k. aesenc_vdq_wdq (legacy d k)) ks ?v =
      write_xmm_reg_lo128 d (fold (\<lambda>k s. aesenc s (read_xmm_reg k ?v)) ks (read_xmm_reg d ?v)) ?v"
    by (intro Cons.IH) (simp_all add: put_simps)
  moreover from Cons.prems have "fold (\<lambda>k s. aesenc s (read_xmm_reg k ?v)) ks x = fold (\<lambda>k s. aesenc s (read_xmm_reg k v)) ks x" for x
    by (intro fold_cong) (simp_all add: put_simps)
  ultimately show ?case using Cons.prems by (simp add: legacy_handlers(2) [of d k v] put_simps)
qed (simp add: put_read)

lemma encrypt_block_eq:
  assumes "vector_reg v d" "\<forall>k \<in> set (k0 # kn # ks). vector_reg v k \<and> k \<noteq> d"
  shows "encrypt_block d k0 ks kn v =
    write_xmm_reg_lo128 d
      (aesenclast (fold (\<lambda>k s. aesenc s (read_xmm_reg k v)) ks (xmm_xorps (read_xmm_reg d v) (read_xmm_reg k0 v)))
        (read_xmm_reg kn v)) v"
proof -
  let ?x = "xmm_xorps (read_xmm_reg d v) (read_xmm_reg k0 v)"
  let ?v = "write_xmm_reg_lo128 d ?x v"
  have len: "length (read_xmm_reg kn v) = 16" "length ?x = 16" "\<forall>k \<in> set ks. length (read_xmm_reg k v) = 16"
    using assms by (simp_all add: length_read_xmm_reg)
  then have "fold (\<lambda>k s. aesenc s (read_xmm_reg k ?v)) ks ?x = fold (\<lambda>k s. aesenc s (read_xmm_reg k v)) ks ?x"
    using assms by (intro fold_cong) (simp_all add: put_simps)
  then show ?thesis
    using assms len encrypt_rounds [of ?v d ks] by (simp add: encrypt_block_def legacy_handlers put_simps)
qed

lemma decrypt_rounds:
  assumes "vector_reg v d" "vector_reg v t" "d \<noteq> t" "\<forall>k \<in> set ks. vector_reg v k \<and> k \<noteq> d \<and> k \<noteq> t"
  shows "\<exists>x. length x = 16 \<and>
    fold (\<lambda>k v. aesdec_vdq_wdq (legacy d t) (aesimc_vdq_wdq (legacy t k) v)) ks v =
    write_xmm_reg_lo128 d (fold (\<lambda>k s. aesdec s (aes_inverse_mix_columns (read_xmm_reg k v))) ks (read_xmm_reg d v))
      (write_xmm_reg_lo128 t x v)"
  using assms
proof (induction ks arbitrary: v)
  case Nil
  then show ?case by (intro exI [of _ "read_xmm_reg t v"]) (simp add: put_read length_read_xmm_reg)
next
  case (Cons k ks)
  let ?m = "aes_inverse_mix_columns (read_xmm_reg k v)"
  let ?v = "write_xmm_reg_lo128 d (aesdec (read_xmm_reg d v) ?m) (write_xmm_reg_lo128 t ?m v)"
  have v: "aesdec_vdq_wdq (legacy d t) (aesimc_vdq_wdq (legacy t k) v) = ?v"
    using Cons.prems by (simp add: legacy_handlers put_simps)
  from Cons.prems obtain x where x: "length x = 16"
    "fold (\<lambda>k v. aesdec_vdq_wdq (legacy d t) (aesimc_vdq_wdq (legacy t k) v)) ks ?v =
      write_xmm_reg_lo128 d (fold (\<lambda>k s. aesdec s (aes_inverse_mix_columns (read_xmm_reg k ?v))) ks (read_xmm_reg d ?v))
        (write_xmm_reg_lo128 t x ?v)"
    using Cons.IH [of ?v] by (auto simp: put_simps)
  from Cons.prems have "fold (\<lambda>k s. aesdec s (aes_inverse_mix_columns (read_xmm_reg k ?v))) ks y =
      fold (\<lambda>k s. aesdec s (aes_inverse_mix_columns (read_xmm_reg k v))) ks y" for y
    by (intro fold_cong) (simp_all add: put_simps)
  with x Cons.prems show ?case
    by (intro exI [of _ x]) (simp add: v put_simps put_swap [of t d])
qed

text \<open>
  C12. The AES instructions, in their legacy encoding, are a cipher that they invert: after
  encrypting the block in register \<open>d\<close> with a whitening key, any number of rounds and a last round,
  the decryption sequence with the same keys in reverse order, each inner one through AESIMC,
  restores every register of the file except the temporary one, for every block and all keys.
\<close>

theorem aes_decryption_inverts:
  assumes "vector_reg v d" "vector_reg v t" "d \<noteq> t"
    "\<forall>k \<in> set (k0 # kn # ks). vector_reg v k \<and> k \<noteq> d \<and> k \<noteq> t"
    "m \<noteq> t"
  shows "vmm (decrypt_block d t k0 ks kn (encrypt_block d k0 ks kn v)) ! m = vmm v ! m"
proof -
  let ?r = "\<lambda>n. read_xmm_reg n v"
  let ?x = "xmm_xorps (?r d) (?r k0)"
  let ?y = "fold (\<lambda>k s. aesenc s (?r k)) ks ?x"
  let ?z = "aesenclast ?y (?r kn)"
  have k: "\<forall>k \<in> set ks. vector_reg v k \<and> k \<noteq> d \<and> k \<noteq> t" using assms by simp
  have len: "length (?r d) = 16" "length (?r k0) = 16" "length (?r kn) = 16" "\<forall>k \<in> set ks. length (?r k) = 16"
    using assms by (simp_all add: length_read_xmm_reg)
  have "length ?x = 16" "length ?y = 16" "length ?z = 16" using len by simp_all
  note len = len this
  have e: "encrypt_block d k0 ks kn v = write_xmm_reg_lo128 d ?z v" using assms by (intro encrypt_block_eq) simp_all
  let ?w = "write_xmm_reg_lo128 d (aes_substitute_bytes (aes_shift_rows ?y)) v"
  have p: "pxor_vdq_wdq (legacy d kn) (write_xmm_reg_lo128 d ?z v) = ?w"
    using assms len by (simp add: legacy_handlers put_simps aesenclast_def xorps_cancel)
  have "fold (\<lambda>k s. aesdec s (aes_inverse_mix_columns (read_xmm_reg k ?w))) (rev ks) (aes_substitute_bytes (aes_shift_rows ?y))
      = fold (\<lambda>k s. aesdec s (aes_inverse_mix_columns (?r k))) (rev ks) (aes_substitute_bytes (aes_shift_rows ?y))"
    using k assms(1) len by (intro fold_cong) (simp_all add: put_simps)
  also have "\<dots> = aes_substitute_bytes (aes_shift_rows ?x)" using len by (intro decryption_rounds) simp_all
  finally obtain x where "length x = 16"
    "fold (\<lambda>k v. aesdec_vdq_wdq (legacy d t) (aesimc_vdq_wdq (legacy t k) v)) (rev ks) ?w
       = write_xmm_reg_lo128 d (aes_substitute_bytes (aes_shift_rows ?x)) (write_xmm_reg_lo128 t x ?w)"
    using assms len k decrypt_rounds [of ?w d t "rev ks"] by (auto simp: put_simps)
  then have "decrypt_block d t k0 ks kn (encrypt_block d k0 ks kn v) = write_xmm_reg_lo128 d (?r d) (write_xmm_reg_lo128 t x v)"
    using assms len
    by (simp add: decrypt_block_def e p legacy_handlers put_simps aesdeclast_def inverse_bytes_rows xorps_cancel put_swap [of t d])
  also have "\<dots> = write_xmm_reg_lo128 t x v" using assms by (simp add: put_swap [of d t] put_read)
  finally show ?thesis using assms(5) by (simp add: put)
qed

theorem aes_decryption_inverts_witness:
  "let v = \<lparr>vmm = map (\<lambda>n. replicate 64 (of_nat n)) [0..<5], maxvl = Vl512\<rparr> in
   vmm (decrypt_block 0 1 2 [3, 4, 3] 4 (encrypt_block 0 2 [3, 4, 3] 4 v)) ! 0 = replicate 64 0"
proof -
  let ?v = "\<lparr>vmm = map (\<lambda>n. replicate 64 (of_nat n)) [0..<5], maxvl = Vl512\<rparr>"
  have "vector_reg ?v n" if "n < 5" for n using that by (simp add: vector_reg_def)
  then show ?thesis using aes_decryption_inverts [of ?v 0 1 2 4 "[3, 4, 3]" 0] by simp
qed

section \<open>The S-box and the field inverse\<close>

lemma sbox_affine:
  "map (\<lambda>b. affine_byte 0xF1E3C78F1F3E7CF8 b 0x63) GF256_INV = SBOX_TRANSFORMATION"
  by code_simp

text \<open>
  C25. The S-box table is the affine image of the inverse in the field: GF2P8AFFINEINVQB with the
  matrix of AES in both qwords of its second operand and the immediate \<open>0x63\<close> substitutes the
  bytes of a block exactly as the AES rounds do.
\<close>

theorem sbox_is_affine_inverse:
  assumes "length s = 16" "xmm64u src 0 = 0xF1E3C78F1F3E7CF8" "xmm64u src 1 = 0xF1E3C78F1F3E7CF8"
  shows "xmm_gf2p8affineinvqb s src 0x63 = aes_substitute_bytes s"
proof -
  have q: "xmm64u src (i div 8) = 0xF1E3C78F1F3E7CF8" if "i \<in> set [0..<16]" for i
  proof -
    have "i div 8 = 0 \<or> i div 8 = 1" using that by auto
    with assms show ?thesis by auto
  qed
  have b: "affine_byte 0xF1E3C78F1F3E7CF8 (GF256_INV ! unat b) 0x63 = SBOX_TRANSFORMATION ! unat b" for b :: u8
    unfolding sbox_affine [symmetric] using unsigned_less [of b, where 'a = nat] by simp
  have "xmm_gf2p8affineinvqb s src 0x63 =
      map (\<lambda>i. affine_byte (xmm64u src (i div 8)) (GF256_INV ! unat (s ! i)) 0x63) [0..<16]"
    unfolding xmm_gf2p8affineinvqb_def
    by (rule fold_16_bytes [OF assms(1), of "\<lambda>i b. affine_byte (xmm64u src (i div 8)) (GF256_INV ! unat b) 0x63"])
  also have "\<dots> = map (\<lambda>i. SBOX_TRANSFORMATION ! unat (s ! i)) [0..<16]"
    using q by (intro map_cong refl) (simp only: b)
  also have "\<dots> = aes_substitute_bytes s"
    unfolding substitute_bytes_eq [OF assms(1)] by (rule map_nth_16 [OF assms(1)])
  finally show ?thesis .
qed

theorem sbox_is_affine_inverse_witness:
  "xmm_gf2p8affineinvqb (replicate 16 0x53) (to_le_bytes 8 (0xF1E3C78F1F3E7CF8 :: u64) @ to_le_bytes 8 (0xF1E3C78F1F3E7CF8 :: u64)) 0x63
   = replicate 16 0xED"
proof -
  let ?m = "to_le_bytes 8 (0xF1E3C78F1F3E7CF8 :: u64) @ to_le_bytes 8 (0xF1E3C78F1F3E7CF8 :: u64)"
  have "xmm_gf2p8affineinvqb (replicate 16 0x53) ?m 0x63 = aes_substitute_bytes (replicate 16 0x53)"
    by (rule sbox_is_affine_inverse) (simp, code_simp, code_simp)
  also have "\<dots> = replicate 16 0xED" by code_simp
  finally show ?thesis .
qed

section \<open>The carry-less product\<close>

definition wide :: "u64 \<Rightarrow> u64 \<Rightarrow> nat" where
  "wide lo hi = 2 ^ 64 * unat hi + unat lo"

lemma bit_wide: "bit (wide lo hi) n \<longleftrightarrow> (if n < 64 then bit lo n else bit hi (n - 64))"
proof -
  have "unat lo < 2 ^ 64" using unsigned_less [of lo, where 'a = nat] by simp
  then have "wide lo hi = push_bit 64 (unat hi) XOR unat lo"
    using join_xor [of "unat lo" 64 "unat hi"] by (simp only: wide_def push_bit_eq_mult mult.commute)
  then show ?thesis using bit_imp_le_length [of lo n] by (auto simp: bit_simps)
qed

lemma wide_xor: "wide (a XOR c) (b XOR e) = wide a b XOR wide c e"
  by (rule bit_eqI) (simp add: bit_wide bit_xor_iff)

lemma wide_shift:
  assumes "wide lo hi < 2 ^ 127"
  shows "wide (push_bit 1 lo) (push_bit 1 hi OR drop_bit 63 lo) = 2 * wide lo hi"
proof (rule bit_eqI)
  fix n :: nat
  have "\<not> bit (wide lo hi) 127" using assms by (simp add: bit_iff_odd)
  then have h: "\<not> bit hi 63" by (simp add: bit_wide)
  have b: "bit (push_bit 1 w) k \<longleftrightarrow> 0 < k \<and> k < 64 \<and> bit w (k - 1)" for w :: u64 and k
    unfolding bit_push_bit_iff by (auto simp: possible_bit_word)
  consider "n = 0" | "0 < n" "n < 64" | "n = 64" | "64 < n" "n < 128" | "n = 128" | "128 < n" by linarith
  then show "bit (wide (push_bit 1 lo) (push_bit 1 hi OR drop_bit 63 lo)) n \<longleftrightarrow> bit (2 * wide lo hi) n"
    using h bit_imp_le_length [of hi "n - 1 - 64"] bit_imp_le_length [of lo "63 + (n - 64)"]
    unfolding bit_wide bit_or_iff b bit_drop_bit_eq bit_double_iff comp_def
    by cases auto
qed

lemma pclmul_loop_clmul:
  "unat b < 2 ^ n \<Longrightarrow> n \<le> 64 \<Longrightarrow> wide lo hi < 2 ^ (128 - n) \<Longrightarrow>
   pclmul_loop n b lo hi r_lo r_hi = (x, y) \<Longrightarrow> wide x y = wide r_lo r_hi XOR clmul (wide lo hi) (unat b)"
proof (induction n arbitrary: b lo hi r_lo r_hi)
  case (Suc n)
  have u: "unat (drop_bit 1 b) = unat b div 2" by (rule unat_half)
  have o: "b AND 1 \<noteq> 0 \<longleftrightarrow> odd (unat b)" by (rule odd_unat)
  have "wide lo hi < 2 ^ 127"
    using Suc.prems(3) power_increasing [of "128 - Suc n" 127 "2 :: nat"] by linarith
  note s = wide_shift [OF this]
  show ?case
  proof (cases "b = 0")
    case False
    let ?r = "if b AND 1 \<noteq> 0 then (r_lo XOR lo, r_hi XOR hi) else (r_lo, r_hi)"
    have "(2 :: nat) ^ (128 - n) = 2 * 2 ^ (128 - Suc n)" using Suc.prems(2) by (simp add: power_Suc [symmetric] Suc_diff_Suc del: power_Suc)
    then have "wide x y = wide (fst ?r) (snd ?r) XOR clmul (2 * wide lo hi) (unat b div 2)"
      using Suc.prems False by (intro Suc.IH [of "drop_bit 1 b" "push_bit 1 lo" "push_bit 1 hi OR drop_bit 63 lo", unfolded s u])
        (auto simp: Let_def split_beta)
    also have "\<dots> = wide r_lo r_hi XOR clmul (wide lo hi) (unat b)"
      using o by (simp add: clmul_rec [of _ "unat b"] wide_xor xor.assoc)
    finally show ?thesis .
  qed (use Suc.prems in simp)
qed (auto simp: unat_eq_0)

lemma pclmul_wide:
  "wide (xmm64u (xmm_pclmulqdq a b) 0) (xmm64u (xmm_pclmulqdq a b) 1) = clmul (unat a) (unat b)"
proof -
  obtain x y where xy: "pclmul_loop 64 b a 0 0 0 = (x, y)" by (cases "pclmul_loop 64 b a 0 0 0")
  have u: "unat w < 2 ^ 64" for w :: u64 using unsigned_less [of w, where 'a = nat] by simp
  then have "wide x y = wide 0 0 XOR clmul (wide a 0) (unat b)"
    by (intro pclmul_loop_clmul [OF _ _ _ xy]) (simp_all add: wide_def)
  then show ?thesis
    by (simp add: xmm_pclmulqdq_def xy xmm64u_def set_xmm64u_def xmm_default_def) (simp add: wide_def)
qed

text \<open>
  C26. PCLMULQDQ multiplies exactly: the two qwords it leaves in the destination register are the low
  and the high half of the 127-bit product, as polynomials over the two-element field, of the qwords
  that bits 0 and 4 of the immediate select from its operands.
\<close>

theorem pclmulqdq_exact:
  assumes "vector_reg v (i_dst i)"
  shows "let r = read_xmm_reg (i_dst i) (pclmulqdq_vdq_wdq_ib i v);
             a = xmm64u (read_xmm_reg (if i_is_vex i then i_src2 i else i_dst i) v) (of_bool (bit (i_immediate i) 0));
             b = xmm64u (read_xmm_reg (i_src1 i) v) (of_bool (bit (i_immediate i) 4))
         in unat (xmm64u r 1) * 2 ^ 64 + unat (xmm64u r 0) = clmul (unat a) (unat b)"
proof -
  have s: "unat ((ucast w :: u8) AND 1) = of_bool (bit w 0)" "unat (drop_bit 4 (ucast w :: u8) AND 1) = of_bool (bit w 4)"
    for w :: u32
    by (simp_all add: and_1_of_bool bit_simps)
  have l: "length (xmm_pclmulqdq a b) = 16" for a b
    by (simp add: xmm_pclmulqdq_def set_xmm64u_def xmm_default_def split_beta)
  show ?thesis
    unfolding pclmulqdq_vdq_wdq_ib_def Let_def s read_write_xmm_result [OF assms l]
    using pclmul_wide by (simp add: wide_def mult.commute)
qed

theorem pclmulqdq_exact_witness:
  "let v = \<lparr>vmm = map (\<lambda>n. replicate 64 (of_nat n)) [2..<5], maxvl = Vl128\<rparr>;
       i = (legacy 0 1)\<lparr>i_immediate := 0x10\<rparr>
   in unat (xmm64u (read_xmm_reg 0 (pclmulqdq_vdq_wdq_ib i v)) 1) * 2 ^ 64
      + unat (xmm64u (read_xmm_reg 0 (pclmulqdq_vdq_wdq_ib i v)) 0) = clmul 0x0202020202020202 0x0303030303030303"
proof -
  let ?v = "\<lparr>vmm = map (\<lambda>n. replicate 64 (of_nat n)) [2..<5], maxvl = Vl128\<rparr> :: vector_file"
  let ?i = "(legacy 0 1)\<lparr>i_immediate := 0x10\<rparr>"
  have d: "i_dst ?i = 0" "i_src1 ?i = 1" "i_is_vex ?i = False" "\<not> bit (i_immediate ?i) 0" "bit (i_immediate ?i) 4"
    by (simp_all add: legacy_def)
  have rep: "replicate 8 x = [x, x, x, x, x, x, x, x]" for x :: u8 by (simp add: numeral_eq_Suc)
  have q: "unat (xmm64u (read_xmm_reg 0 ?v) 0) = 0x0202020202020202" "unat (xmm64u (read_xmm_reg 1 ?v) 1) = 0x0303030303030303"
    by (simp_all add: xmm64u_def read_xmm_reg_def zmm128_def rep upt_rec)
  have "vector_reg ?v (i_dst ?i)" unfolding d by (simp add: vector_reg_def)
  from pclmulqdq_exact [OF this] show ?thesis unfolding Let_def d by (simp only: if_False of_bool_eq d q)
qed

end
