(* ===== verification/Spec2Isabelle.thy ===== *)
theory Spec2Isabelle
  imports Ring_Buffer Vm_Time Pic_Snapshot Irq_Fabric_Laws Pc_Properties
    Cpu_Branch Cpu_Bits Cpu_Bcd Crc Aes_Laws
begin

text \<open>
  Verification of rusty_box, an emulator of the x86 PC written in Rust after Bochs. File names are
  relative to \<^verbatim>\<open>src/rusty_box/src/\<close> unless they name another crate.

  \<^bold>\<open>The program.\<close> A machine is a processor, a PC system that keeps emulated time, and devices. The
  processor executes decoded instructions on its registers and lazy flags. As it runs it hands ticks
  to the PC system, which fires the timers that are due; the devices behind the timers drive
  interrupt lines; the interrupt fabric passes a line to the pair of 8259 controllers and to the I/O
  APIC, which offer the processor a vector or queue a message for it. The I/O APIC is reached through
  a window in the table of memory-mapped regions. Every part can be saved in a section of a snapshot
  and restored from it.

  \<^bold>\<open>Conventions\<close> (theory \<open>Prelude\<close>). Integers of the source are words of their width where wrapping
  or bits matter, natural numbers with explicit wrapping where they are counters; \<^verbatim>\<open>usize\<close> indices
  are natural numbers. A state is a record, an operation takes it and gives the new one. An operation
  that fails gives \<open>Inl\<close> with the error, and the state as well where the source may have changed it
  before failing; \<open>None\<close> is a panic or, for a partial function, a loop that does not end. Tracing and
  logging are left out.

  \<^bold>\<open>Snapshots.\<close> \<open>Snap\<close> models the writer and reader of \<^verbatim>\<open>rusty_box_core/src/snap.rs\<close> and the length
  arithmetic of \<^verbatim>\<open>snapshot.rs\<close>. The locale \<open>snap_codec\<close> is what a writer and its reader promise each
  other; it is interpreted on every scalar and on the parts of every device section, and each section
  round trip follows from it: \<open>Pic_Snapshot\<close>, \<open>Io_Apic_Laws\<close>, \<open>Pc_Snapshot\<close> and \<open>Pc_Properties\<close>. The
  round trips hold for every state the operations reach, and a restored machine runs.

  \<^bold>\<open>Time and timers.\<close> \<open>Vm_Time\<close> models \<^verbatim>\<open>rusty_box_core/src/time.rs\<close>: rates, instants and conversions
  at the width of the source, each shown to be the exact rounded quotient. \<open>Pc_System\<close> models
  \<^verbatim>\<open>pc_system.rs\<close>. \<open>Pc_Timers\<close> specifies a timer by itself, how often it is due by a tick and what it
  is then, and shows that the wheel refines that for all timers at once; \<open>Pc_Arming\<close> does the arming
  operations, \<open>Pc_Reachable\<close> the step relation of all operations with its invariant, and
  \<open>Pc_Laws\<close> and \<open>Pc_Properties\<close> the consequences: a timer fires exactly when due, the countdown never
  passes a deadline, refused calls change nothing.

  \<^bold>\<open>Interrupts.\<close> \<open>Pic\<close> models \<^verbatim>\<open>pic.rs\<close>; \<open>Pic_Service\<close> compares its priority scans with a
  specification by an ordering of the lines, \<open>Pic_Invariant\<close> has the invariant of every reachable pair,
  \<open>Pic_Delivery\<close> follows a line to its vector. \<open>Mmio_Map\<close> models \<^verbatim>\<open>memory/mmio_map.rs\<close>, with the locale
  \<open>window_table\<close> as its contract. \<open>Io_Apic\<close> and \<open>Io_Apic_Laws\<close> model \<^verbatim>\<open>iodev/ioapic.rs\<close>.
  \<open>Irq_Fabric\<close> and \<open>Irq_Fabric_Laws\<close> put the controllers together as \<^verbatim>\<open>iodev/irq.rs\<close> does; the locale
  \<open>line_sink\<close> is the interface devices see, and the main theorem says that the two controllers agree
  on every line after any sequence of calls. \<open>Ring_Buffer\<close> is \<^verbatim>\<open>rusty_box_core/src/ring_buffer.rs\<close>, with
  the locale \<open>bounded_fifo\<close>.

  \<^bold>\<open>Processor.\<close> \<open>Lazy_Flags\<close> models \<^verbatim>\<open>cpu/lazy_flags.rs\<close>; \<open>Carries\<close> and \<open>Lazy_Flags_Laws\<close> show that
  the recovered flags are those of the architecture at four widths, with CF kept by the setters of
  INC and DEC, through the locale \<open>alu_flags\<close>. \<open>Cpu_Regs\<close> has the registers with their views and
  \<^verbatim>\<open>eflags\<close>, and shows that each access reaches exactly the bits of its view. On it stand the instructions with
  register operands: \<open>Cpu_Alu\<close> (\<^verbatim>\<open>arith32.rs\<close>, \<^verbatim>\<open>logical32.rs\<close>, \<^verbatim>\<open>arith64.rs\<close>), \<open>Cpu_Shift\<close>
  (\<^verbatim>\<open>shift32.rs\<close>), \<open>Cpu_Mult\<close> (\<^verbatim>\<open>mult32.rs\<close>), \<open>Cpu_Branch\<close> (near jumps, LOOP, SETcc and CMOVcc of
  \<^verbatim>\<open>ctrl_xfer16.rs\<close>, \<^verbatim>\<open>ctrl_xfer32.rs\<close>, \<^verbatim>\<open>ctrl_xfer64.rs\<close>, \<^verbatim>\<open>bit.rs\<close>, \<^verbatim>\<open>data_xfer_ext.rs\<close>), \<open>Cpu_Bcd\<close>
  (\<^verbatim>\<open>bcd.rs\<close> with the accumulator forms of \<^verbatim>\<open>arith8.rs\<close>), \<open>Cpu_Bmi\<close> (\<^verbatim>\<open>bmi32.rs\<close>, PEXT and PDEP of
  \<^verbatim>\<open>bmi64.rs\<close>) and \<open>Cpu_Bits\<close> (\<^verbatim>\<open>bit32.rs\<close>). Each theorem compares a group of handlers with exact
  arithmetic: the value, all six flags and that nothing else changes. \<open>Cpu_Branch\<close> and \<open>Cpu_Bits\<close> also
  prove two faults of the code, a 32-bit LOOP that loses a count and 16-bit counts that clear the
  upper half of their destination.

  \<^bold>\<open>Polynomials.\<close> \<open>Gf2_Poly\<close> is the arithmetic of polynomials over the two-element field; its locale
  \<open>modulus\<close> is arithmetic modulo one of them, interpreted on the generators of the two checksums and
  of the AES field. \<open>Crc\<close> models \<^verbatim>\<open>crc.rs\<close>, \<^verbatim>\<open>cpu/crc32.rs\<close> and the checksum part of \<^verbatim>\<open>bit32.rs\<close>: tables
  are remainders, the two implementations of the CRC32 instruction agree at its four operand sizes, and bursts are detected.
  \<open>Gf256\<close> and \<open>Xmm\<close> have the field and the vector registers (\<^verbatim>\<open>cpu/gf2.rs\<close>, \<^verbatim>\<open>cpu/xmm.rs\<close>); \<open>Aes\<close> and
  \<open>Aes_Laws\<close> the AES, PCLMULQDQ and GFNI instructions of \<^verbatim>\<open>cpu/aes.rs\<close> and \<^verbatim>\<open>cpu/gf2.rs\<close>, with the
  theorem that the decryption instructions undo the encryption instructions.

  \<^bold>\<open>Loops and fuel.\<close> The priority scans of the 8259 carry a fuel of 8, one step for each line; a lemma
  shows that more never changes the result. The loops of \<^verbatim>\<open>tickn\<close> and of the
  rescheduling of a periodic timer are partial functions; the theorem on advancing time proves that
  they return on every reachable machine. So are the loops of PEXT and PDEP, which always return. The
  loops over 64, 32 or 8 bits recurse on the number of bits left, and \<^verbatim>\<open>gf_mul\<close> terminates because its
  multiplier is halved.

  \<^bold>\<open>Not modelled.\<close> Memory operands, the stack, segmentation, paging and exception delivery: they act on
  host memory through cached raw mappings, so a handler is modelled in its register form and a fault
  ends as an error value. The decoder is a table generated from the upstream project; handlers take
  the decoded instruction. Floating point is a port of SoftFloat and needs a theory of its own; the
  remaining vector instructions rest on it or on memory operands. The 8 and 16-bit integer forms repeat
  the modelled ones. The local APIC, the DMA controller and the port devices have register files of
  their own; what they share with the model is the timer wheel, the lines and the snapshot codec. The
  emulator loop, the graphical interface, the disk and firmware devices, the engine on the host's
  hypervisor and the tools are host input and output.
\<close>

end
